(* ===== verification/Prelude.thy ===== *)
theory Prelude
  imports Main "HOL-Library.Word" "HOL-Library.Monad_Syntax"
begin

text \<open>
  Shared vocabulary of the development: the machine types of the driver, the meaning of
  "the code has no defined result here", status codes and the generic lemmas on options,
  lists and words the components share.

  Conventions.  The driver is built for x86 (32-bit) and for x64 and ARM64 (64-bit);
  \<open>arch_types.h\<close> gives \<open>cell_t\<close> the width of a pointer, and
  \<open>natives_impl.h\<close> asserts it.  Every definition that depends on the width is
  polymorphic in the word length \<open>'w\<close>: \<open>'w word\<close> is at once a cell,
  a \<open>size_t\<close> and an address, and \<open>'w\<close> is 32 or 64.

  A computation of type \<open>'a option\<close> is \<open>None\<close> where the C++ code has no
  defined result: an access outside the object it belongs to, a null dereference, a
  \<open>__fastfail\<close>, or a loop that does not end.  Errors the code itself reports are
  ordinary values (\<open>loader_error\<close>, \<open>amx_error\<close>, \<open>ntstatus\<close>)
  inside \<open>Some\<close>.
\<close>

unbundle bit_operations_syntax

section \<open>Collections of facts\<close>

named_theorems run_simps \<open>evaluation of computations in the option monad\<close>
named_theorems layout_simps \<open>sizes and addresses of the loader's allocation\<close>
named_theorems status_simps \<open>status codes and their severity\<close>
named_theorems step_simps \<open>state updates of the operations\<close>

section \<open>Machine types\<close>

type_synonym byte = "8 word"
type_synonym u16 = "16 word"
type_synonym u32 = "32 word"
type_synonym u64 = "64 word"

text \<open>A C string in a model is the list of its bytes, without the terminator.\<close>

type_synonym cstring = "byte list"

definition cstr :: "string \<Rightarrow> cstring" where
  "cstr s = map of_char s"

text \<open>The size in bytes of a cell, of a pointer and of \<open>size_t\<close>.\<close>

definition sizeof_cell :: "'w::len itself \<Rightarrow> nat" where
  "sizeof_cell _ = LENGTH('w) div 8"

text \<open>The two word lengths the driver is built for.\<close>

definition machine_word :: "'w::len itself \<Rightarrow> bool" where
  "machine_word _ \<longleftrightarrow> LENGTH('w) = 32 \<or> LENGTH('w) = 64"

lemma machine_word_32 [simp]: "machine_word TYPE(32)"
  and machine_word_64 [simp]: "machine_word TYPE(64)"
  by (simp_all add: machine_word_def)

lemma sizeof_cell_32 [simp]: "sizeof_cell TYPE(32) = 4"
  and sizeof_cell_64 [simp]: "sizeof_cell TYPE(64) = 8"
  by (simp_all add: sizeof_cell_def)

lemma sizeof_cell_pos: "machine_word TYPE('w::len) \<Longrightarrow> 0 < sizeof_cell TYPE('w)"
  by (auto simp: machine_word_def sizeof_cell_def)

lemma machine_word_cases:
  assumes "machine_word TYPE('w::len)"
  obtains (w32) "LENGTH('w) = 32" "sizeof_cell TYPE('w) = 4"
    | (w64) "LENGTH('w) = 64" "sizeof_cell TYPE('w) = 8"
  using assms by (auto simp: machine_word_def sizeof_cell_def)

section \<open>Status codes\<close>

text \<open>
  \<open>NTSTATUS\<close> is a 32-bit value; \<open>NT_SUCCESS\<close> reads its sign.
\<close>

type_synonym ntstatus = "32 word"

definition NT_SUCCESS :: "ntstatus \<Rightarrow> bool" where
  "NT_SUCCESS s \<longleftrightarrow> 0 \<le>s s"

definition STATUS_SUCCESS :: ntstatus where "STATUS_SUCCESS = 0"
definition STATUS_UNSUCCESSFUL :: ntstatus where "STATUS_UNSUCCESSFUL = 0xC0000001"
definition STATUS_NOT_IMPLEMENTED :: ntstatus where "STATUS_NOT_IMPLEMENTED = 0xC0000002"
definition STATUS_INVALID_PARAMETER :: ntstatus where "STATUS_INVALID_PARAMETER = 0xC000000D"
definition STATUS_NO_MEMORY :: ntstatus where "STATUS_NO_MEMORY = 0xC0000017"
definition STATUS_OBJECT_NAME_NOT_FOUND :: ntstatus where
  "STATUS_OBJECT_NAME_NOT_FOUND = 0xC0000034"
definition STATUS_DEVICE_NOT_READY :: ntstatus where "STATUS_DEVICE_NOT_READY = 0xC00000A3"
definition STATUS_DEVICE_DOES_NOT_EXIST :: ntstatus where
  "STATUS_DEVICE_DOES_NOT_EXIST = 0xC00000C0"
definition STATUS_NOT_FOUND :: ntstatus where "STATUS_NOT_FOUND = 0xC0000225"
definition STATUS_ALREADY_INITIALIZED :: ntstatus where
  "STATUS_ALREADY_INITIALIZED = 0xC0000510"

lemmas status_defs =
  STATUS_SUCCESS_def STATUS_UNSUCCESSFUL_def STATUS_NOT_IMPLEMENTED_def
  STATUS_INVALID_PARAMETER_def STATUS_NO_MEMORY_def STATUS_OBJECT_NAME_NOT_FOUND_def
  STATUS_DEVICE_NOT_READY_def STATUS_DEVICE_DOES_NOT_EXIST_def STATUS_NOT_FOUND_def
  STATUS_ALREADY_INITIALIZED_def

lemma NT_SUCCESS_simps [simp, status_simps]:
  "NT_SUCCESS STATUS_SUCCESS"
  "\<not> NT_SUCCESS STATUS_UNSUCCESSFUL"
  "\<not> NT_SUCCESS STATUS_NOT_IMPLEMENTED"
  "\<not> NT_SUCCESS STATUS_INVALID_PARAMETER"
  "\<not> NT_SUCCESS STATUS_NO_MEMORY"
  "\<not> NT_SUCCESS STATUS_OBJECT_NAME_NOT_FOUND"
  "\<not> NT_SUCCESS STATUS_DEVICE_NOT_READY"
  "\<not> NT_SUCCESS STATUS_DEVICE_DOES_NOT_EXIST"
  "\<not> NT_SUCCESS STATUS_NOT_FOUND"
  "\<not> NT_SUCCESS STATUS_ALREADY_INITIALIZED"
  by (simp_all add: NT_SUCCESS_def status_defs word_sle_eq)

section \<open>Options\<close>

lemma bind_Some_conv [run_simps]:
  "Option.bind x f = Some y \<longleftrightarrow> (\<exists>a. x = Some a \<and> f a = Some y)"
  by (cases x) auto

lemma bind_neq_None_conv [run_simps]:
  "Option.bind x f \<noteq> None \<longleftrightarrow> (\<exists>a. x = Some a \<and> f a \<noteq> None)"
  by (cases x) auto

section \<open>Runners of traces\<close>

text \<open>
  A handler leaves a list of events.  A discipline (of handles, mutexes, pool blocks) is a
  function that runs such a list on a state and is \<open>None\<close> where an event breaks it.  The
  disciplines of this development look at one event after the other, and so they compose.
\<close>

locale trace_runner =
  fixes run :: "'e list \<Rightarrow> 's \<Rightarrow> 's option"
  assumes run_Nil: "run [] s = Some s"
    and run_Cons: "run (e # es) s = Option.bind (run [e] s) (run es)"
begin

lemma run_append: "run (a @ b) s = Option.bind (run a s) (run b)"
proof (induction a arbitrary: s)
  case (Cons e a)
  show ?case
    by (cases "run [e] s") (simp_all add: run_Cons [of e "a @ b"] run_Cons [of e a] Cons.IH)
qed (simp add: run_Nil)

lemma run_through: "run a s = Some t \<Longrightarrow> run (a @ b) s = run b t"
  by (simp add: run_append)

lemma run_stuck: "run a s = None \<Longrightarrow> run (a @ b) s = None"
  by (simp add: run_append)

lemma run_repeated: "(\<forall>es \<in> set ess. run es s = Some s) \<Longrightarrow> run (concat ess) s = Some s"
  by (induction ess) (simp_all add: run_Nil run_append)

end

section \<open>Words\<close>

lemma unat_of_nat_small: "n < 2 ^ LENGTH('w) \<Longrightarrow> unat (of_nat n :: 'w::len word) = n"
  by (simp add: unat_of_nat)

lemma unat_add_no_wrap:
  fixes a b :: "'w::len word"
  assumes "unat a + unat b < 2 ^ LENGTH('w)"
  shows "unat (a + b) = unat a + unat b"
  using assms by (simp add: unat_word_ariths)

lemma unat_ucast_le:
  fixes a :: "'a::len word"
  assumes "LENGTH('a) \<le> LENGTH('b::len)"
  shows "unat (ucast a :: 'b word) = unat a"
  using assms by (simp add: unsigned_ucast_eq take_bit_nat_eq_self
    less_le_trans [OF unsigned_less [where 'a = nat] power_increasing])

end
