(* ===== verification/Klist.thy ===== *)
theory Klist
  imports Prelude
begin

text \<open>
  The intrusive doubly linked list of \<open>PawnIO/klist.h\<close>, on an explicit heap of
  \<open>LIST_ENTRY\<close> links: every operation is pointer surgery, and the proofs are about the
  sequence of nodes the links describe (\<open>ring\<close>).

  The list primitives of the Windows kernel headers (\<open>InitializeListHead\<close>,
  \<open>InsertHeadList\<close>, \<open>RemoveEntryList\<close>, \<open>IsListEmpty\<close>) are parameters, the record
  \<open>list_prims\<close>, with their documented behaviour as the hypothesis \<open>prims_ok\<close>.  The pool
  allocator is a parameter of each insertion: the node it returns, or null.
\<close>

section \<open>Heap\<close>

record ('p, 'v) lheap =
  flink :: "'p \<Rightarrow> 'p"
  blink :: "'p \<Rightarrow> 'p"
  node_value :: "'p \<Rightarrow> 'v option"

record ('p, 'v) list_prims =
  init_list_head :: "'p \<Rightarrow> ('p, 'v) lheap \<Rightarrow> ('p, 'v) lheap"
  insert_head_list :: "'p \<Rightarrow> 'p \<Rightarrow> ('p, 'v) lheap \<Rightarrow> ('p, 'v) lheap option"
  remove_entry_list :: "'p \<Rightarrow> ('p, 'v) lheap \<Rightarrow> ('p, 'v) lheap option"
  is_list_empty :: "'p \<Rightarrow> ('p, 'v) lheap \<Rightarrow> bool"

text \<open>
  The documented behaviour.  Insertion and removal are only specified where the links next to
  the entry are consistent; the kernel stops the machine otherwise.
\<close>

definition prims_ok :: "('p, 'v) list_prims \<Rightarrow> bool" where
  "prims_ok w \<longleftrightarrow>
    (\<forall>l h. init_list_head w l h = h\<lparr>flink := (flink h)(l := l), blink := (blink h)(l := l)\<rparr>)
    \<and> (\<forall>l e h. blink h (flink h l) = l \<longrightarrow>
         insert_head_list w l e h =
           Some (h\<lparr>flink := (flink h)(e := flink h l, l := e),
                   blink := (blink h)(e := l, flink h l := e)\<rparr>))
    \<and> (\<forall>e h. blink h (flink h e) = e \<longrightarrow> flink h (blink h e) = e \<longrightarrow>
         remove_entry_list w e h =
           Some (h\<lparr>flink := (flink h)(blink h e := flink h e),
                   blink := (blink h)(flink h e := blink h e)\<rparr>))
    \<and> (\<forall>l h. is_list_empty w l h \<longleftrightarrow> flink h l = l)"

section \<open>Operations\<close>

text \<open>An iterator is the entry it points to; \<open>end()\<close> is the head.\<close>

definition klist_construct :: "('p, 'v) list_prims \<Rightarrow> 'p \<Rightarrow> ('p, 'v) lheap \<Rightarrow> ('p, 'v) lheap" where
  "klist_construct w head h = h\<lparr>flink := (flink h)(head := head), blink := (blink h)(head := head)\<rparr>"

definition klist_begin :: "'p \<Rightarrow> ('p, 'v) lheap \<Rightarrow> 'p" where
  "klist_begin head h = flink h head"

definition klist_empty :: "('p, 'v) list_prims \<Rightarrow> 'p \<Rightarrow> ('p, 'v) lheap \<Rightarrow> bool" where
  "klist_empty w head h = is_list_empty w head h"

text \<open>
  \<open>insert\<close> and \<open>emplace\<close>: the value is constructed in the new node, which goes before
  \<open>pos\<close>.  Without memory the iterator \<open>end()\<close> comes back.
\<close>

definition klist_emplace ::
  "('p, 'v) list_prims \<Rightarrow> 'p \<Rightarrow> 'p \<Rightarrow> 'v \<Rightarrow> 'p option \<Rightarrow> ('p, 'v) lheap \<Rightarrow> ('p \<times> ('p, 'v) lheap) option"
where
  "klist_emplace w head pos v node h =
    (case node of
       None \<Rightarrow> Some (head, h)
     | Some n \<Rightarrow>
         let h1 = h\<lparr>node_value := (node_value h)(n := Some v)\<rparr>
         in do { h2 \<leftarrow> insert_head_list w (blink h1 pos) n h1; Some (n, h2) })"

definition klist_emplace_front ::
  "('p, 'v) list_prims \<Rightarrow> 'p \<Rightarrow> 'v \<Rightarrow> 'p option \<Rightarrow> ('p, 'v) lheap \<Rightarrow> ('p \<times> ('p, 'v) lheap) option"
where
  "klist_emplace_front w head v node h = klist_emplace w head (klist_begin head h) v node h"

definition klist_push_back ::
  "('p, 'v) list_prims \<Rightarrow> 'p \<Rightarrow> 'v \<Rightarrow> 'p option \<Rightarrow> ('p, 'v) lheap \<Rightarrow> ('p \<times> ('p, 'v) lheap) option"
where
  "klist_push_back w head v node h = klist_emplace w head head v node h"

definition klist_push_front ::
  "('p, 'v) list_prims \<Rightarrow> 'p \<Rightarrow> 'v \<Rightarrow> 'p option \<Rightarrow> ('p, 'v) lheap \<Rightarrow> ('p \<times> ('p, 'v) lheap) option"
where
  "klist_push_front w head v node h = klist_emplace w head (klist_begin head h) v node h"

text \<open>\<open>erase\<close>: unlink, destroy the value, free the node; the iterator after it comes back.\<close>

definition klist_erase ::
  "('p, 'v) list_prims \<Rightarrow> 'p \<Rightarrow> ('p, 'v) lheap \<Rightarrow> ('p \<times> ('p, 'v) lheap) option"
where
  "klist_erase w pos h =
    (let nxt = flink h pos
     in do {
       h1 \<leftarrow> remove_entry_list w pos h;
       if node_value h1 pos = None then None
       else Some (nxt, h1\<lparr>node_value := (node_value h1)(pos := None)\<rparr>) })"

partial_function (option) klist_erase_range ::
  "('p, 'v) list_prims \<Rightarrow> 'p \<Rightarrow> 'p \<Rightarrow> ('p, 'v) lheap \<Rightarrow> ('p \<times> ('p, 'v) lheap) option"
where
  "klist_erase_range w first stop h =
    (if first = stop then Some (stop, h)
     else Option.bind (klist_erase w first h) (\<lambda>(f, h'). klist_erase_range w f stop h'))"

partial_function (option) klist_clear ::
  "('p, 'v) list_prims \<Rightarrow> 'p \<Rightarrow> ('p, 'v) lheap \<Rightarrow> ('p, 'v) lheap option"
where
  "klist_clear w head h =
    (if klist_empty w head h then Some h
     else Option.bind (klist_erase w (klist_begin head h) h) (\<lambda>(_, h'). klist_clear w head h'))"

text \<open>
  A range-based \<open>for\<close> over the list, from the iterator \<open>it\<close> on: the values it visits.
  \<open>operator*\<close> stops the machine on \<open>end()\<close>.
\<close>

partial_function (option) klist_walk ::
  "'p \<Rightarrow> 'p \<Rightarrow> ('p, 'v) lheap \<Rightarrow> 'v list option"
where
  "klist_walk head it h =
    (if it = head then Some []
     else Option.bind (node_value h it) (\<lambda>v.
       Option.bind (klist_walk head (flink h it) h) (\<lambda>vs. Some (v # vs))))"

definition klist_values :: "'p \<Rightarrow> ('p, 'v) lheap \<Rightarrow> 'v list option" where
  "klist_values head h = klist_walk head (klist_begin head h) h"

text \<open>
  Taking over the nodes of another list: the head is copied, its neighbours are redirected,
  the other head is reset.  This is the body of the move operations and of \<open>swap\<close> with an
  empty list.
\<close>

definition klist_take_over ::
  "('p, 'v) list_prims \<Rightarrow> 'p \<Rightarrow> 'p \<Rightarrow> ('p, 'v) lheap \<Rightarrow> ('p, 'v) lheap"
where
  "klist_take_over w head other h =
    (let h1 = h\<lparr>flink := (flink h)(head := flink h other), blink := (blink h)(head := blink h other)\<rparr>;
         h2 = h1\<lparr>blink := (blink h1)(flink h1 head := head)\<rparr>;
         h3 = h2\<lparr>flink := (flink h2)(blink h2 head := head)\<rparr>
     in init_list_head w other h3)"

definition klist_move_construct ::
  "('p, 'v) list_prims \<Rightarrow> 'p \<Rightarrow> 'p \<Rightarrow> ('p, 'v) lheap \<Rightarrow> ('p, 'v) lheap"
where
  "klist_move_construct w head other h =
    (let h1 = init_list_head w head h
     in if klist_empty w other h1 then h1 else klist_take_over w head other h1)"

definition klist_move_assign ::
  "('p, 'v) list_prims \<Rightarrow> 'p \<Rightarrow> 'p \<Rightarrow> ('p, 'v) lheap \<Rightarrow> ('p, 'v) lheap option"
where
  "klist_move_assign w head other h =
    (if head = other then Some h
     else do {
       h1 \<leftarrow> klist_clear w head h;
       Some (if klist_empty w other h1 then h1 else klist_take_over w head other h1) })"

definition klist_swap ::
  "('p, 'v) list_prims \<Rightarrow> 'p \<Rightarrow> 'p \<Rightarrow> ('p, 'v) lheap \<Rightarrow> ('p, 'v) lheap"
where
  "klist_swap w head other h =
    (if head = other then h
     else if \<not> klist_empty w head h \<and> \<not> klist_empty w other h
     then let f1 = flink h head; b1 = blink h head; f2 = flink h other; b2 = blink h other;
              h1 = h\<lparr>flink := (flink h)(head := f2, other := f1),
                     blink := (blink h)(head := b2, other := b1)\<rparr>;
              h2 = h1\<lparr>blink := (blink h1)(flink h1 head := head)\<rparr>;
              h3 = h2\<lparr>flink := (flink h2)(blink h2 head := head)\<rparr>;
              h4 = h3\<lparr>blink := (blink h3)(flink h3 other := other)\<rparr>
          in h4\<lparr>flink := (flink h4)(blink h4 other := other)\<rparr>
     else if klist_empty w head h \<and> \<not> klist_empty w other h
     then klist_take_over w head other h
     else if \<not> klist_empty w head h \<and> klist_empty w other h
     then klist_take_over w other head h
     else h)"

section \<open>The sequence a heap describes\<close>

text \<open>\<open>path h a es b\<close>: from \<open>a\<close> the links lead through \<open>es\<close> to \<open>b\<close>, and back.\<close>

fun path :: "('p, 'v) lheap \<Rightarrow> 'p \<Rightarrow> 'p list \<Rightarrow> 'p \<Rightarrow> bool" where
  "path h a [] b \<longleftrightarrow> flink h a = b \<and> blink h b = a"
| "path h a (e # es) b \<longleftrightarrow> flink h a = e \<and> blink h e = a \<and> path h e es b"

text \<open>A well-formed list: the nodes \<open>es\<close> in a ring with \<open>head\<close>, all with a value.\<close>

definition ring :: "'p \<Rightarrow> ('p, 'v) lheap \<Rightarrow> 'p list \<Rightarrow> bool" where
  "ring head h es \<longleftrightarrow> distinct (head # es) \<and> path h head es head \<and> (\<forall>e \<in> set es. node_value h e \<noteq> None)"

lemma path_append: "path h a (xs @ y # ys) b \<longleftrightarrow> path h a xs y \<and> path h y ys b"
  by (induction xs arbitrary: a) auto

lemma path_cong:
  assumes "path h a es b" and "\<forall>x \<in> set (a # es). flink h' x = flink h x"
    and "\<forall>x \<in> set (b # es). blink h' x = blink h x"
  shows "path h' a es b"
  using assms by (induction es arbitrary: a) auto

text \<open>Inserting \<open>n\<close> between \<open>p\<close> and its successor, and unlinking \<open>e\<close>.\<close>

lemma path_first: "path h a es b \<Longrightarrow> flink h a = hd (es @ [b])"
  by (cases es) auto

lemma path_last: "path h a es b \<Longrightarrow> blink h b = last (a # es)"
  by (induction es arbitrary: a) auto

lemma neighbours_distinct:
  assumes "distinct (a # x # xs @ ys)" and "distinct (x # xs @ ys @ [b])"
  shows "a \<noteq> last (x # xs)" and "x \<noteq> hd (ys @ [b])"
proof -
  have "last (x # xs) \<in> set (x # xs)" by (rule last_in_set) simp
  then show "a \<noteq> last (x # xs)" using assms(1) by auto
  have "hd (ys @ [b]) \<in> set (ys @ [b])" by (rule hd_in_set) simp
  then show "x \<noteq> hd (ys @ [b])" using assms(2) by auto
qed

lemma path_insert:
  assumes "path h a (xs @ ys) b" and "distinct (a # xs @ ys)" and "distinct (xs @ ys @ [b])"
    and "n \<notin> set (a # b # xs @ ys)"
    and "flink h' = (flink h)(n := hd (ys @ [b]), last (a # xs) := n)"
    and "blink h' = (blink h)(n := last (a # xs), hd (ys @ [b]) := n)"
  shows "path h' a (xs @ n # ys) b"
  using assms
proof (induction xs arbitrary: a)
  case Nil
  have n: "n \<noteq> a" "n \<noteq> b" "n \<notin> set ys" using Nil.prems(4) by auto
  show ?case
  proof (cases ys)
    case Nil
    then show ?thesis using Nil.prems(5,6) n by simp
  next
    case (Cons y zs)
    have d: "y \<notin> set zs" "a \<noteq> y" "y \<noteq> b" "a \<notin> set zs" "b \<notin> set zs" using Nil.prems(2,3) Cons by auto
    have "path h y zs b" using Nil.prems(1) Cons by simp
    then have "path h' y zs b"
      by (rule path_cong) (use Nil.prems(5,6) Cons d n in auto)
    then show ?thesis using Nil.prems(5,6) n Cons d by simp
  qed
next
  case (Cons x xs)
  note nd = neighbours_distinct [OF Cons.prems(2,3) [simplified append_Cons]]
  have n: "n \<noteq> a" "n \<noteq> x" using Cons.prems(4) by auto
  have "path h' x (xs @ n # ys) b" using Cons.prems by (intro Cons.IH) simp_all
  moreover have "flink h' a = x"
    using Cons.prems(1) nd n unfolding Cons.prems(5) by simp
  moreover have "blink h' x = a"
    using Cons.prems(1) nd n unfolding Cons.prems(6) by simp
  ultimately show ?case by simp
qed

lemma path_remove:
  assumes "path h a (xs @ e # ys) b" and "distinct (a # xs @ e # ys)" and "distinct (xs @ e # ys @ [b])"
    and "flink h' = (flink h)(last (a # xs) := hd (ys @ [b]))"
    and "blink h' = (blink h)(hd (ys @ [b]) := last (a # xs))"
  shows "path h' a (xs @ ys) b"
  using assms
proof (induction xs arbitrary: a)
  case Nil
  show ?case
  proof (cases ys)
    case Nil
    then show ?thesis using Nil.prems by simp
  next
    case (Cons y zs)
    have d: "y \<notin> set zs" "a \<noteq> y" "y \<noteq> b" "a \<notin> set zs" "b \<notin> set zs" using Nil.prems(2,3) Cons by auto
    have "path h y zs b" using Nil.prems(1) Cons by simp
    then have "path h' y zs b"
      by (rule path_cong) (use Nil.prems(4,5) Cons d in auto)
    then show ?thesis using Nil.prems(4,5) Cons d by simp
  qed
next
  case (Cons x xs)
  have d: "distinct (a # x # xs @ ys)" "distinct (x # xs @ ys @ [b])" using Cons.prems(2,3) by auto
  note nd = neighbours_distinct [OF d]
  have "path h' x (xs @ ys) b" using Cons.prems by (intro Cons.IH) simp_all
  moreover have "flink h' a = x" using Cons.prems(1) nd unfolding Cons.prems(4) by simp
  moreover have "blink h' x = a" using Cons.prems(1) nd unfolding Cons.prems(5) by simp
  ultimately show ?case by simp
qed

section \<open>The operations on sequences\<close>

lemma prims_okD:
  assumes "prims_ok w"
  shows "init_list_head w l h = h\<lparr>flink := (flink h)(l := l), blink := (blink h)(l := l)\<rparr>"
    and "blink h (flink h l) = l \<Longrightarrow> insert_head_list w l e h =
      Some (h\<lparr>flink := (flink h)(e := flink h l, l := e), blink := (blink h)(e := l, flink h l := e)\<rparr>)"
    and "blink h (flink h e) = e \<Longrightarrow> flink h (blink h e) = e \<Longrightarrow> remove_entry_list w e h =
      Some (h\<lparr>flink := (flink h)(blink h e := flink h e), blink := (blink h)(flink h e := blink h e)\<rparr>)"
    and "is_list_empty w l h \<longleftrightarrow> flink h l = l"
  using assms unfolding prims_ok_def by blast+

lemma path_before: "path h a es b \<Longrightarrow> flink h (last (a # es)) = b"
  by (induction es arbitrary: a) auto

lemma path_ends:
  assumes "path h a (xs @ ys) b"
  shows "blink h (hd (ys @ [b])) = last (a # xs)" and "flink h (last (a # xs)) = hd (ys @ [b])"
proof -
  have "path h a xs (hd (ys @ [b]))" using assms by (cases ys) (auto simp: path_append)
  then show "blink h (hd (ys @ [b])) = last (a # xs)" "flink h (last (a # xs)) = hd (ys @ [b])"
    by (rule path_last, rule path_before)
qed

lemma klist_emplace_ring:
  assumes w: "prims_ok w" and r: "ring head h (xs @ ys)" and n: "n \<notin> set (head # xs @ ys)"
    and pos: "pos = hd (ys @ [head])"
  shows "\<exists>h'. klist_emplace w head pos v (Some n) h = Some (n, h') \<and> ring head h' (xs @ n # ys)
    \<and> node_value h' = (node_value h)(n := Some v)
    \<and> (\<forall>x. x \<notin> set (head # xs @ n # ys) \<longrightarrow> flink h' x = flink h x \<and> blink h' x = blink h x)"
proof -
  let ?h1 = "h\<lparr>node_value := (node_value h)(n := Some v)\<rparr>" and ?p = "last (head # xs)"
  have pa: "path h head (xs @ ys) head" and d: "distinct (head # xs @ ys)"
    and vals: "\<forall>e \<in> set (xs @ ys). node_value h e \<noteq> None"
    using r by (auto simp: ring_def)
  note ends = path_ends [OF pa]
  let ?h2 = "?h1\<lparr>flink := (flink h)(n := pos, ?p := n), blink := (blink h)(n := ?p, pos := n)\<rparr>"
  have ins: "insert_head_list w ?p n ?h1 = Some ?h2"
    using prims_okD(2) [OF w, of ?h1 ?p n] ends pos by simp
  have e: "klist_emplace w head pos v (Some n) h = Some (n, ?h2)"
    using ins ends(1) pos by (simp add: klist_emplace_def Let_def)
  have pp: "?p \<in> set (head # xs)" by (rule last_in_set) simp
  have qq: "pos \<in> set (ys @ [head])" unfolding pos by (rule hd_in_set) simp
  have "path ?h2 head (xs @ n # ys) head"
    using d n unfolding pos by (intro path_insert [OF pa]) auto
  then have "ring head ?h2 (xs @ n # ys)" using d n vals by (auto simp: ring_def)
  moreover have "\<forall>x. x \<notin> set (head # xs @ n # ys) \<longrightarrow> flink ?h2 x = flink h x \<and> blink ?h2 x = blink h x"
    using pp qq by auto
  ultimately show ?thesis using e by (intro exI [of _ ?h2]) simp
qed

lemma klist_erase_ring:
  assumes w: "prims_ok w" and r: "ring head h (xs @ e # ys)"
  shows "\<exists>h'. klist_erase w e h = Some (hd (ys @ [head]), h') \<and> ring head h' (xs @ ys)
    \<and> node_value h' = (node_value h)(e := None)
    \<and> (\<forall>x. x \<notin> set (head # xs @ e # ys) \<longrightarrow> flink h' x = flink h x \<and> blink h' x = blink h x)"
proof -
  have pa: "path h head (xs @ e # ys) head" and d: "distinct (head # xs @ e # ys)"
    and vals: "\<forall>x \<in> set (xs @ e # ys). node_value h x \<noteq> None"
    using r by (auto simp: ring_def)
  let ?p = "last (head # xs)" and ?q = "hd (ys @ [head])"
  have b: "blink h e = ?p" "flink h ?p = e" using path_ends [of h head xs "e # ys" head] pa by simp_all
  have f: "flink h e = ?q" "blink h ?q = e"
    using path_ends [of h head "xs @ [e]" ys head] pa by simp_all
  let ?h1 = "h\<lparr>flink := (flink h)(?p := ?q), blink := (blink h)(?q := ?p)\<rparr>"
  have rm: "remove_entry_list w e h = Some ?h1"
    using prims_okD(3) [OF w, of h e] b f by simp
  let ?h2 = "?h1\<lparr>node_value := (node_value h)(e := None)\<rparr>"
  have e: "klist_erase w e h = Some (?q, ?h2)"
    using rm vals f by (simp add: klist_erase_def Let_def)
  have "path ?h2 head (xs @ ys) head"
    using d by (intro path_remove [OF pa]) auto
  then have "ring head ?h2 (xs @ ys)" using d vals by (auto simp: ring_def)
  moreover have "?p \<in> set (head # xs)" by (rule last_in_set) simp
  moreover have "?q \<in> set (ys @ [head])" by (rule hd_in_set) simp
  ultimately show ?thesis using e by (intro exI [of _ ?h2]) auto
qed

lemma klist_construct_ring: "ring head (klist_construct w head h) []"
  by (simp add: klist_construct_def ring_def)

lemma klist_empty_ring:
  assumes "prims_ok w" and "ring head h es"
  shows "klist_empty w head h \<longleftrightarrow> es = []"
  using assms(2) unfolding klist_empty_def prims_okD(4) [OF assms(1)]
  by (cases es) (auto simp: ring_def)

lemma ring_begin: "ring head h es \<Longrightarrow> klist_begin head h = hd (es @ [head])"
  using path_first by (fastforce simp: ring_def klist_begin_def)

text \<open>A list is untouched by changes outside its nodes.\<close>

lemma ring_frame:
  assumes "ring head h es"
    and "\<forall>x \<in> set (head # es). flink h' x = flink h x \<and> blink h' x = blink h x"
    and "\<forall>x \<in> set es. node_value h' x = node_value h x"
  shows "ring head h' es"
proof -
  have p: "path h head es head" using assms(1) by (simp add: ring_def)
  have "path h' head es head" by (rule path_cong [OF p]) (use assms(2) in simp_all)
  then show ?thesis using assms(1,3) unfolding ring_def by simp
qed

definition values_of :: "('p, 'v) lheap \<Rightarrow> 'p list \<Rightarrow> 'v list" where
  "values_of h es = map (\<lambda>e. the (node_value h e)) es"

lemma klist_walk_path:
  assumes "path h a es head" and "head \<notin> set es" and "\<forall>e \<in> set es. node_value h e \<noteq> None"
  shows "klist_walk head (hd (es @ [head])) h = Some (values_of h es)"
  using assms
proof (induction es arbitrary: a)
  case Nil
  then show ?case by (subst klist_walk.simps) (simp add: values_of_def)
next
  case (Cons e es)
  obtain v where v: "node_value h e = Some v" using Cons.prems(3) by auto
  have p: "path h e es head" using Cons.prems(1) by simp
  have "klist_walk head (hd (es @ [head])) h = Some (values_of h es)"
    using Cons.prems by (intro Cons.IH [OF p]) simp_all
  then show ?case
    using Cons.prems(2) v path_first [OF p] by (subst klist_walk.simps) (auto simp: values_of_def)
qed

lemma klist_values_ring: "ring head h es \<Longrightarrow> klist_values head h = Some (values_of h es)"
  using klist_walk_path [of h head es head] ring_begin [of head h es]
  by (simp add: klist_values_def ring_def)

text \<open>
  on a well-formed list, \<open>emplace\<close> before any position puts the new value exactly there,
  in the links of both directions, keeps the list well-formed and touches no other node; with
  no memory it changes nothing and returns \<open>end()\<close>.
\<close>

theorem klist_emplace_correct:
  assumes "prims_ok w" and "ring head h (xs @ ys)" and "pos = hd (ys @ [head])"
    and "case node of None \<Rightarrow> True | Some n \<Rightarrow> n \<notin> set (head # xs @ ys)"
  shows "case node of
      None \<Rightarrow> klist_emplace w head pos v node h = Some (head, h)
    | Some n \<Rightarrow> \<exists>h'. klist_emplace w head pos v node h = Some (n, h') \<and> ring head h' (xs @ n # ys)
        \<and> klist_values head h' = Some (values_of h xs @ v # values_of h ys)
        \<and> (\<forall>x. x \<notin> set (head # xs @ n # ys) \<longrightarrow> flink h' x = flink h x \<and> blink h' x = blink h x)"
proof (cases node)
  case None
  then show ?thesis by (simp add: klist_emplace_def)
next
  case (Some n)
  then have n: "n \<notin> set (head # xs @ ys)" using assms(4) by simp
  obtain h' where h': "klist_emplace w head pos v (Some n) h = Some (n, h')" "ring head h' (xs @ n # ys)"
    "node_value h' = (node_value h)(n := Some v)"
    "\<forall>x. x \<notin> set (head # xs @ n # ys) \<longrightarrow> flink h' x = flink h x \<and> blink h' x = blink h x"
    using klist_emplace_ring [OF assms(1,2) n assms(3)] by blast
  have "values_of h' (xs @ n # ys) = values_of h xs @ v # values_of h ys"
    using n by (auto simp: values_of_def h'(3))
  then show ?thesis
    using h' klist_values_ring [OF h'(2)] by (auto simp: Some)
qed

text \<open>
  \<open>erase\<close> of any node removes exactly its value, keeps the list well-formed, frees the
  node, returns the node after it and touches no node of another list.
\<close>

theorem klist_erase_correct:
  assumes "prims_ok w" and "ring head h (xs @ e # ys)"
  shows "\<exists>h'. klist_erase w e h = Some (hd (ys @ [head]), h') \<and> ring head h' (xs @ ys)
    \<and> klist_values head h' = Some (values_of h xs @ values_of h ys) \<and> node_value h' e = None
    \<and> (\<forall>x. x \<notin> set (head # xs @ e # ys) \<longrightarrow> flink h' x = flink h x \<and> blink h' x = blink h x)"
proof -
  obtain h' where h': "klist_erase w e h = Some (hd (ys @ [head]), h')" "ring head h' (xs @ ys)"
    "node_value h' = (node_value h)(e := None)"
    "\<forall>x. x \<notin> set (head # xs @ e # ys) \<longrightarrow> flink h' x = flink h x \<and> blink h' x = blink h x"
    using klist_erase_ring [OF assms] by blast
  have "e \<notin> set (xs @ ys)" using assms(2) by (auto simp: ring_def)
  then have "values_of h' (xs @ ys) = values_of h xs @ values_of h ys"
    by (auto simp: values_of_def h'(3))
  then show ?thesis using h' klist_values_ring [OF h'(2)] by auto
qed

lemma klist_erase_range_ring:
  assumes "prims_ok w" and "ring head h (xs @ ms @ ys)"
  shows "\<exists>h'. klist_erase_range w (hd (ms @ ys @ [head])) (hd (ys @ [head])) h = Some (hd (ys @ [head]), h')
    \<and> ring head h' (xs @ ys)
    \<and> node_value h' = (\<lambda>x. if x \<in> set ms then None else node_value h x)
    \<and> (\<forall>x. x \<notin> set (head # xs @ ms @ ys) \<longrightarrow> flink h' x = flink h x \<and> blink h' x = blink h x)"
  using assms(2)
proof (induction ms arbitrary: h)
  case Nil
  then show ?case by (subst klist_erase_range.simps) auto
next
  case (Cons m ms)
  have "m \<noteq> hd (ys @ [head])"
    using Cons.prems by (cases ys) (auto simp: ring_def)
  obtain h1 where h1: "klist_erase w m h = Some (hd ((ms @ ys) @ [head]), h1)" "ring head h1 (xs @ ms @ ys)"
    "node_value h1 = (node_value h)(m := None)"
    "\<forall>x. x \<notin> set (head # xs @ m # ms @ ys) \<longrightarrow> flink h1 x = flink h x \<and> blink h1 x = blink h x"
    using klist_erase_ring [OF assms(1), of head h xs m "ms @ ys"] Cons.prems by auto
  obtain h' where h': "klist_erase_range w (hd (ms @ ys @ [head])) (hd (ys @ [head])) h1 = Some (hd (ys @ [head]), h')"
    "ring head h' (xs @ ys)" "node_value h' = (\<lambda>x. if x \<in> set ms then None else node_value h1 x)"
    "\<forall>x. x \<notin> set (head # xs @ ms @ ys) \<longrightarrow> flink h' x = flink h1 x \<and> blink h' x = blink h1 x"
    using Cons.IH [OF h1(2)] by blast
  have "klist_erase_range w (hd ((m # ms) @ ys @ [head])) (hd (ys @ [head])) h = Some (hd (ys @ [head]), h')"
    using \<open>m \<noteq> hd (ys @ [head])\<close> h1(1) h'(1) by (subst klist_erase_range.simps) simp
  moreover have "node_value h' = (\<lambda>x. if x \<in> set (m # ms) then None else node_value h x)"
    by (auto simp: h'(3) h1(3))
  ultimately show ?case using h'(2,4) h1(4) by (intro exI [of _ h']) auto
qed

text \<open>The destructor and \<open>clear\<close> terminate on every well-formed list and free every node.\<close>

lemma klist_clear_ring:
  assumes "prims_ok w" and "ring head h es"
  shows "\<exists>h'. klist_clear w head h = Some h' \<and> ring head h' []
    \<and> node_value h' = (\<lambda>x. if x \<in> set es then None else node_value h x)
    \<and> (\<forall>x. x \<notin> set (head # es) \<longrightarrow> flink h' x = flink h x \<and> blink h' x = blink h x)"
  using assms(2)
proof (induction es arbitrary: h)
  case Nil
  then show ?case
    using klist_empty_ring [OF assms(1) Nil] by (subst klist_clear.simps) auto
next
  case (Cons e es)
  obtain h1 where h1: "klist_erase w e h = Some (hd (es @ [head]), h1)" "ring head h1 es"
    "node_value h1 = (node_value h)(e := None)"
    "\<forall>x. x \<notin> set (head # e # es) \<longrightarrow> flink h1 x = flink h x \<and> blink h1 x = blink h x"
    using klist_erase_ring [OF assms(1), of head h "[]" e es] Cons.prems by auto
  obtain h' where h': "klist_clear w head h1 = Some h'" "ring head h' []"
    "node_value h' = (\<lambda>x. if x \<in> set es then None else node_value h1 x)"
    "\<forall>x. x \<notin> set (head # es) \<longrightarrow> flink h' x = flink h1 x \<and> blink h' x = blink h1 x"
    using Cons.IH [OF h1(2)] by blast
  have "klist_clear w head h = Some h'"
    using klist_empty_ring [OF assms(1) Cons.prems] ring_begin [OF Cons.prems] h1(1) h'(1)
    by (subst klist_clear.simps) simp
  moreover have "node_value h' = (\<lambda>x. if x \<in> set (e # es) then None else node_value h x)"
    by (auto simp: h'(3) h1(3))
  ultimately show ?case using h'(2,4) h1(4) by (intro exI [of _ h']) auto
qed

section \<open>Moving and swapping lists\<close>

lemma path_retarget:
  assumes "path h a xs b" and "distinct (a # xs)"
    and "\<forall>x \<in> set (butlast (a # xs)). flink h' x = flink h x" and "flink h' (last (a # xs)) = b'"
    and "\<forall>x \<in> set xs. blink h' x = blink h x" and "blink h' b' = last (a # xs)"
  shows "path h' a xs b'"
  using assms by (induction xs arbitrary: a) auto

text \<open>The nodes of \<open>other\<close> hung on \<open>head\<close>: what the pointers of both heads become.\<close>

lemma ring_rehead:
  assumes r: "ring other h es" and ne: "es \<noteq> []" and hd: "head \<notin> set es"
    and f: "flink h' head = hd es" "flink h' (last es) = head"
      "\<forall>x \<in> set (butlast es). flink h' x = flink h x"
    and b: "blink h' (hd es) = head" "blink h' head = last es"
      "\<forall>x \<in> set (tl es). blink h' x = blink h x"
    and v: "node_value h' = node_value h"
  shows "ring head h' es"
proof -
  obtain e xs where es: "es = e # xs" using ne by (cases es) auto
  have p: "path h e xs other" and d: "distinct (e # xs)" using r es by (auto simp: ring_def)
  have "path h' e xs head"
    using f b by (intro path_retarget [OF p d]) (simp_all add: es)
  then show ?thesis using r hd f(1) b(1) v by (auto simp: ring_def es)
qed

lemma ring_ends:
  assumes "ring head h es" and "es \<noteq> []"
  shows "flink h head = hd es" "blink h head = last es"
  using assms path_first [of h head es head] path_last [of h head es head] by (auto simp: ring_def)

lemma distinct_ends:
  assumes "distinct es" and "es \<noteq> []"
  shows "hd es \<notin> set (tl es)" and "last es \<notin> set (butlast es)"
proof -
  show "hd es \<notin> set (tl es)" using assms by (cases es) auto
  have "distinct (butlast es @ [last es])" using assms by simp
  then show "last es \<notin> set (butlast es)" by (simp only: distinct_append) simp
qed

lemma klist_take_over_ring:
  assumes w: "prims_ok w" and r: "ring other h es" and ne: "es \<noteq> []" and hd: "head \<notin> set (other # es)"
  shows "ring head (klist_take_over w head other h) es" and "ring other (klist_take_over w head other h) []"
    and "node_value (klist_take_over w head other h) = node_value h"
proof -
  let ?h' = "klist_take_over w head other h"
  have ot: "other \<notin> set es" "distinct es" using r by (auto simp: ring_def)
  note ends = ring_ends [OF r ne]
  have mem: "hd es \<in> set es" "last es \<in> set es" using ne by simp_all
  have tl: "x \<in> set (tl es) \<Longrightarrow> x \<in> set es" for x by (cases es) auto
  note nb = distinct_ends [OF ot(2) ne]
  show "ring head ?h' es"
    using hd ot mem nb ends
    by (intro ring_rehead [OF r ne])
      (auto simp: klist_take_over_def Let_def prims_okD(1) [OF w] dest: in_set_butlastD tl)
  show "ring other ?h' []"
    by (simp add: ring_def klist_take_over_def Let_def prims_okD(1) [OF w])
  show "node_value ?h' = node_value h"
    by (simp add: klist_take_over_def Let_def prims_okD(1) [OF w])
qed

lemma klist_swap_links:
  assumes "\<not> klist_empty w head h" and "\<not> klist_empty w other h" and "head \<noteq> other"
    and "flink h head = a" "blink h head = z" "flink h other = a'" "blink h other = z'"
    and "head \<notin> {a, z, a', z'}" "other \<notin> {a, z, a', z'}" "a \<noteq> a'" "z \<noteq> z'"
  shows "flink (klist_swap w head other h) = (flink h)(head := a', other := a, z' := head, z := other)"
    and "blink (klist_swap w head other h) = (blink h)(head := z', other := z, a' := head, a := other)"
    and "node_value (klist_swap w head other h) = node_value h"
  using assms by (simp_all add: klist_swap_def Let_def)

text \<open>One of the two lists after the links are exchanged.\<close>

lemma ring_exchanged:
  assumes r: "ring other h es" and ne: "es \<noteq> []" and hd: "head \<notin> set (other # es)"
    and dj: "a \<notin> set es" "z \<notin> set es" "head \<noteq> a" "head \<noteq> z"
    and f: "flink g = (flink h)(head := hd es, other := a, last es := head, z := other)"
    and b: "blink g = (blink h)(head := last es, other := z, hd es := head, a := other)"
    and v: "node_value g = node_value h"
  shows "ring head g es"
proof (rule ring_rehead [OF r ne _ _ _ _ _ _ _ v])
  have d: "distinct es" "other \<notin> set es" using r by (auto simp: ring_def)
  have mem: "hd es \<in> set es" "last es \<in> set es" using ne by simp_all
  have ends: "z \<noteq> last es" "a \<noteq> hd es" "head \<noteq> last es" "head \<noteq> hd es" "other \<noteq> last es" "other \<noteq> hd es" "head \<noteq> other"
    using dj hd d mem by auto
  show "head \<notin> set es" using hd by simp
  show "flink g head = hd es" "flink g (last es) = head" "blink g (hd es) = head" "blink g head = last es"
    using ends dj(3,4) by (simp_all add: f b)
  have inner: "x \<noteq> head \<and> x \<noteq> other \<and> x \<noteq> a \<and> x \<noteq> z" if "x \<in> set es" for x
    using that hd dj d by auto
  show "\<forall>x \<in> set (butlast es). flink g x = flink h x"
  proof
    fix x assume x: "x \<in> set (butlast es)"
    then have "x \<noteq> last es" using distinct_ends(2) [OF d(1) ne] by auto
    then show "flink g x = flink h x" using inner [OF in_set_butlastD [OF x]] by (simp add: f)
  qed
  show "\<forall>x \<in> set (tl es). blink g x = blink h x"
  proof
    fix x assume x: "x \<in> set (tl es)"
    then have "x \<noteq> hd es" using distinct_ends(1) [OF d(1) ne] by auto
    then show "blink g x = blink h x" using inner [OF list.set_sel(2) [OF ne x]] by (simp add: b)
  qed
qed

lemma klist_swap_both:
  assumes w: "prims_ok w" and r: "ring head h es" "ring other h es'"
    and ne: "es \<noteq> []" "es' \<noteq> []" and dj: "set (head # es) \<inter> set (other # es') = {}"
  shows "ring head (klist_swap w head other h) es'" and "ring other (klist_swap w head other h) es"
    and "node_value (klist_swap w head other h) = node_value h"
proof -
  let ?g = "klist_swap w head other h"
  have nem: "\<not> klist_empty w head h" "\<not> klist_empty w other h"
    using klist_empty_ring [OF w r(1)] klist_empty_ring [OF w r(2)] ne by simp_all
  have mem: "hd es \<in> set es" "last es \<in> set es" "hd es' \<in> set es'" "last es' \<in> set es'" using ne by simp_all
  have own: "head \<notin> set es" "other \<notin> set es'" using r by (auto simp: ring_def)
  have x: "head \<noteq> other" "head \<notin> {hd es, last es, hd es', last es'}" "other \<notin> {hd es, last es, hd es', last es'}"
    "hd es \<noteq> hd es'" "last es \<noteq> last es'" "hd es \<notin> set es'" "last es \<notin> set es'" "hd es' \<notin> set es" "last es' \<notin> set es"
    using dj mem own by auto
  note links = klist_swap_links [OF nem x(1) ring_ends [OF r(1) ne(1)] ring_ends [OF r(2) ne(2)] x(2-5)]
  show "node_value ?g = node_value h" by (rule links(3))
  have head': "head \<notin> set (other # es')" "other \<notin> set (head # es)" using dj own by auto
  show "ring head ?g es'"
    using x by (intro ring_exchanged [OF r(2) ne(2) head'(1) _ _ _ _ links]) simp_all
  have "flink ?g = (flink h)(other := hd es, head := hd es', last es := other, last es' := head)"
    and "blink ?g = (blink h)(other := last es, head := last es', hd es := other, hd es' := head)"
    using links(1,2) x by (auto simp: fun_upd_twist)
  then show "ring other ?g es"
    using x by (intro ring_exchanged [OF r(1) ne(1) head'(2) _ _ _ _ _ _ links(3)]) simp_all
qed

text \<open>
  \<open>swap\<close> exchanges the contents of two well-formed lists in all four cases of empty and
  non-empty lists, and both stay well-formed.
\<close>

theorem klist_swap_correct:
  assumes w: "prims_ok w" and r: "ring head h es" "ring other h es'"
    and dj: "set (head # es) \<inter> set (other # es') = {}"
  shows "ring head (klist_swap w head other h) es' \<and> ring other (klist_swap w head other h) es
    \<and> klist_values head (klist_swap w head other h) = klist_values other h
    \<and> klist_values other (klist_swap w head other h) = klist_values head h"
proof -
  let ?h' = "klist_swap w head other h"
  have x: "head \<noteq> other" "head \<notin> set (other # es')" "other \<notin> set (head # es)" using dj by auto
  note e = klist_empty_ring [OF w r(1)] klist_empty_ring [OF w r(2)]
  have "ring head ?h' es' \<and> ring other ?h' es \<and> node_value ?h' = node_value h"
  proof (cases "es = []"; cases "es' = []")
    assume "es \<noteq> []" "es' \<noteq> []"
    then show ?thesis using klist_swap_both [OF w r _ _ dj] by simp
  next
    assume n: "es = []" "es' \<noteq> []"
    then show ?thesis
      using klist_take_over_ring [OF w r(2) n(2) x(2)] e x by (simp add: klist_swap_def)
  next
    assume n: "es \<noteq> []" "es' = []"
    then show ?thesis
      using klist_take_over_ring [OF w r(1) n(1) x(3)] e x by (simp add: klist_swap_def)
  next
    assume n: "es = []" "es' = []"
    then show ?thesis using r e x by (simp add: klist_swap_def)
  qed
  then show ?thesis using klist_values_ring r by (auto simp: values_of_def klist_values_ring)
qed

text \<open>The move operations: the list takes the nodes of the other one, which is left empty.\<close>

lemma klist_move_construct_ring:
  assumes w: "prims_ok w" and r: "ring other h es" and hd: "head \<notin> set (other # es)"
  shows "ring head (klist_move_construct w head other h) es"
    and "ring other (klist_move_construct w head other h) []"
proof -
  let ?h1 = "init_list_head w head h"
  have r1: "ring other ?h1 es"
    using hd by (intro ring_frame [OF r]) (auto simp: prims_okD(1) [OF w])
  have e: "klist_empty w other ?h1 \<longleftrightarrow> es = []" by (rule klist_empty_ring [OF w r1])
  show "ring head (klist_move_construct w head other h) es"
    using klist_take_over_ring(1) [OF w r1 _ hd] e
    by (auto simp: klist_move_construct_def Let_def ring_def prims_okD(1) [OF w])
  show "ring other (klist_move_construct w head other h) []"
    using klist_take_over_ring(2) [OF w r1 _ hd] e r1
    by (auto simp: klist_move_construct_def Let_def)
qed

lemma klist_move_assign_ring:
  assumes w: "prims_ok w" and r: "ring head h es" "ring other h es'"
    and dj: "set (head # es) \<inter> set (other # es') = {}"
  shows "\<exists>h'. klist_move_assign w head other h = Some h' \<and> ring head h' es' \<and> ring other h' []"
proof -
  obtain h1 where h1: "klist_clear w head h = Some h1" "ring head h1 []"
    "node_value h1 = (\<lambda>x. if x \<in> set es then None else node_value h x)"
    "\<forall>x. x \<notin> set (head # es) \<longrightarrow> flink h1 x = flink h x \<and> blink h1 x = blink h x"
    using klist_clear_ring [OF w r(1)] by blast
  have r1: "ring other h1 es'"
    using dj h1(3,4) by (intro ring_frame [OF r(2)]) auto
  have e: "klist_empty w other h1 \<longleftrightarrow> es' = []" by (rule klist_empty_ring [OF w r1])
  have hd: "head \<notin> set (other # es')" using dj by auto
  show ?thesis
  proof (cases "es' = []")
    case True
    then show ?thesis using h1 r1 e hd by (auto simp: klist_move_assign_def)
  next
    case False
    then show ?thesis
      using klist_take_over_ring [OF w r1 False hd] h1(1) e hd by (simp add: klist_move_assign_def)
  qed
qed

section \<open>A concrete instance\<close>

text \<open>The primitives as the documentation describes them, total, on addresses that are numbers.\<close>

definition doc_prims :: "('p, 'v) list_prims" where
  "doc_prims =
    \<lparr>init_list_head = (\<lambda>l h. h\<lparr>flink := (flink h)(l := l), blink := (blink h)(l := l)\<rparr>),
     insert_head_list = (\<lambda>l e h. Some (h\<lparr>flink := (flink h)(e := flink h l, l := e),
                   blink := (blink h)(e := l, flink h l := e)\<rparr>)),
     remove_entry_list = (\<lambda>e h. Some (h\<lparr>flink := (flink h)(blink h e := flink h e),
                   blink := (blink h)(flink h e := blink h e)\<rparr>)),
     is_list_empty = (\<lambda>l h. flink h l = l)\<rparr>"

lemma doc_prims_ok: "prims_ok doc_prims"
  by (simp add: prims_ok_def doc_prims_def)

definition sample_heap :: "(nat, nat) lheap" where
  "sample_heap =
    \<lparr>flink = (\<lambda>x. x)(0 := 1, 1 := 2, 2 := 0), blink = (\<lambda>x. x)(0 := 2, 1 := 0, 2 := 1),
     node_value = [1 \<mapsto> 10, 2 \<mapsto> 20]\<rparr>"

lemma sample_ring: "ring 0 sample_heap ([1] @ [2])" "ring 0 sample_heap ([] @ 1 # [2])" "ring 0 sample_heap [1, 2]"
  "ring 9 sample_heap []"
  by (simp_all add: ring_def sample_heap_def)

theorem klist_emplace_correct_witness:
  "\<exists>h'. klist_emplace doc_prims 0 2 15 (Some 5) sample_heap = Some (5, h')
     \<and> klist_values 0 h' = Some [10, 15, 20]"
  using klist_emplace_correct [OF doc_prims_ok sample_ring(1), where node = "Some 5" and pos = 2 and v = 15]
  by (auto simp: values_of_def sample_heap_def)

theorem klist_erase_correct_witness:
  "\<exists>h'. klist_erase doc_prims 1 sample_heap = Some (2, h') \<and> klist_values 0 h' = Some [20]"
  using klist_erase_correct [OF doc_prims_ok sample_ring(2)]
  by (auto simp: values_of_def sample_heap_def)

theorem klist_swap_correct_witness:
  "klist_values 9 (klist_swap doc_prims 0 9 sample_heap) = Some [10, 20]"
  using klist_swap_correct [OF doc_prims_ok sample_ring(3,4)] klist_values_ring [OF sample_ring(3)]
  by (simp add: values_of_def sample_heap_def)

end
