(* ===== verification/Callbacks.thy ===== *)
theory Callbacks
  imports Klist
begin

text \<open>
  The notification lists of \<open>PawnIO/callbacks.cpp\<close>: four lists of callbacks (\<open>callback_list\<close>
  on \<open>klist\<close>), registration and removal by cookie, and the notifications.  All lists live in
  one heap.

  Locks, calls of callbacks and the life of the \<open>ERESOURCE\<close>s are recorded as events, in
  order.  What a callback does is a parameter: \<open>call\<close> maps a callback and the state of the
  system to its status and the new state.
\<close>

section \<open>One list\<close>

datatype ('cb, 'k) cb_event =
    LockExclusive 'k
  | LockShared 'k
  | Unlock 'k
  | Called 'cb
  | InitResource 'k
  | DeleteResource 'k

text \<open>The head of a list and the name its events carry.\<close>

record ('p, 'k) callback_list =
  list_head :: 'p
  list_name :: 'k

text \<open>\<open>init\<close>: the status is that of \<open>ExInitializeResourceLite\<close>, a parameter.\<close>

definition cl_init ::
  "('p, 'cb) list_prims \<Rightarrow> ('p, 'k) callback_list \<Rightarrow> ntstatus \<Rightarrow> ('p, 'cb) lheap \<Rightarrow>
   ntstatus \<times> ('p, 'cb) lheap \<times> ('cb, 'k) cb_event list"
where
  "cl_init w c res_status h =
    (res_status, klist_construct w (list_head c) h,
     if NT_SUCCESS res_status then [InitResource (list_name c)] else [])"

definition cl_destroy ::
  "('p, 'cb) list_prims \<Rightarrow> ('p, 'k) callback_list \<Rightarrow> ('p, 'cb) lheap \<Rightarrow>
   (('p, 'cb) lheap \<times> ('cb, 'k) cb_event list) option"
where
  "cl_destroy w c h = do {
     h' \<leftarrow> klist_clear w (list_head c) h;
     Some (h', [DeleteResource (list_name c)]) }"

text \<open>\<open>add\<close>: the cookie is the entry, null when there was no memory.\<close>

definition cl_add ::
  "('p, 'cb) list_prims \<Rightarrow> ('p, 'k) callback_list \<Rightarrow> 'cb \<Rightarrow> 'p option \<Rightarrow> ('p, 'cb) lheap \<Rightarrow>
   ('p option \<times> ('p, 'cb) lheap \<times> ('cb, 'k) cb_event list) option"
where
  "cl_add w c cb node h = do {
     (it, h') \<leftarrow> klist_emplace_front w (list_head c) cb node h;
     Some (if it = list_head c then None else Some it, h',
       [LockExclusive (list_name c), Unlock (list_name c)]) }"

definition cl_remove ::
  "('p, 'cb) list_prims \<Rightarrow> ('p, 'k) callback_list \<Rightarrow> 'p option \<Rightarrow> ('p, 'cb) lheap \<Rightarrow>
   (('p, 'cb) lheap \<times> ('cb, 'k) cb_event list) option"
where
  "cl_remove w c cookie h =
    (case cookie of
       None \<Rightarrow> Some (h, [])
     | Some e \<Rightarrow> do {
         (_, h') \<leftarrow> klist_erase w e h;
         Some (h', [LockExclusive (list_name c), Unlock (list_name c)]) })"

text \<open>The loops of \<open>call_status\<close> and \<open>call_void\<close>.\<close>

fun status_loop ::
  "('cb \<Rightarrow> 'x \<Rightarrow> ntstatus \<times> 'x) \<Rightarrow> 'cb list \<Rightarrow> ntstatus \<Rightarrow> 'x \<Rightarrow> ntstatus \<times> 'x \<times> ('cb, 'k) cb_event list"
where
  "status_loop call [] status x = (status, x, [])"
| "status_loop call (cb # cbs) status x =
     (let (status', x') = call cb x
      in if \<not> NT_SUCCESS status' then (status', x', [Called cb])
         else (let (st, x'', ev) = status_loop call cbs status' x' in (st, x'', Called cb # ev)))"

fun void_loop ::
  "('cb \<Rightarrow> 'x \<Rightarrow> ntstatus \<times> 'x) \<Rightarrow> 'cb list \<Rightarrow> 'x \<Rightarrow> 'x \<times> ('cb, 'k) cb_event list"
where
  "void_loop call [] x = (x, [])"
| "void_loop call (cb # cbs) x =
     (let (x', ev) = void_loop call cbs (snd (call cb x)) in (x', Called cb # ev))"

definition cl_call_status ::
  "('p, 'k) callback_list \<Rightarrow> ('cb \<Rightarrow> 'x \<Rightarrow> ntstatus \<times> 'x) \<Rightarrow> ('p, 'cb) lheap \<Rightarrow> 'x \<Rightarrow>
   (ntstatus \<times> 'x \<times> ('cb, 'k) cb_event list) option"
where
  "cl_call_status c call h x = do {
     cbs \<leftarrow> klist_values (list_head c) h;
     (let (st, x', ev) = status_loop call cbs STATUS_SUCCESS x
      in Some (st, x', LockShared (list_name c) # ev @ [Unlock (list_name c)])) }"

definition cl_call_void ::
  "('p, 'k) callback_list \<Rightarrow> ('cb \<Rightarrow> 'x \<Rightarrow> ntstatus \<times> 'x) \<Rightarrow> ('p, 'cb) lheap \<Rightarrow> 'x \<Rightarrow>
   ('x \<times> ('cb, 'k) cb_event list) option"
where
  "cl_call_void c call h x = do {
     cbs \<leftarrow> klist_values (list_head c) h;
     (let (x', ev) = void_loop call cbs x
      in Some (x', LockShared (list_name c) # ev @ [Unlock (list_name c)])) }"

section \<open>The four lists\<close>

datatype vm_event = Created | Precall | Postcall | Destroyed

text \<open>\<open>heads\<close>: where \<open>s_created\<close>, \<open>s_precall\<close>, \<open>s_postcall\<close>, \<open>s_destroyed\<close> are.\<close>

definition s_list :: "(vm_event \<Rightarrow> 'p) \<Rightarrow> vm_event \<Rightarrow> ('p, vm_event) callback_list" where
  "s_list heads k = \<lparr>list_head = heads k, list_name = k\<rparr>"

text \<open>
  \<open>vm_callback_init\<close>: the lists in order; when one fails, the ones before it are destroyed,
  the last first.
\<close>

definition vm_callback_init ::
  "('p, 'cb) list_prims \<Rightarrow> (vm_event \<Rightarrow> 'p) \<Rightarrow> (vm_event \<Rightarrow> ntstatus) \<Rightarrow> ('p, 'cb) lheap \<Rightarrow>
   (ntstatus \<times> ('p, 'cb) lheap \<times> ('cb, vm_event) cb_event list) option"
where
  "vm_callback_init w heads res h =
    (let (st1, h1, e1) = cl_init w (s_list heads Created) (res Created) h
     in if \<not> NT_SUCCESS st1 then Some (st1, h1, e1)
        else let (st2, h2, e2) = cl_init w (s_list heads Precall) (res Precall) h1
        in if \<not> NT_SUCCESS st2
           then do { (h', d1) \<leftarrow> cl_destroy w (s_list heads Created) h2; Some (st2, h', e1 @ e2 @ d1) }
        else let (st3, h3, e3) = cl_init w (s_list heads Postcall) (res Postcall) h2
        in if \<not> NT_SUCCESS st3
           then do {
             (h', d2) \<leftarrow> cl_destroy w (s_list heads Precall) h3;
             (h'', d1) \<leftarrow> cl_destroy w (s_list heads Created) h';
             Some (st3, h'', e1 @ e2 @ e3 @ d2 @ d1) }
        else let (st4, h4, e4) = cl_init w (s_list heads Destroyed) (res Destroyed) h3
        in if \<not> NT_SUCCESS st4
           then do {
             (h', d3) \<leftarrow> cl_destroy w (s_list heads Postcall) h4;
             (h'', d2) \<leftarrow> cl_destroy w (s_list heads Precall) h';
             (h''', d1) \<leftarrow> cl_destroy w (s_list heads Created) h'';
             Some (st4, h''', e1 @ e2 @ e3 @ e4 @ d3 @ d2 @ d1) }
        else Some (STATUS_SUCCESS, h4, e1 @ e2 @ e3 @ e4))"

definition vm_callback_destroy ::
  "('p, 'cb) list_prims \<Rightarrow> (vm_event \<Rightarrow> 'p) \<Rightarrow> ('p, 'cb) lheap \<Rightarrow>
   (('p, 'cb) lheap \<times> ('cb, vm_event) cb_event list) option"
where
  "vm_callback_destroy w heads h = do {
     (h1, d1) \<leftarrow> cl_destroy w (s_list heads Created) h;
     (h2, d2) \<leftarrow> cl_destroy w (s_list heads Precall) h1;
     (h3, d3) \<leftarrow> cl_destroy w (s_list heads Postcall) h2;
     (h4, d4) \<leftarrow> cl_destroy w (s_list heads Destroyed) h3;
     Some (h4, d1 @ d2 @ d3 @ d4) }"

text \<open>
  The notifications; \<open>call\<close> is the callback applied to the context and, for \<open>precall\<close>, the
  code address.
\<close>

definition vm_callback_created where
  "vm_callback_created heads call h x = cl_call_status (s_list heads Created) call h x"

definition vm_callback_precall where
  "vm_callback_precall heads call cip h x = cl_call_status (s_list heads Precall) (call cip) h x"

definition vm_callback_postcall where
  "vm_callback_postcall heads call h x = cl_call_void (s_list heads Postcall) call h x"

definition vm_callback_destroyed where
  "vm_callback_destroyed heads call h x = cl_call_void (s_list heads Destroyed) call h x"

text \<open>The exported registration functions, one pair per list.\<close>

definition pawnio_register where
  "pawnio_register w heads k cb node h = cl_add w (s_list heads k) cb node h"

definition pawnio_unregister where
  "pawnio_unregister w heads k cookie h = cl_remove w (s_list heads k) cookie h"

section \<open>The contract of a list of registrations\<close>

text \<open>
  What the notifications rely on: a store that holds a sequence of entries with values, where
  adding puts a new entry first, removing takes one entry out, and a walk yields the values in
  order.
\<close>

locale registry =
  fixes holds :: "'s \<Rightarrow> 'e list \<Rightarrow> bool"
    and val :: "'s \<Rightarrow> 'e \<Rightarrow> 'v"
    and reserved :: 'e
    and add :: "'v \<Rightarrow> 'e option \<Rightarrow> 's \<Rightarrow> ('e option \<times> 's) option"
    and remove :: "'e \<Rightarrow> 's \<Rightarrow> 's option"
    and walk :: "'s \<Rightarrow> 'v list option"
  assumes add_null: "holds s es \<Longrightarrow> add v None s = Some (None, s)"
    and add_node: "holds s es \<Longrightarrow> n \<notin> set (reserved # es) \<Longrightarrow>
      \<exists>s'. add v (Some n) s = Some (Some n, s') \<and> holds s' (n # es) \<and> val s' n = v
        \<and> (\<forall>e \<in> set es. val s' e = val s e)"
    and remove_entry: "holds s (xs @ e # ys) \<Longrightarrow>
      \<exists>s'. remove e s = Some s' \<and> holds s' (xs @ ys) \<and> (\<forall>x \<in> set (xs @ ys). val s' x = val s x)"
    and walk_values: "holds s es \<Longrightarrow> walk s = Some (map (val s) es)"
    and entries_distinct: "holds s es \<Longrightarrow> distinct es"
begin

definition table :: "'s \<Rightarrow> 'e list \<Rightarrow> ('e \<times> 'v) list" where
  "table s es = map (\<lambda>e. (e, val s e)) es"

lemma walk_table: "holds s es \<Longrightarrow> walk s = Some (map snd (table s es))"
  using walk_values by (simp add: table_def comp_def)

lemma add_table:
  assumes "holds s es" and "n \<notin> set (reserved # es)"
  shows "\<exists>s'. add v (Some n) s = Some (Some n, s') \<and> holds s' (n # es)
    \<and> table s' (n # es) = (n, v) # table s es"
  using add_node [OF assms, of v] by (auto simp: table_def)

lemma remove_table:
  assumes h: "holds s es" and e: "e \<in> set es"
  shows "\<exists>s'. remove e s = Some s' \<and> holds s' (remove1 e es)
    \<and> table s' (remove1 e es) = filter (\<lambda>p. fst p \<noteq> e) (table s es)"
proof -
  obtain xs ys where es: "es = xs @ e # ys" using split_list [OF e] by blast
  have d: "distinct es" using h by (rule entries_distinct)
  have r: "remove1 e es = xs @ ys" using d by (simp add: es remove1_append)
  obtain s' where s': "remove e s = Some s'" "holds s' (xs @ ys)" "\<forall>x \<in> set (xs @ ys). val s' x = val s x"
    using remove_entry h es by blast
  have "table s' (xs @ ys) = filter (\<lambda>p. fst p \<noteq> e) (table s es)"
  proof -
    have "filter (\<lambda>x. x \<noteq> e) xs = xs" "filter (\<lambda>x. x \<noteq> e) ys = ys"
      using d by (auto simp: es intro!: filter_True)
    then show ?thesis using s'(3) by (simp add: table_def es filter_map comp_def)
  qed
  then show ?thesis using s' r by auto
qed

end

section \<open>klist keeps the contract\<close>

text \<open>\<open>cl_add\<close>, \<open>cl_remove\<close> and the walk of a list, without their lock events.\<close>

definition reg_add ::
  "('p, 'cb) list_prims \<Rightarrow> 'p \<Rightarrow> 'cb \<Rightarrow> 'p option \<Rightarrow> ('p, 'cb) lheap \<Rightarrow> ('p option \<times> ('p, 'cb) lheap) option"
where
  "reg_add w head cb node h =
    map_option (\<lambda>(it, h'). (if it = head then None else Some it, h'))
      (klist_emplace_front w head cb node h)"

definition reg_remove :: "('p, 'cb) list_prims \<Rightarrow> 'p \<Rightarrow> ('p, 'cb) lheap \<Rightarrow> ('p, 'cb) lheap option" where
  "reg_remove w e h = map_option snd (klist_erase w e h)"

lemma cl_add_reg:
  "cl_add w c cb node h = map_option (\<lambda>(cookie, h').
     (cookie, h', [LockExclusive (list_name c), Unlock (list_name c)])) (reg_add w (list_head c) cb node h)"
  by (auto simp: cl_add_def reg_add_def split: prod.splits intro: option.exhaust
      [of "klist_emplace_front w (list_head c) cb node h"])

lemma cl_remove_reg:
  "cl_remove w c (Some e) h = map_option (\<lambda>h'.
     (h', [LockExclusive (list_name c), Unlock (list_name c)])) (reg_remove w e h)"
  by (cases "klist_erase w e h") (auto simp: cl_remove_def reg_remove_def)

interpretation reg: registry
  "\<lambda>h es. prims_ok w \<and> ring head h es" "\<lambda>h e. the (node_value h e)" head
  "reg_add w head" "reg_remove w" "klist_values head"
  for w :: "('p, 'cb) list_prims" and head :: 'p
proof (unfold_locales, goal_cases)
  case (1 s es v)
  then show ?case by (simp add: reg_add_def klist_emplace_front_def klist_emplace_def)
next
  case (2 s es n v)
  have b: "klist_begin head s = hd (es @ [head])" using 2 ring_begin [of head s es] by simp
  obtain h' where h': "klist_emplace w head (klist_begin head s) v (Some n) s = Some (n, h')"
    "ring head h' (n # es)" "node_value h' = (node_value s)(n := Some v)"
    using klist_emplace_ring [of w head s "[]" es n "klist_begin head s" v] 2 b by auto
  have "n \<noteq> head" "n \<notin> set es" using 2 by auto
  then show ?case
    using 2 h' by (auto simp: reg_add_def klist_emplace_front_def)
next
  case (3 s xs e ys)
  obtain h' where h': "klist_erase w e s = Some (hd (ys @ [head]), h')" "ring head h' (xs @ ys)"
    "node_value h' = (node_value s)(e := None)"
    using klist_erase_ring [of w head s xs e ys] 3 by blast
  have "e \<notin> set (xs @ ys)" using 3 by (auto simp: ring_def)
  then show ?case using 3 h' by (auto simp: reg_remove_def)
next
  case (4 s es)
  then show ?case using klist_values_ring [of head s es] by (simp add: values_of_def)
next
  case (5 s es)
  then show ?case by (simp add: ring_def)
qed

section \<open>Registrations\<close>

text \<open>A registration with the node the allocator gives, or a removal.\<close>

datatype ('p, 'cb) reg_op = Register 'cb "'p option" | Unregister "'p option"

fun run_regs ::
  "('p, 'cb) list_prims \<Rightarrow> ('p, 'k) callback_list \<Rightarrow> ('p, 'cb) reg_op list \<Rightarrow> ('p, 'cb) lheap \<Rightarrow>
   ('p, 'cb) lheap option"
where
  "run_regs w c [] h = Some h"
| "run_regs w c (Register cb node # ops) h =
     do { (_, h', _) \<leftarrow> cl_add w c cb node h; run_regs w c ops h' }"
| "run_regs w c (Unregister cookie # ops) h =
     do { (h', _) \<leftarrow> cl_remove w c cookie h; run_regs w c ops h' }"

text \<open>
  The abstract table: cookies and callbacks, the newest first.  An operation is allowed when
  the allocator gives a node that is not in use, and the cookie is in the table.
\<close>

fun reg_step :: "('p, 'cb) reg_op \<Rightarrow> ('p \<times> 'cb) list \<Rightarrow> ('p \<times> 'cb) list" where
  "reg_step (Register cb None) t = t"
| "reg_step (Register cb (Some n)) t = (n, cb) # t"
| "reg_step (Unregister None) t = t"
| "reg_step (Unregister (Some e)) t = filter (\<lambda>p. fst p \<noteq> e) t"

fun reg_allowed :: "'p \<Rightarrow> ('p, 'cb) reg_op \<Rightarrow> ('p \<times> 'cb) list \<Rightarrow> bool" where
  "reg_allowed head (Register cb (Some n)) t \<longleftrightarrow> n \<notin> set (head # map fst t)"
| "reg_allowed head (Unregister (Some e)) t \<longleftrightarrow> e \<in> fst ` set t"
| "reg_allowed head _ t \<longleftrightarrow> True"

fun regs_allowed :: "'p \<Rightarrow> ('p, 'cb) reg_op list \<Rightarrow> ('p \<times> 'cb) list \<Rightarrow> bool" where
  "regs_allowed head [] t \<longleftrightarrow> True"
| "regs_allowed head (a # ops) t \<longleftrightarrow> reg_allowed head a t \<and> regs_allowed head ops (reg_step a t)"

lemma reg_table_fst: "map fst (reg.table h es) = es"
  by (simp add: reg.table_def comp_def)

lemma run_regs_ring:
  assumes w: "prims_ok w"
  shows "ring (list_head c) h es \<Longrightarrow> regs_allowed (list_head c) ops (reg.table h es) \<Longrightarrow>
    \<exists>h' es'. run_regs w c ops h = Some h' \<and> ring (list_head c) h' es'
      \<and> reg.table h' es' = fold reg_step ops (reg.table h es)"
proof (induction ops arbitrary: h es)
  case Nil
  then show ?case by auto
next
  case (Cons a ops)
  let ?hd = "list_head c"
  have holds: "prims_ok w \<and> ring ?hd h es" using w Cons.prems(1) by simp
  have step: "\<exists>h1 es1. run_regs w c (a # ops) h = run_regs w c ops h1 \<and> ring ?hd h1 es1
      \<and> reg.table h1 es1 = reg_step a (reg.table h es)"
  proof (cases a)
    case (Register cb node)
    show ?thesis
    proof (cases node)
      case None
      then show ?thesis
        using reg.add_null [OF holds, of cb] Cons.prems(1) by (auto simp: Register cl_add_reg)
    next
      case (Some n)
      have "n \<notin> set (?hd # es)" using Cons.prems(2) by (simp add: Register Some reg_table_fst)
      from reg.add_table [OF holds this, of cb] show ?thesis
        by (auto simp: Register Some cl_add_reg)
    qed
  next
    case (Unregister cookie)
    show ?thesis
    proof (cases cookie)
      case None
      then show ?thesis using Cons.prems(1) by (auto simp: Unregister cl_remove_def)
    next
      case (Some e)
      have "e \<in> fst ` set (reg.table h es)" using Cons.prems(2) by (simp add: Unregister Some)
      then have "e \<in> set es" by (metis list.set_map reg_table_fst)
      from reg.remove_table [OF holds this] show ?thesis
        by (auto simp: Unregister Some cl_remove_reg)
    qed
  qed
  then obtain h1 es1 where h1: "run_regs w c (a # ops) h = run_regs w c ops h1" "ring ?hd h1 es1"
    "reg.table h1 es1 = reg_step a (reg.table h es)" by blast
  have "regs_allowed ?hd ops (reg.table h1 es1)" using Cons.prems(2) h1(3) by simp
  from Cons.IH [OF h1(2) this] show ?case using h1 by auto
qed



section \<open>Notifications\<close>

text \<open>The state of the system after the callbacks \<open>cbs\<close>, and whether all of them succeed.\<close>

definition after :: "('cb \<Rightarrow> 'x \<Rightarrow> ntstatus \<times> 'x) \<Rightarrow> 'cb list \<Rightarrow> 'x \<Rightarrow> 'x" where
  "after call cbs x = fold (\<lambda>cb x. snd (call cb x)) cbs x"

lemma after_simps [simp]:
  "after call [] x = x" "after call (cb # cbs) x = after call cbs (snd (call cb x))"
  by (simp_all add: after_def)

fun all_succeed :: "('cb \<Rightarrow> 'x \<Rightarrow> ntstatus \<times> 'x) \<Rightarrow> 'cb list \<Rightarrow> 'x \<Rightarrow> bool" where
  "all_succeed call [] x \<longleftrightarrow> True"
| "all_succeed call (cb # cbs) x \<longleftrightarrow>
     NT_SUCCESS (fst (call cb x)) \<and> all_succeed call cbs (snd (call cb x))"

lemma status_loop_all:
  "NT_SUCCESS status \<Longrightarrow> all_succeed call cbs x \<Longrightarrow>
   \<exists>st. NT_SUCCESS st \<and>
     (status_loop call cbs status x :: _ \<times> _ \<times> ('cb, 'k) cb_event list) = (st, after call cbs x, map Called cbs)"
proof (induction cbs arbitrary: status x)
  case Nil
  then show ?case by simp
next
  case (Cons cb cbs)
  obtain st x1 where c: "call cb x = (st, x1)" by (cases "call cb x")
  have "NT_SUCCESS st" "all_succeed call cbs x1" using Cons.prems by (simp_all add: c)
  from Cons.IH [OF this]  show ?case using \<open>NT_SUCCESS st\<close> by (auto simp: c)
qed

lemma status_loop_failing:
  "all_succeed call pre x \<Longrightarrow> \<not> NT_SUCCESS (fst (call cb (after call pre x))) \<Longrightarrow>
   (status_loop call (pre @ cb # post) status x :: _ \<times> _ \<times> ('cb, 'k) cb_event list) =
     (fst (call cb (after call pre x)), after call (pre @ [cb]) x, map Called (pre @ [cb]))"
proof (induction pre arbitrary: status x)
  case Nil
  then show ?case by (cases "call cb x") simp
next
  case (Cons a pre)
  obtain st x1 where c: "call a x = (st, x1)" by (cases "call a x")
  have "NT_SUCCESS st" "all_succeed call pre x1" "\<not> NT_SUCCESS (fst (call cb (after call pre x1)))"
    using Cons.prems by (simp_all add: c)
  from Cons.IH [OF this(2,3)] show ?case using \<open>NT_SUCCESS st\<close> by (simp add: c)
qed

lemma first_failure:
  "all_succeed call cbs x \<or> (\<exists>pre cb post. cbs = pre @ cb # post \<and> all_succeed call pre x
     \<and> \<not> NT_SUCCESS (fst (call cb (after call pre x))))"
proof (induction cbs arbitrary: x)
  case Nil
  then show ?case by simp
next
  case (Cons cb cbs)
  show ?case
  proof (cases "NT_SUCCESS (fst (call cb x))")
    case False
    then show ?thesis by (intro disjI2 exI [of _ "[]"] exI [of _ cb] exI [of _ cbs]) simp
  next
    case True
    from Cons.IH [of "snd (call cb x)"] show ?thesis
    proof (elim disjE exE conjE)
      fix pre b post
      assume "cbs = pre @ b # post" "all_succeed call pre (snd (call cb x))"
        "\<not> NT_SUCCESS (fst (call b (after call pre (snd (call cb x)))))"
      then show ?thesis
        using True by (intro disjI2 exI [of _ "cb # pre"] exI [of _ b] exI [of _ post]) simp
    qed (use True in simp)
  qed
qed

lemma void_loop_result: "void_loop call cbs x = (after call cbs x, map Called cbs)"
  by (induction cbs arbitrary: x) auto

text \<open>
  a \<open>created\<close> or \<open>precall\<close> notification calls the callbacks of its list in order, holding
  the lock of the list shared.  Either all succeed and so does the notification, or it stops
  at the first one that fails and reports its status.
\<close>

theorem call_status_stops_at_failure:
  fixes c :: "('p, 'k) callback_list"
    and call :: "'cb \<Rightarrow> 'x \<Rightarrow> ntstatus \<times> 'x"
  assumes "klist_values (list_head c) h = Some cbs"
  shows "(all_succeed call cbs x \<and> (\<exists>st. NT_SUCCESS st \<and> cl_call_status c call h x =
        Some (st, after call cbs x, LockShared (list_name c) # map Called cbs @ [Unlock (list_name c)])))
    \<or> (\<exists>pre cb post. cbs = pre @ cb # post \<and> all_succeed call pre x
        \<and> \<not> NT_SUCCESS (fst (call cb (after call pre x)))
        \<and> cl_call_status c call h x = Some (fst (call cb (after call pre x)), after call (pre @ [cb]) x,
            LockShared (list_name c) # map Called (pre @ [cb]) @ [Unlock (list_name c)]))"
  using first_failure [of call cbs x]
proof (elim disjE exE conjE)
  assume a: "all_succeed call cbs x"
  obtain st where "NT_SUCCESS st" "status_loop call cbs STATUS_SUCCESS x =
      (st, after call cbs x, map Called cbs :: ('cb, 'k) cb_event list)"
    using status_loop_all [OF _ a, of STATUS_SUCCESS] by auto
  then show ?thesis
    using a assms by (intro disjI1 conjI exI [of _ st]) (simp_all add: cl_call_status_def)
next
  fix pre cb post
  assume p: "cbs = pre @ cb # post" "all_succeed call pre x"
    "\<not> NT_SUCCESS (fst (call cb (after call pre x)))"
  have "status_loop call cbs STATUS_SUCCESS x = (fst (call cb (after call pre x)), after call (pre @ [cb]) x,
      map Called (pre @ [cb]) :: ('cb, 'k) cb_event list)"
    unfolding p(1) by (rule status_loop_failing [OF p(2,3)])
  then have "cl_call_status c call h x = Some (fst (call cb (after call pre x)), after call (pre @ [cb]) x,
      LockShared (list_name c) # map Called (pre @ [cb]) @ [Unlock (list_name c)])"
    using assms by (simp add: cl_call_status_def)
  with p show ?thesis by blast
qed

text \<open>Two callbacks in the sample list; the second one fails.\<close>

theorem call_status_stops_at_failure_witness:
  "cl_call_status \<lparr>list_head = 0 :: nat, list_name = Precall\<rparr>
      (\<lambda>cb x. (if cb = (20 :: nat) then STATUS_NO_MEMORY else STATUS_SUCCESS, x @ [cb])) sample_heap [] =
    Some (STATUS_NO_MEMORY, [10, 20], [LockShared Precall, Called 10, Called 20, Unlock Precall])"
proof -
  let ?call = "\<lambda>cb x. (if cb = (20 :: nat) then STATUS_NO_MEMORY else STATUS_SUCCESS, x @ [cb])"
  let ?c = "\<lparr>list_head = 0 :: nat, list_name = Precall\<rparr>"
  have v: "klist_values (list_head ?c) sample_heap = Some [10, 20]"
    using klist_values_ring [OF sample_ring(3)] by (simp add: values_of_def sample_heap_def)
  have ne: "STATUS_NO_MEMORY \<noteq> STATUS_SUCCESS" by (simp add: status_defs)
  from call_status_stops_at_failure [OF v, of ?call "[]"] show ?thesis
    by (elim disjE exE conjE) (auto simp: Cons_eq_append_conv append_eq_Cons_conv)
qed

section \<open>Start and stop of the driver's lists\<close>

text \<open>The resources that are initialised and not deleted, the newest first.\<close>

fun live_resources :: "('cb, 'k) cb_event list \<Rightarrow> 'k list \<Rightarrow> 'k list" where
  "live_resources [] ks = ks"
| "live_resources (InitResource k # evs) ks = live_resources evs (k # ks)"
| "live_resources (DeleteResource k # evs) ks = live_resources evs (remove1 k ks)"
| "live_resources (_ # evs) ks = live_resources evs ks"

lemma cl_init_empty:
  assumes "cl_init w c st h = (st', h', ev)"
  shows "st' = st" and "ev = (if NT_SUCCESS st then [InitResource (list_name c)] else [])"
    and "ring (list_head c) h' []"
    and "\<And>l. l \<noteq> list_head c \<Longrightarrow> ring l h [] \<Longrightarrow> ring l h' []"
proof -
  show "ring l h' []" if l: "l \<noteq> list_head c" "ring l h []" for l
  proof (rule ring_frame [OF l(2)])
    show "\<forall>x \<in> set [l]. flink h' x = flink h x \<and> blink h' x = blink h x"
      using assms l(1) by (auto simp: cl_init_def klist_construct_def)
  qed simp
qed (use assms klist_construct_ring [of "list_head c" w h] in \<open>auto simp: cl_init_def\<close>)

lemma cl_destroy_ring:
  assumes "prims_ok w" and "ring (list_head c) h es"
  shows "\<exists>h'. cl_destroy w c h = Some (h', [DeleteResource (list_name c)])
    \<and> (\<forall>l fs. l \<notin> set (list_head c # es) \<longrightarrow> set fs \<inter> set (list_head c # es) = {} \<longrightarrow> ring l h fs \<longrightarrow> ring l h' fs)"
proof -
  obtain h' where h': "klist_clear w (list_head c) h = Some h'"
    "node_value h' = (\<lambda>x. if x \<in> set es then None else node_value h x)"
    "\<forall>x. x \<notin> set (list_head c # es) \<longrightarrow> flink h' x = flink h x \<and> blink h' x = blink h x"
    using klist_clear_ring [OF assms] by blast
  have "ring l h' fs"
    if l: "l \<notin> set (list_head c # es)" and d: "set fs \<inter> set (list_head c # es) = {}" and r: "ring l h fs" for l fs
  proof -
    have "x \<notin> set (list_head c # es)" if "x \<in> set (l # fs)" for x
      using l d that by auto
    then have "\<forall>x \<in> set (l # fs). flink h' x = flink h x \<and> blink h' x = blink h x"
      "\<forall>x \<in> set fs. node_value h' x = node_value h x"
      using h'(2,3) by auto
    with r show ?thesis by (rule ring_frame)
  qed
  then show ?thesis using h'(1) by (auto simp: cl_destroy_def)
qed

lemma cl_destroy_empty:
  assumes "prims_ok w" and "ring (list_head c) h []"
  shows "\<exists>h'. cl_destroy w c h = Some (h', [DeleteResource (list_name c)])
    \<and> (\<forall>l. l \<noteq> list_head c \<longrightarrow> ring l h [] \<longrightarrow> ring l h' [])"
proof -
  obtain h' where h': "cl_destroy w c h = Some (h', [DeleteResource (list_name c)])"
    "\<forall>l fs. l \<notin> set [list_head c] \<longrightarrow> set fs \<inter> set [list_head c] = {} \<longrightarrow> ring l h fs \<longrightarrow> ring l h' fs"
    using cl_destroy_ring [OF assms] by blast
  have "ring l h' []" if "l \<noteq> list_head c" "ring l h []" for l
    using h'(2) [rule_format, of l "[]"] that by simp
  with h'(1) show ?thesis by blast
qed

lemma vm_callback_init_steps:
  assumes "prims_ok w" and "inj heads"
  shows "\<exists>st h' ev. vm_callback_init w heads res h = Some (st, h', ev)
    \<and> (if \<forall>k. NT_SUCCESS (res k)
       then st = STATUS_SUCCESS \<and> live_resources ev [] = [Destroyed, Postcall, Precall, Created]
         \<and> (\<forall>k. ring (heads k) h' [])
       else \<not> NT_SUCCESS st \<and> live_resources ev [] = [])"
proof -
  let ?c = "s_list heads"
  have hd: "list_head (?c k) = heads k" "list_name (?c k) = k" for k by (simp_all add: s_list_def)
  have ne: "heads k = heads k' \<longleftrightarrow> k = k'" for k k' using assms(2) by (auto simp: inj_def)
  obtain s1 h1 e1 where i1: "cl_init w (?c Created) (res Created) h = (s1, h1, e1)" by (metis prod_cases3)
  obtain s2 h2 e2 where i2: "cl_init w (?c Precall) (res Precall) h1 = (s2, h2, e2)" by (metis prod_cases3)
  obtain s3 h3 e3 where i3: "cl_init w (?c Postcall) (res Postcall) h2 = (s3, h3, e3)" by (metis prod_cases3)
  obtain s4 h4 e4 where i4: "cl_init w (?c Destroyed) (res Destroyed) h3 = (s4, h4, e4)" by (metis prod_cases3)
  note f1 = cl_init_empty [OF i1, unfolded hd] and f2 = cl_init_empty [OF i2, unfolded hd]
    and f3 = cl_init_empty [OF i3, unfolded hd] and f4 = cl_init_empty [OF i4, unfolded hd]
  have r2: "ring (heads Created) h2 []" "ring (heads Precall) h2 []"
    using f1(3) f2(3,4) ne by simp_all
  have r3: "ring (heads Created) h3 []" "ring (heads Precall) h3 []" "ring (heads Postcall) h3 []"
    using r2 f3(3,4) ne by simp_all
  have r4: "ring (heads k) h4 []" for k
    using r3 f4(3,4) ne by (cases k) simp_all
  note all = i1 i2 i3 i4 f1(1,2) f2(1,2) f3(1,2) f4(1,2)
  obtain a1 where a1: "cl_destroy w (?c Created) h2 = Some (a1, [DeleteResource Created])"
    using cl_destroy_empty [of w "?c Created" h2] assms(1) r2 by (auto simp: hd)
  obtain b2 where b2: "cl_destroy w (?c Precall) h3 = Some (b2, [DeleteResource Precall])"
    "ring (heads Created) b2 []"
    using cl_destroy_empty [of w "?c Precall" h3] assms(1) r3 ne by (auto simp: hd)
  obtain b1 where b1: "cl_destroy w (?c Created) b2 = Some (b1, [DeleteResource Created])"
    using cl_destroy_empty [of w "?c Created" b2] assms(1) b2 by (auto simp: hd)
  obtain d3 where d3: "cl_destroy w (?c Postcall) h4 = Some (d3, [DeleteResource Postcall])"
    "ring (heads Created) d3 []" "ring (heads Precall) d3 []"
    using cl_destroy_empty [of w "?c Postcall" h4] assms(1) r4 ne by (auto simp: hd)
  obtain d2 where d2: "cl_destroy w (?c Precall) d3 = Some (d2, [DeleteResource Precall])"
    "ring (heads Created) d2 []"
    using cl_destroy_empty [of w "?c Precall" d3] assms(1) d3 ne by (auto simp: hd)
  obtain d1 where d1: "cl_destroy w (?c Created) d2 = Some (d1, [DeleteResource Created])"
    using cl_destroy_empty [of w "?c Created" d2] assms(1) d2 by (auto simp: hd)
  have ev: "(\<forall>k. NT_SUCCESS (res k)) \<longleftrightarrow> NT_SUCCESS (res Created) \<and> NT_SUCCESS (res Precall)
      \<and> NT_SUCCESS (res Postcall) \<and> NT_SUCCESS (res Destroyed)"
    by (metis vm_event.exhaust)
  show ?thesis
    unfolding ev vm_callback_init_def
    by (cases "NT_SUCCESS (res Created)"; cases "NT_SUCCESS (res Precall)";
        cases "NT_SUCCESS (res Postcall)"; cases "NT_SUCCESS (res Destroyed)")
      (simp_all add: all a1 b1 b2(1) d1 d2(1) d3(1) hd r4)
qed

text \<open>
  \<open>vm_callback_init\<close> always returns.  When it succeeds the four lists are empty and usable
  and hold their resources; when the resource of one of them cannot be initialised, the ones
  before it are given back and none is left.
\<close>

theorem vm_callback_init_result:
  assumes "prims_ok w" and "inj heads"
  shows "\<exists>st h' ev. vm_callback_init w heads res h = Some (st, h', ev)
    \<and> (if \<forall>k. NT_SUCCESS (res k)
       then st = STATUS_SUCCESS \<and> live_resources ev [] = [Destroyed, Postcall, Precall, Created]
         \<and> (\<forall>k. ring (heads k) h' [])
       else \<not> NT_SUCCESS st \<and> live_resources ev [] = [])"
  by (rule vm_callback_init_steps [OF assms])

text \<open>The resource of the third list cannot be initialised: the first two are given back.\<close>

theorem vm_callback_init_result_witness:
  "\<exists>st h' ev. vm_callback_init doc_prims
      (case_vm_event (1 :: nat) 2 3 4)
      (\<lambda>k. if k = Postcall then STATUS_NO_MEMORY else STATUS_SUCCESS) sample_heap = Some (st, h', ev)
    \<and> \<not> NT_SUCCESS st \<and> live_resources ev [] = []"
proof -
  let ?heads = "case_vm_event (1 :: nat) 2 3 4"
  have "inj ?heads" by (auto simp: inj_def split: vm_event.splits)
  from vm_callback_init_result [OF doc_prims_ok this,
      of "\<lambda>k. if k = Postcall then STATUS_NO_MEMORY else STATUS_SUCCESS" sample_heap]
  show ?thesis by (auto split: if_splits)
qed

end
