(* ===== verification/Cbytes.thy ===== *)
theory Cbytes
  imports Prelude
begin

text \<open>
  Byte-level access of \<open>PawnIO/amx_loader.h\<close> (namespace \<open>amx::detail\<close>) and the
  C strings it relies on.  A buffer is the list of its bytes together with the address
  \<open>base\<close> of its first byte; a pointer into it is an address.  A read that leaves the
  buffer has no defined result.
\<close>

section \<open>Little-endian reads\<close>

fun le_nat :: "byte list \<Rightarrow> nat" where
  "le_nat [] = 0"
| "le_nat (b # bs) = unat b + 256 * le_nat bs"

lemma le_nat_bound: "le_nat bs < 256 ^ length bs"
proof (induction bs)
  case Nil
  then show ?case by simp
next
  case (Cons b bs)
  have "unat b < 256" using unsigned_less [of b, where ?'a = nat] by simp
  with Cons show ?case by simp
qed

lemma le_nat_append: "le_nat (xs @ ys) = le_nat xs + 256 ^ length xs * le_nat ys"
  by (induction xs) (auto simp: algebra_simps)

text \<open>
  \<open>byteswap\<close> exchanges byte \<open>i\<close> with byte \<open>sizeof - 1 - i\<close> for
  \<open>i < sizeof / 2\<close>, one \<open>std::swap\<close> per iteration; the value is its object
  representation, a list of bytes.
\<close>

definition swap_at :: "'a list \<Rightarrow> nat \<Rightarrow> nat \<Rightarrow> 'a list" where
  "swap_at xs i j = xs[i := xs ! j, j := xs ! i]"

fun byteswap_loop :: "nat \<Rightarrow> nat \<Rightarrow> byte list \<Rightarrow> byte list" where
  "byteswap_loop 0 i t = t"
| "byteswap_loop (Suc k) i t = byteswap_loop k (Suc i) (swap_at t i (length t - 1 - i))"

definition byteswap :: "byte list \<Rightarrow> byte list" where
  "byteswap t = byteswap_loop (length t div 2) 0 t"

text \<open>
  \<open>from_le\<close>: the driver is compiled with \<open>LITTLE_ENDIAN\<close> (\<open>stdafx.h\<close>), where
  it returns its argument; the other branch swaps the bytes.
\<close>

datatype endian = Little | Big

definition from_le :: "endian \<Rightarrow> byte list \<Rightarrow> byte list" where
  "from_le e t = (case e of Big \<Rightarrow> byteswap t | Little \<Rightarrow> t)"

text \<open>
  The value of an integer object with the bytes \<open>t\<close> on a machine of endianness
  \<open>e\<close>, and \<open>read_le<T>\<close>: copy \<open>sizeof(T)\<close> bytes from \<open>p\<close>, convert.
\<close>

definition object_value :: "endian \<Rightarrow> byte list \<Rightarrow> 't::len word" where
  "object_value e t = of_nat (le_nat (case e of Little \<Rightarrow> t | Big \<Rightarrow> rev t))"

definition load_bytes :: "byte list \<Rightarrow> 'w::len word \<Rightarrow> 'w word \<Rightarrow> nat \<Rightarrow> byte list option" where
  "load_bytes buf base p n =
     (let off = unat (p - base)
      in if off + n \<le> length buf then Some (take n (drop off buf)) else None)"

definition read_le_on :: "endian \<Rightarrow> byte list \<Rightarrow> 'w::len word \<Rightarrow> 'w word \<Rightarrow> 't::len word option" where
  "read_le_on e buf base p = do {
     t \<leftarrow> load_bytes buf base p (LENGTH('t) div 8);
     Some (object_value e (from_le e t)) }"

abbreviation read_le :: "byte list \<Rightarrow> 'w::len word \<Rightarrow> 'w word \<Rightarrow> 't::len word option" where
  "read_le \<equiv> read_le_on Little"

section \<open>The byte swap is the reversal of the object\<close>

lemma length_swap_at [simp]: "length (swap_at xs i j) = length xs"
  by (simp add: swap_at_def)

lemma length_byteswap_loop [simp]: "length (byteswap_loop k i t) = length t"
  by (induction k arbitrary: i t) auto

lemma nth_swap_at:
  "i < length xs \<Longrightarrow> j < length xs \<Longrightarrow> n < length xs \<Longrightarrow>
   swap_at xs i j ! n = (if n = j then xs ! i else if n = i then xs ! j else xs ! n)"
  by (auto simp: swap_at_def nth_list_update)

lemma byteswap_loop_nth:
  assumes "i + k \<le> length t div 2" and "n < length t"
  shows "byteswap_loop k i t ! n =
    (if (i \<le> n \<and> n < i + k) \<or> (i \<le> length t - 1 - n \<and> length t - 1 - n < i + k)
     then t ! (length t - 1 - n) else t ! n)"
  using assms
proof (induction k arbitrary: i t)
  case 0
  then show ?case by auto
next
  case (Suc k)
  let ?m = "length t - 1 - i"
  let ?u = "swap_at t i ?m"
  have im: "i < ?m" "?m < length t" "i < length t" using Suc.prems by auto
  let ?j = "length t - 1 - n"
  have inner: "byteswap_loop k (Suc i) ?u ! n =
    (if (Suc i \<le> n \<and> n < Suc i + k) \<or> (Suc i \<le> ?j \<and> ?j < Suc i + k) then ?u ! ?j else ?u ! n)"
    using Suc.IH [of "Suc i" ?u] Suc.prems by simp
  have u: "?u ! x = (if x = ?m then t ! i else if x = i then t ! ?m else t ! x)" if "x < length t" for x
    using im that by (simp add: nth_swap_at)
  consider (low) "n = i" | (high) "n = ?m" | (other) "n \<noteq> i" "n \<noteq> ?m" by blast
  then show ?case
  proof cases
    case low
    then have "?j = ?m" "\<not> (Suc i \<le> n)" "\<not> ?j < Suc i + k" using im Suc.prems(1) by linarith+
    then have "byteswap_loop k (Suc i) ?u ! n = t ! ?m"
      unfolding inner using low im u [of n] Suc.prems(2) by simp
    then show ?thesis using low by simp
  next
    case high
    then have "?j = i" "\<not> n < Suc i + k" using im Suc.prems(1) by linarith+
    then have "byteswap_loop k (Suc i) ?u ! n = t ! i"
      unfolding inner using high im u [of n] Suc.prems(2) by simp
    then show ?thesis using high im by simp
  next
    case other
    then have j: "?j \<noteq> i" "?j \<noteq> ?m" "?j < length t" using im Suc.prems(2) by linarith+
    have "(Suc i \<le> n \<and> n < Suc i + k) \<longleftrightarrow> (i \<le> n \<and> n < i + Suc k)"
      and "(Suc i \<le> ?j \<and> ?j < Suc i + k) \<longleftrightarrow> (i \<le> ?j \<and> ?j < i + Suc k)"
      using other(1) j(1) by linarith+
    then show ?thesis using other j Suc.prems(2) by (simp only: byteswap_loop.simps inner u if_False)
  qed
qed

lemma byteswap_eq_rev: "byteswap t = rev t"
proof (rule nth_equalityI)
  show "length (byteswap t) = length (rev t)" by (simp add: byteswap_def)
next
  fix n assume "n < length (byteswap t)"
  then have n: "n < length t" by (simp add: byteswap_def)
  have "byteswap t ! n = t ! (length t - 1 - n)"
  proof (cases "n < length t div 2 \<or> length t - 1 - n < length t div 2")
    case True
    with n show ?thesis by (simp add: byteswap_def byteswap_loop_nth)
  next
    case False
    with n have "length t - 1 - n = n" by linarith
    with n show ?thesis by (auto simp: byteswap_def byteswap_loop_nth)
  qed
  with n show "byteswap t ! n = rev t ! n" by (simp add: rev_nth)
qed

text \<open>
  \<open>read_le\<close> does not depend on the machine: reading an integer from a file with the
  byte swap of a big-endian build and without it on a little-endian build gives the same
  value, the little-endian value of the bytes read.
\<close>

theorem read_le_endian_independent:
  "(read_le_on Big buf base p :: 't::len word option) =
     (read_le_on Little buf base p :: 't word option)"
  by (simp add: read_le_on_def object_value_def from_le_def byteswap_eq_rev)

section \<open>Reads inside the buffer\<close>

lemma load_bytes_Some [run_simps]:
  "load_bytes buf base p n = Some bs \<longleftrightarrow>
     unat (p - base) + n \<le> length buf \<and> bs = take n (drop (unat (p - base)) buf)"
  by (auto simp: load_bytes_def Let_def)

lemma load_bytes_None:
  "load_bytes buf base p n = None \<longleftrightarrow> length buf < unat (p - base) + n"
  by (auto simp: load_bytes_def Let_def)

lemma read_le_None:
  "(read_le buf base p :: 't::len word option) = None \<longleftrightarrow>
     length buf < unat (p - base) + LENGTH('t) div 8"
  by (auto simp: read_le_on_def load_bytes_def Let_def)

text \<open>The pure value a read inside the buffer returns.\<close>

definition le_at :: "byte list \<Rightarrow> nat \<Rightarrow> 't::len word" where
  "le_at buf off = of_nat (le_nat (take (LENGTH('t) div 8) (drop off buf)))"

lemma read_le_inside:
  "unat (p - base) + LENGTH('t) div 8 \<le> length buf \<Longrightarrow>
   (read_le buf base p :: 't::len word option) = Some (le_at buf (unat (p - base)))"
  by (simp add: read_le_on_def load_bytes_def object_value_def from_le_def le_at_def Let_def)

section \<open>C strings in a buffer\<close>

text \<open>
  The string that starts at offset \<open>off\<close>, as \<open>strcmp\<close> or \<open>strlen\<close> reads it: up
  to the first zero byte, which has to lie inside the buffer.
\<close>

definition c_string :: "byte list \<Rightarrow> nat \<Rightarrow> cstring option" where
  "c_string buf off =
     (let s = takeWhile (\<lambda>b. b \<noteq> 0) (drop off buf)
      in if off + length s < length buf then Some s else None)"

text \<open>
  \<open>strcmp(a, b) == 0\<close> on two terminated strings: equality of the bytes before the
  terminators.
\<close>

definition strcmp_eq :: "cstring \<Rightarrow> cstring \<Rightarrow> bool" where
  "strcmp_eq a b \<longleftrightarrow> a = b"

text \<open>
  The scan \<open>for (; nameend < buf_size; ++nameend) if (!buf[nameend]) break;\<close> of the
  loader.  \<open>nameend\<close> is a \<open>uint32_t\<close>, so in a buffer of 4 GiB or more the
  increment wraps and the loop need not end: \<open>None\<close>.
\<close>

partial_function (option) scan_nul :: "byte list \<Rightarrow> u32 \<Rightarrow> u32 option" where
  "scan_nul buf ne =
     (if unat ne < length buf
      then if buf ! unat ne = 0 then Some ne else scan_nul buf (ne + 1)
      else Some ne)"

lemma c_string_Some [run_simps]:
  "c_string buf off = Some s \<longleftrightarrow>
     s = takeWhile (\<lambda>b. b \<noteq> 0) (drop off buf) \<and> off + length s < length buf"
  by (auto simp: c_string_def Let_def)

definition c_len :: "byte list \<Rightarrow> nat \<Rightarrow> nat" where
  "c_len buf off = length (takeWhile (\<lambda>b. b \<noteq> 0) (drop off buf))"

lemma c_len_step:
  "off < length buf \<Longrightarrow>
   c_len buf off = (if buf ! off = 0 then 0 else Suc (c_len buf (Suc off)))"
  by (simp add: c_len_def Cons_nth_drop_Suc [symmetric])

lemma c_len_beyond: "length buf \<le> off \<Longrightarrow> c_len buf off = 0"
  by (simp add: c_len_def)

lemma c_len_bound: "off \<le> length buf \<Longrightarrow> off + c_len buf off \<le> length buf"
  using length_takeWhile_le [of "\<lambda>b. b \<noteq> 0" "drop off buf"]
  by (simp add: c_len_def del: length_takeWhile_le)

lemma scan_nul_terminates:
  assumes "length buf < 2 ^ 32"
  shows "scan_nul buf ne = Some (ne + of_nat (c_len buf (unat ne)))"
proof (induction "length buf - unat ne" arbitrary: ne rule: less_induct)
  case less
  show ?case
  proof (cases "unat ne < length buf \<and> buf ! unat ne \<noteq> 0")
    case True
    have suc: "unat (ne + 1) = Suc (unat ne)"
      using True assms by (simp add: unat_word_ariths)
    have "length buf - unat (ne + 1) < length buf - unat ne"
      using True suc by (simp add: diff_less_mono2)
    then have "scan_nul buf (ne + 1) = Some (ne + 1 + of_nat (c_len buf (unat (ne + 1))))"
      by (rule less)
    then show ?thesis
      using True by (subst scan_nul.simps) (simp add: suc c_len_step)
  next
    case False
    then have "c_len buf (unat ne) = 0"
      by (cases "unat ne < length buf") (auto simp: c_len_step c_len_beyond)
    with False show ?thesis by (subst scan_nul.simps) auto
  qed
qed

lemma c_string_c_len:
  "c_string buf off = (if off + c_len buf off < length buf
     then Some (take (c_len buf off) (drop off buf)) else None)"
  by (simp add: c_string_def c_len_def Let_def flip: takeWhile_eq_take)

end
