(* ===== verification/Valarray.thy ===== *)
theory Valarray
  imports Cbytes
begin

text \<open>
  The table walks and the arena arithmetic of \<open>PawnIO/amx_loader.h\<close>
  (\<open>iter_valarray\<close>, \<open>count_valarray\<close>, \<open>align_up\<close>,
  \<open>alloc_from_buffer_aligned\<close>).  The bounds checks compare addresses after pointer
  arithmetic that can wrap around, on x86 for every 32-bit offset; the theorems here say
  that they are nevertheless exact.
\<close>

section \<open>Walking a table\<close>

text \<open>
  The callback of a walk is a step on the caller's captured variables: it returns whether
  to go on and the new values.  A walk stops at the first entry that is refused and keeps
  the effects of the entries before it.
\<close>

fun iter_entries ::
  "('p \<Rightarrow> 's \<Rightarrow> (bool \<times> 's) option) \<Rightarrow> 'p list \<Rightarrow> 's \<Rightarrow> (bool \<times> 's) option"
where
  "iter_entries fn [] s = Some (True, s)"
| "iter_entries fn (p # ps) s =
     do { (ok, s') \<leftarrow> fn p s; if ok then iter_entries fn ps s' else Some (False, s') }"

definition iter_valarray ::
  "'w::len word \<Rightarrow> 'w word \<Rightarrow> 'w word \<Rightarrow> 'w word \<Rightarrow> 'w word \<Rightarrow>
   ('w word \<Rightarrow> 's \<Rightarrow> (bool \<times> 's) option) \<Rightarrow> 's \<Rightarrow> (bool \<times> 's) option"
where
  "iter_valarray buf buf_size begin_offset end_offset entry_size fn s =
    (let b = buf + begin_offset;
         e = buf + end_offset;
         size = e - b;
         buf_end = buf + buf_size
     in if b < buf \<or> b > buf_end then Some (False, s)
        else if e < buf \<or> e > buf_end then Some (False, s)
        else if b > e \<or> size mod entry_size \<noteq> 0 then Some (False, s)
        else iter_entries fn
               (map (\<lambda>i. b + of_nat i * entry_size) [0..<unat (size div entry_size)]) s)"

text \<open>\<open>count_valarray\<close>: the walk whose callback only counts.\<close>

definition count_valarray ::
  "'w::len word \<Rightarrow> 'w word \<Rightarrow> 'w word \<Rightarrow> 'w word \<Rightarrow> 'w word \<Rightarrow> (bool \<times> nat) option"
where
  "count_valarray buf buf_size begin_offset end_offset entry_size =
     iter_valarray buf buf_size begin_offset end_offset entry_size
       (\<lambda>_ count. Some (True, Suc count)) 0"

section \<open>The reference description of a walk\<close>

text \<open>Plain arithmetic on offsets: which tables are accepted and where their entries are.\<close>

definition valarray_ok :: "nat \<Rightarrow> nat \<Rightarrow> nat \<Rightarrow> nat \<Rightarrow> bool" where
  "valarray_ok buf_size b e es \<longleftrightarrow> b \<le> e \<and> e \<le> buf_size \<and> (e - b) mod es = 0"

definition entry_offsets :: "nat \<Rightarrow> nat \<Rightarrow> nat \<Rightarrow> nat list" where
  "entry_offsets b e es = map (\<lambda>i. b + i * es) [0..<(e - b) div es]"

lemma entry_offsets_bound:
  assumes "valarray_ok n b e es" and "off \<in> set (entry_offsets b e es)"
  shows "b \<le> off" and "off + es \<le> e" and "off + es \<le> n"
proof -
  have "off \<in> (\<lambda>i. b + i * es) ` {0..<(e - b) div es}"
    using assms(2) by (simp add: entry_offsets_def)
  then obtain i where i: "off = b + i * es" "i \<in> {0..<(e - b) div es}"
    by (rule imageE)
  have "Suc i * es \<le> (e - b) div es * es"
    using i(2) by (intro mult_le_mono1) simp
  also have "\<dots> \<le> e - b" by (rule div_times_less_eq_dividend)
  finally have s: "es + i * es \<le> e - b" by simp
  have be: "b \<le> e" "e \<le> n" using assms(1) by (auto simp: valarray_ok_def)
  show "b \<le> off" using i by simp
  show "off + es \<le> e" using i s be by linarith
  then show "off + es \<le> n" using be by linarith
qed

lemma length_entry_offsets [simp]: "length (entry_offsets b e es) = (e - b) div es"
  by (simp add: entry_offsets_def)

section \<open>The address comparisons are exact\<close>

text \<open>
  \<open>buf\<close> to \<open>buf + buf_size\<close> is an object of the program, so its one-past-the-end
  address is representable.  An offset may still carry the address past the top of the
  address space; then the address comes out below \<open>buf\<close> and the first comparison
  refuses it.
\<close>

lemma address_check:
  fixes buf buf_size ofs :: "'w::len word"
  assumes obj: "unat buf + unat buf_size < 2 ^ LENGTH('w)"
  shows "(buf + ofs < buf \<or> buf + ofs > buf + buf_size) \<longleftrightarrow> unat buf_size < unat ofs"
proof -
  have e: "unat (buf + buf_size) = unat buf + unat buf_size"
    using obj by (rule unat_add_no_wrap)
  show ?thesis
  proof (cases "unat buf + unat ofs < 2 ^ LENGTH('w)")
    case True
    then show ?thesis
      using e by (simp add: word_less_nat_alt unat_add_no_wrap)
  next
    case False
    have o: "unat ofs < 2 ^ LENGTH('w)" "unat buf < 2 ^ LENGTH('w)"
      by (rule unsigned_less)+
    have "unat (buf + ofs) = unat buf + unat ofs - 2 ^ LENGTH('w)"
    proof -
      have "unat (buf + ofs) = (unat buf + unat ofs) mod 2 ^ LENGTH('w)"
        by (simp add: unat_word_ariths)
      also have "\<dots> = (unat buf + unat ofs - 2 ^ LENGTH('w)) mod 2 ^ LENGTH('w)"
        using False by (simp add: le_mod_geq)
      also have "\<dots> = unat buf + unat ofs - 2 ^ LENGTH('w)"
        using o by (intro mod_less) linarith
      finally show ?thesis .
    qed
    with o False have "unat (buf + ofs) < unat buf" by linarith
    moreover have "unat buf_size < unat ofs" using obj False by linarith
    ultimately show ?thesis by (simp add: word_less_nat_alt)
  qed
qed

lemma unat_address:
  fixes buf ofs :: "'w::len word"
  assumes "unat buf + unat buf_size < 2 ^ LENGTH('w)" and "unat ofs \<le> unat buf_size"
  shows "unat (buf + ofs) = unat buf + unat ofs"
  using assms by (intro unat_add_no_wrap) linarith

lemma iter_valarray_walk:
  fixes buf buf_size bo eo es :: "'w::len word"
  assumes obj: "unat buf + unat buf_size < 2 ^ LENGTH('w)"
  shows "iter_valarray buf buf_size bo eo es fn s =
    (if valarray_ok (unat buf_size) (unat bo) (unat eo) (unat es)
     then iter_entries fn
       (map (\<lambda>off. buf + of_nat off) (entry_offsets (unat bo) (unat eo) (unat es))) s
     else Some (False, s))"
proof -
  let ?ok = "valarray_ok (unat buf_size) (unat bo) (unat eo) (unat es)"
  let ?b = "buf + bo" and ?e = "buf + eo"
  show ?thesis
  proof (cases "unat bo \<le> unat buf_size \<and> unat eo \<le> unat buf_size")
    case False
    then have "(?b < buf \<or> ?b > buf + buf_size) \<or> (?e < buf \<or> ?e > buf + buf_size)"
      unfolding address_check [OF obj] by auto
    moreover have "\<not> ?ok" using False by (auto simp: valarray_ok_def)
    ultimately show ?thesis by (auto simp: iter_valarray_def Let_def)
  next
    case True
    have inb: "\<not> (?b < buf \<or> ?b > buf + buf_size)" "\<not> (?e < buf \<or> ?e > buf + buf_size)"
      unfolding address_check [OF obj] using True by auto
    have le: "?b > ?e \<longleftrightarrow> unat eo < unat bo"
      using True by (simp add: word_less_nat_alt unat_address [OF obj])
    show ?thesis
    proof (cases "unat eo < unat bo")
      case True
      with inb le show ?thesis by (auto simp: iter_valarray_def Let_def valarray_ok_def)
    next
      case False
      then have size: "unat (?e - ?b) = unat eo - unat bo"
        by (simp add: unat_sub word_le_nat_alt)
      have m: "(?e - ?b) mod es = 0 \<longleftrightarrow> (unat eo - unat bo) mod unat es = 0"
        by (metis size unat_mod_distrib unat_eq_zero)
      have d: "unat ((?e - ?b) div es) = (unat eo - unat bo) div unat es"
        using size by (simp add: unat_div_distrib)
      have p: "map (\<lambda>i. ?b + of_nat i * es) [0..<n] =
          map (\<lambda>off. buf + of_nat off) (map (\<lambda>i. unat bo + i * unat es) [0..<n])" for n
        by (simp add: algebra_simps)
      show ?thesis
        unfolding iter_valarray_def Let_def if_not_P [OF inb(1)] if_not_P [OF inb(2)] le m d p
        using False True by (simp add: valarray_ok_def entry_offsets_def)
    qed
  qed
qed

text \<open>
  C27: the table walk of the loader is exactly the walk over the entries
  \<open>begin_offset, begin_offset + entry_size, \<dots>\<close> of a table that lies inside the buffer and
  is a whole number of entries; every other pair of offsets is refused without a call, even
  where the address arithmetic wraps around.
\<close>

theorem iter_valarray_exact:
  fixes buf buf_size bo eo es :: "'w::len word"
  assumes obj: "unat buf + unat buf_size < 2 ^ LENGTH('w)"
  shows "iter_valarray buf buf_size bo eo es fn s =
    (if valarray_ok (unat buf_size) (unat bo) (unat eo) (unat es)
     then iter_entries fn
       (map (\<lambda>off. buf + of_nat off) (entry_offsets (unat bo) (unat eo) (unat es))) s
     else Some (False, s))"
  by (rule iter_valarray_walk [OF obj])

text \<open>The table of the witness: three 8-byte entries of a 40-byte buffer, on x86.\<close>

theorem iter_valarray_exact_witness:
  "iter_valarray (0xFFFFF000 :: 32 word) 40 16 40 8 (\<lambda>p l. Some (True, p # l)) [] =
     Some (True, [0xFFFFF020, 0xFFFFF018, 0xFFFFF010]) \<and>
   iter_valarray (0xFFFFF000 :: 32 word) 40 0xFFFFFFF0 40 8 (\<lambda>p l. Some (True, p # l)) [] =
     Some (False, [])"
  using iter_valarray_exact [of "0xFFFFF000 :: 32 word" 40 16 40 8 "\<lambda>p l. Some (True, p # l)" "[]"]
    iter_valarray_exact [of "0xFFFFF000 :: 32 word" 40 "0xFFFFFFF0" 40 8 "\<lambda>p l. Some (True, p # l)" "[]"]
  by (simp add: valarray_ok_def entry_offsets_def upt_conv_Cons)

lemma count_entries:
  "iter_entries (\<lambda>_ c. Some (True, Suc c)) ps c = Some (True, c + length ps)"
  by (induction ps arbitrary: c) auto

lemma count_valarray_exact:
  fixes buf buf_size bo eo es :: "'w::len word"
  assumes "unat buf + unat buf_size < 2 ^ LENGTH('w)"
  shows "count_valarray buf buf_size bo eo es =
    Some (if valarray_ok (unat buf_size) (unat bo) (unat eo) (unat es)
          then (True, (unat eo - unat bo) div unat es) else (False, 0))"
  using assms by (simp add: count_valarray_def iter_valarray_walk count_entries)

section \<open>Aligned allocation from a block\<close>

definition align_up :: "'w::len word \<Rightarrow> 'w word \<Rightarrow> 'w word" where
  "align_up value align = (value + align - 1) div align * align"

definition alloc_from_buffer_aligned ::
  "'w::len word \<Rightarrow> 'w word \<Rightarrow> 'w word \<Rightarrow> 'w word \<Rightarrow> 'w word \<times> 'w word \<times> 'w word"
where
  "alloc_from_buffer_aligned align buf elem_size alloc_count =
     (buf, alloc_count, buf + align_up (alloc_count * elem_size) align)"

definition align_nat :: "nat \<Rightarrow> nat \<Rightarrow> nat" where
  "align_nat a n = (n + a - 1) div a * a"

lemma align_nat_mult: "a dvd align_nat a n"
  by (simp add: align_nat_def)

lemma align_nat_ge: "0 < a \<Longrightarrow> n \<le> align_nat a n"
proof -
  assume a: "0 < a"
  have "(n + a - 1) mod a < a" using a by simp
  with div_mult_mod_eq [of "n + a - 1" a] have "n + a - 1 < align_nat a n + a"
    unfolding align_nat_def by linarith
  with a show ?thesis by linarith
qed

lemma align_nat_less:
  assumes "0 < a" shows "align_nat a n < n + a"
  using assms div_times_less_eq_dividend [of "n + a - 1" a]
  unfolding align_nat_def by linarith

lemma align_nat_0 [simp]: "0 < a \<Longrightarrow> align_nat a 0 = 0"
  by (simp add: align_nat_def)

lemma unat_align_up:
  fixes v a :: "'w::len word"
  assumes a: "0 < unat a" and bound: "unat v + unat a \<le> 2 ^ LENGTH('w)"
  shows "unat (align_up v a) = align_nat (unat a) (unat v)"
proof -
  have m: "unat (a - 1) = unat a - 1"
    using a by (intro unat_minus_one) auto
  have "unat (v + (a - 1)) = unat v + unat (a - 1)"
    using a bound m by (intro unat_add_no_wrap) linarith
  then have "unat (v + a - 1) = unat v + unat (a - 1)"
    by (simp add: add_diff_eq)
  then have s: "unat (v + a - 1) = unat v + unat a - 1"
    using a m by linarith
  have d: "unat ((v + a - 1) div a) = (unat v + unat a - 1) div unat a"
    by (simp add: s unat_div_distrib)
  have "align_nat (unat a) (unat v) \<le> unat v + unat a - 1"
    unfolding align_nat_def by (rule div_times_less_eq_dividend)
  with bound a have "(unat v + unat a - 1) div unat a * unat a < 2 ^ LENGTH('w)"
    unfolding align_nat_def by linarith
  then show ?thesis
    unfolding align_up_def align_nat_def unat_word_ariths(2) d by (rule mod_less)
qed

end
