(* ===== verification/Loader.thy ===== *)
theory Loader
  imports Valarray
begin

text \<open>
  The AMX loader of \<open>PawnIO/amx_loader.h\<close>, class \<open>amx::loader\<close>: the header checks, the
  two passes over the publics, natives and pubvars tables (counting, then filling), the one
  allocation that holds everything, and the lookups.

  Not under \<open>src/\<close> and therefore parameters: the AMX virtual machine of the \<open>PawnPP\<close>
  submodule (its version and the \<open>map\<close> operations of its code and data memory, record
  \<open>amx_ops\<close>) and the kernel (record \<open>kernel\<close>: the pool allocator and
  \<open>MEMORY_ALLOCATION_ALIGNMENT\<close>).

  The allocation is described by its address and size; its regions are kept as typed
  contents (cells, table entries, string bytes).  Each access to a region is checked against
  the allocation, and has no defined result when it leaves it.
\<close>

section \<open>Data\<close>

datatype loader_error =
    LE_success
  | LE_invalid_file
  | LE_unsupported_file_version
  | LE_unsupported_amx_version
  | LE_feature_not_supported
  | LE_wrong_cell_size
  | LE_native_not_resolved
  | LE_unknown

record (overloaded) ('w, 'a) amx_ops =
  amx_version :: nat
  code_map :: "'a \<Rightarrow> 'w::len word \<Rightarrow> 'w word \<Rightarrow> ('a \<times> 'w word) option"
  data_map :: "'a \<Rightarrow> 'w::len word \<Rightarrow> 'w word \<Rightarrow> ('a \<times> 'w word) option"

record (overloaded) ('w) kernel =
  mem_align :: "'w::len word"
  pool_alloc :: "'w word \<Rightarrow> 'w word option"

text \<open>
  \<open>callbacks_arg\<close>: the natives a module may import (name and callback), the two hooks and
  the pointer handed back to the callbacks.
\<close>

record ('f, 'g, 'u) callbacks_arg =
  natives :: "(cstring \<times> 'f) list"
  on_single_step :: "'g option"
  on_break :: "'g option"
  user_data :: 'u

text \<open>The file header, field by field in the order it is read.\<close>

record header =
  h_size :: u32
  h_magic :: u16
  h_file_version :: byte
  h_amx_version :: byte
  h_flags :: u16
  h_defsize :: u16
  h_cod :: u32
  h_dat :: u32
  h_hea :: u32
  h_stp :: u32
  h_cip :: u32
  h_publics :: u32
  h_natives :: u32
  h_libraries :: u32
  h_pubvars :: u32
  h_tags :: u32

text \<open>
  The members of the loader and the registers of its \<open>amx\<close>.  \<open>code_ptr\<close>,
  \<open>data_ptr\<close>, \<dots> are addresses; \<open>code_mem\<close>, \<open>data_mem\<close>, \<dots> are what the
  memory there holds.  A table entry is the address of a name and a code or data address; a
  null native is \<open>None\<close>.
\<close>

record (overloaded) ('w, 'f, 'g, 'u, 'a) loader =
  code_ptr :: "'w::len word"
  code_count :: "'w word"
  data_ptr :: "'w word"
  data_count :: "'w word"
  publics_ptr :: "'w word"
  publics_count :: "'w word"
  pubvars_ptr :: "'w word"
  pubvars_count :: "'w word"
  natives_ptr :: "'w word"
  natives_count :: "'w word"
  code_mem :: "'w word list"
  data_mem :: "'w word list"
  publics_mem :: "('w word \<times> 'w word) list"
  pubvars_mem :: "('w word \<times> 'w word) list"
  natives_mem :: "'f option list"
  str_base :: "'w word"
  str_mem :: "byte list"
  main_fn :: "'w word"
  alloc_block :: "('w word \<times> 'w word) option"
  l_single_step :: "'g option"
  l_break :: "'g option"
  l_user_data :: "'u option"
  amx_state :: 'a
  COD :: "'w word"
  DAT :: "'w word"
  STK :: "'w word"
  STP :: "'w word"
  HEA :: "'w word"

definition empty_loader :: "'a \<Rightarrow> ('w::len, 'f, 'g, 'u, 'a) loader" where
  "empty_loader a =
    \<lparr>code_ptr = 0, code_count = 0, data_ptr = 0, data_count = 0,
     publics_ptr = 0, publics_count = 0, pubvars_ptr = 0, pubvars_count = 0,
     natives_ptr = 0, natives_count = 0,
     code_mem = [], data_mem = [], publics_mem = [], pubvars_mem = [], natives_mem = [],
     str_base = 0, str_mem = [], main_fn = 0, alloc_block = None,
     l_single_step = None, l_break = None, l_user_data = None, amx_state = a,
     COD = 0, DAT = 0, STK = 0, STP = 0, HEA = 0\<rparr>"

section \<open>Header\<close>

definition expected_magic :: "'w::len itself \<Rightarrow> u16" where
  "expected_magic _ =
    (if LENGTH('w) = 32 then 0xF1E0 else if LENGTH('w) = 64 then 0xF1E1
     else if LENGTH('w) = 16 then 0xF1E2 else 0)"

definition flag_overlay :: u32 where "flag_overlay = push_bit 0 1"
definition flag_sleep :: u32 where "flag_sleep = push_bit 3 1"

definition read_header :: "byte list \<Rightarrow> 'w::len word \<Rightarrow> header option" where
  "read_header buf base = do {
     v_size \<leftarrow> read_le buf base base;
     v_magic \<leftarrow> read_le buf base (base + 4);
     v_file_version \<leftarrow> read_le buf base (base + 6);
     v_amx_version \<leftarrow> read_le buf base (base + 7);
     v_flags \<leftarrow> read_le buf base (base + 8);
     v_defsize \<leftarrow> read_le buf base (base + 10);
     v_cod \<leftarrow> read_le buf base (base + 12);
     v_dat \<leftarrow> read_le buf base (base + 16);
     v_hea \<leftarrow> read_le buf base (base + 20);
     v_stp \<leftarrow> read_le buf base (base + 24);
     v_cip \<leftarrow> read_le buf base (base + 28);
     v_publics \<leftarrow> read_le buf base (base + 32);
     v_natives \<leftarrow> read_le buf base (base + 36);
     v_libraries \<leftarrow> read_le buf base (base + 40);
     v_pubvars \<leftarrow> read_le buf base (base + 44);
     v_tags \<leftarrow> read_le buf base (base + 48);
     Some \<lparr>h_size = v_size, h_magic = v_magic, h_file_version = v_file_version,
       h_amx_version = v_amx_version, h_flags = v_flags, h_defsize = v_defsize,
       h_cod = v_cod, h_dat = v_dat, h_hea = v_hea, h_stp = v_stp, h_cip = v_cip,
       h_publics = v_publics, h_natives = v_natives, h_libraries = v_libraries,
       h_pubvars = v_pubvars, h_tags = v_tags\<rparr> }"

definition check_header :: "'w::len itself \<Rightarrow> nat \<Rightarrow> nat \<Rightarrow> header \<Rightarrow> loader_error" where
  "check_header w version buf_size h =
    (if h_magic h \<noteq> expected_magic w
     then if h_magic h \<in> {0xF1E0, 0xF1E1, 0xF1E2} then LE_wrong_cell_size else LE_invalid_file
     else if unat (h_size h) > buf_size then LE_invalid_file
     else if h_file_version h \<noteq> 11 then LE_unsupported_file_version
     else if unat (h_amx_version h) > version then LE_unsupported_amx_version
     else if ucast (h_flags h) AND flag_overlay \<noteq> 0 \<or> ucast (h_flags h) AND flag_sleep \<noteq> 0
     then LE_feature_not_supported
     else if h_defsize h < 8 then LE_invalid_file
     else LE_success)"

section \<open>Counting passes\<close>

text \<open>
  The lambda of the publics and pubvars counting passes; captured are the counter and
  \<open>string_buffer_size\<close>.
\<close>

definition count_named ::
  "byte list \<Rightarrow> 'w::len word \<Rightarrow> 'w word \<Rightarrow> nat \<times> 'w word \<Rightarrow> (bool \<times> nat \<times> 'w word) option"
where
  "count_named buf base p = (\<lambda>(count, string_buffer_size). do {
     nameofs \<leftarrow> (read_le buf base (p + 4) :: u32 option);
     nameend \<leftarrow> scan_nul buf nameofs;
     if unat nameend \<ge> length buf then Some (False, count, string_buffer_size)
     else let b = base + ucast nameofs; e = base + ucast nameend
          in Some (True, Suc count, string_buffer_size + (e - b + 1)) })"

text \<open>
  The lambda of the natives counting pass; captured are the counter and
  \<open>native_not_found\<close>.  \<open>std::find_if\<close> with \<open>strcmp\<close> is the first match.
\<close>

definition find_native :: "(cstring \<times> 'f) list \<Rightarrow> cstring \<Rightarrow> 'f option" where
  "find_native ns name = map_option snd (find (\<lambda>n. strcmp_eq name (fst n)) ns)"

definition count_native ::
  "byte list \<Rightarrow> 'w::len word \<Rightarrow> (cstring \<times> 'f) list \<Rightarrow> 'w word \<Rightarrow> nat \<times> bool \<Rightarrow>
   (bool \<times> nat \<times> bool) option"
where
  "count_native buf base ns p = (\<lambda>(count, not_found). do {
     nameofs \<leftarrow> (read_le buf base (p + 4) :: u32 option);
     nameend \<leftarrow> scan_nul buf nameofs;
     if unat nameend \<ge> length buf then Some (False, count, not_found)
     else do {
       name \<leftarrow> c_string buf (unat nameofs);
       case find_native ns name of
         None \<Rightarrow> Some (False, count, True)
       | Some _ \<Rightarrow> Some (True, Suc count, not_found) } })"

text \<open>What the counting stage leaves in the local variables of \<open>init\<close>.\<close>

record (overloaded) ('w) counts =
  n_code :: nat
  n_data :: nat
  n_data_alloc :: "'w::len word"
  n_publics :: nat
  n_natives :: nat
  n_pubvars :: nat
  n_strings :: "'w word"

definition data_alloc_cells :: "header \<Rightarrow> nat \<Rightarrow> 'w::len word" where
  "data_alloc_cells h d =
    (let csz = of_nat (sizeof_cell TYPE('w)) :: 'w word;
         extra_size = ucast (h_stp h - h_hea h) + csz - 1
     in of_nat d + extra_size div csz)"

text \<open>The code and data segments: their sizes in cells, or \<open>invalid_file\<close>.\<close>

definition count_segments ::
  "byte list \<Rightarrow> 'w::len word \<Rightarrow> header \<Rightarrow> (loader_error + nat \<times> nat) option"
where
  "count_segments buf base h =
    (let n = of_nat (length buf) :: 'w word; csz = of_nat (sizeof_cell TYPE('w)) :: 'w word
     in do {
       (ok1, c) \<leftarrow> count_valarray base n (ucast (h_cod h)) (ucast (h_dat h)) csz;
       if \<not> ok1 then Some (Inl LE_invalid_file)
       else do {
         (ok2, d) \<leftarrow> count_valarray base n (ucast (h_dat h)) (ucast (h_hea h)) csz;
         if \<not> ok2 then Some (Inl LE_invalid_file) else Some (Inr (c, d)) } })"

text \<open>The three tables, in the order publics, natives, pubvars.\<close>

definition count_tables ::
  "byte list \<Rightarrow> 'w::len word \<Rightarrow> (cstring \<times> 'f) list \<Rightarrow> header \<Rightarrow> nat \<times> nat \<Rightarrow>
   (loader_error + 'w counts) option"
where
  "count_tables buf base ns h = (\<lambda>(c, d).
    let n = of_nat (length buf) :: 'w word; ds = ucast (h_defsize h) :: 'w word
    in do {
      (ok1, np, sz1) \<leftarrow> iter_valarray base n (ucast (h_publics h)) (ucast (h_natives h)) ds
        (count_named buf base) (0, 0);
      if \<not> ok1 then Some (Inl LE_invalid_file)
      else do {
        (ok2, nn, not_found) \<leftarrow> iter_valarray base n (ucast (h_natives h)) (ucast (h_libraries h)) ds
          (count_native buf base ns) (0, False);
        if \<not> ok2
        then Some (Inl (if not_found then LE_native_not_resolved else LE_invalid_file))
        else if h_libraries h \<noteq> h_pubvars h then Some (Inl LE_feature_not_supported)
        else do {
          (ok3, nv, sz2) \<leftarrow> iter_valarray base n (ucast (h_pubvars h)) (ucast (h_tags h)) ds
            (count_named buf base) (0, sz1);
          if \<not> ok3 then Some (Inl LE_invalid_file)
          else Some (Inr \<lparr>n_code = c, n_data = d, n_data_alloc = data_alloc_cells h d,
                 n_publics = np, n_natives = nn, n_pubvars = nv, n_strings = sz2\<rparr>) } } })"

section \<open>Allocation and layout\<close>

text \<open>
  Sizes of the elements of the five regions: a cell, a cell, a
  \<open>std::pair<const char*, cell>\<close>, another pair, and a function pointer.  The size of the
  allocation is computed with the size of a pair for the natives too.
\<close>

definition sizeof_pair :: "'w::len itself \<Rightarrow> 'w word" where
  "sizeof_pair _ = of_nat (2 * sizeof_cell TYPE('w))"

definition alloc_size :: "'w::len word \<Rightarrow> 'w counts \<Rightarrow> 'w word" where
  "alloc_size align c =
    (let csz = of_nat (sizeof_cell TYPE('w)); psz = sizeof_pair TYPE('w)
     in 0 + align_up (of_nat (n_code c) * csz) align
          + align_up (n_data_alloc c * csz) align
          + align_up (of_nat (n_publics c) * psz) align
          + align_up (of_nat (n_pubvars c) * psz) align
          + align_up (of_nat (n_natives c) * psz) align
          + n_strings c)"

text \<open>
  \<open>memset(alloc, 0, alloc_size)\<close> and the five \<open>alloc_from_buffer_aligned\<close> calls.  The
  tables hold null entries; the strings are the bytes from \<open>alloc_it\<close> to the end of the
  allocation, which are none when the regions already pass the end.
\<close>

definition place_regions ::
  "'w::len word \<Rightarrow> 'w word \<Rightarrow> 'w word \<Rightarrow> 'w counts \<Rightarrow>
   ('w, 'f, 'g, 'u, 'a) loader \<Rightarrow> ('w, 'f, 'g, 'u, 'a) loader"
where
  "place_regions align block asize c l =
    (let csz = of_nat (sizeof_cell TYPE('w)); psz = sizeof_pair TYPE('w);
         it0 = block;
         (cp, cc, it1) = alloc_from_buffer_aligned align it0 csz (of_nat (n_code c));
         (dp, dc, it2) = alloc_from_buffer_aligned align it1 csz (n_data_alloc c);
         (pp, pc, it3) = alloc_from_buffer_aligned align it2 psz (of_nat (n_publics c));
         (vp, vc, it4) = alloc_from_buffer_aligned align it3 psz (of_nat (n_pubvars c));
         (np, nc, it5) = alloc_from_buffer_aligned align it4 csz (of_nat (n_natives c))
     in l\<lparr>alloc_block := Some (block, asize),
          code_ptr := cp, code_count := cc, data_ptr := dp, data_count := dc,
          publics_ptr := pp, publics_count := pc, pubvars_ptr := vp, pubvars_count := vc,
          natives_ptr := np, natives_count := nc,
          publics_mem := replicate (n_publics c) (0, 0),
          pubvars_mem := replicate (n_pubvars c) (0, 0),
          natives_mem := replicate (n_natives c) None,
          str_base := it5,
          str_mem := replicate (unat asize - unat (it5 - block)) 0\<rparr>)"

text \<open>An access of \<open>n\<close> bytes at address \<open>p\<close> stays inside the allocation.\<close>

definition inside_block :: "'w::len word \<times> 'w word \<Rightarrow> 'w word \<Rightarrow> nat \<Rightarrow> bool" where
  "inside_block blk p n \<longleftrightarrow> unat (p - fst blk) + n \<le> unat (snd blk)"

section \<open>Copying the segments\<close>

text \<open>The cells a run of bytes holds, zero where the bytes end.\<close>

definition cell_at :: "byte list \<Rightarrow> nat \<Rightarrow> 'w::len word" where
  "cell_at bs i = le_at bs (i * sizeof_cell TYPE('w))"

definition copy_cells ::
  "byte list \<Rightarrow> 'w::len word \<Rightarrow> 'w word \<times> 'w word \<Rightarrow> 'w word \<Rightarrow> nat \<Rightarrow> u32 \<Rightarrow> u32 \<Rightarrow> 'w word list option"
where
  "copy_cells buf base blk dst count from_ofs to_ofs = do {
     bs \<leftarrow> load_bytes buf base (base + ucast from_ofs) (unat (to_ofs - from_ofs));
     if inside_block blk dst (length bs) then Some (map (cell_at bs) [0..<count]) else None }"

text \<open>
  The loop \<open>for (i = 0; i < n; ++i) p[i] = from_le(p[i]);\<close>.  An index past the array
  \<open>cells\<close> reaches the next region, whose content \<open>from_le\<close> leaves as it is; an index
  past the allocation has no defined result.
\<close>

definition from_le_cell :: "'w::len word \<Rightarrow> 'w word" where
  "from_le_cell x = x"

fun fix_cells ::
  "'w::len word \<times> 'w word \<Rightarrow> 'w word \<Rightarrow> nat \<Rightarrow> nat \<Rightarrow> 'w word list \<Rightarrow> 'w word list option"
where
  "fix_cells blk p 0 i cells = Some cells"
| "fix_cells blk p (Suc k) i cells =
     (if inside_block blk (p + of_nat i * of_nat (sizeof_cell TYPE('w))) (sizeof_cell TYPE('w))
      then fix_cells blk p k (Suc i)
             (if i < length cells then cells[i := from_le_cell (cells ! i)] else cells)
      else None)"

text \<open>Both segments.  The second loop runs to \<open>_code_count\<close>, as the source has it.\<close>

definition copy_segments ::
  "byte list \<Rightarrow> 'w::len word \<Rightarrow> header \<Rightarrow> ('w, 'f, 'g, 'u, 'a) loader \<Rightarrow>
   ('w, 'f, 'g, 'u, 'a) loader option"
where
  "copy_segments buf base h l = do {
     blk \<leftarrow> alloc_block l;
     code \<leftarrow> copy_cells buf base blk (code_ptr l) (unat (code_count l)) (h_cod h) (h_dat h);
     code' \<leftarrow> fix_cells blk (code_ptr l) (unat (code_count l)) 0 code;
     data \<leftarrow> copy_cells buf base blk (data_ptr l) (unat (data_count l)) (h_dat h) (h_hea h);
     data' \<leftarrow> fix_cells blk (data_ptr l) (unat (code_count l)) 0 data;
     Some (l\<lparr>code_mem := code', data_mem := data'\<rparr>) }"

section \<open>Filling passes\<close>

text \<open>\<open>memcpy\<close> into the string part of the allocation.\<close>

definition store_bytes ::
  "byte list \<Rightarrow> 'w::len word \<Rightarrow> 'w word \<Rightarrow> byte list \<Rightarrow> byte list option"
where
  "store_bytes sm sbase p bs =
    (let off = unat (p - sbase)
     in if off + length bs \<le> length sm
        then Some (take off sm @ bs @ drop (off + length bs) sm) else None)"

text \<open>
  The lambda of the publics and pubvars filling passes.  Captured are the table, its
  counter, \<open>string_buffer\<close> and the memory it points into; \<open>tptr\<close> is the address of
  the table in the allocation \<open>blk\<close>.
\<close>

definition fill_named ::
  "byte list \<Rightarrow> 'w::len word \<Rightarrow> 'w word \<times> 'w word \<Rightarrow> 'w word \<Rightarrow> 'w word \<Rightarrow> 'w word \<Rightarrow>
   ('w word \<times> 'w word) list \<times> nat \<times> 'w word \<times> byte list \<Rightarrow>
   (bool \<times> ('w word \<times> 'w word) list \<times> nat \<times> 'w word \<times> byte list) option"
where
  "fill_named buf base blk tptr sbase p = (\<lambda>(tab, counter, string_buffer, sm). do {
     address \<leftarrow> (read_le buf base p :: u32 option);
     nameofs \<leftarrow> (read_le buf base (p + 4) :: u32 option);
     nameend \<leftarrow> scan_nul buf nameofs;
     if unat nameend \<ge> length buf then Some (False, tab, counter, string_buffer, sm)
     else let b = base + ucast nameofs; e = base + ucast nameend; name = string_buffer
          in do {
            bs \<leftarrow> load_bytes buf base b (unat (e - b));
            sm' \<leftarrow> store_bytes sm sbase name bs;
            if counter < length tab
               \<and> inside_block blk (tptr + of_nat counter * sizeof_pair TYPE('w))
                   (2 * sizeof_cell TYPE('w))
            then Some (True, tab[counter := (name, ucast address)], Suc counter,
                   string_buffer + (e - b + 1), sm')
            else None } })"

definition fill_native ::
  "byte list \<Rightarrow> 'w::len word \<Rightarrow> 'w word \<times> 'w word \<Rightarrow> 'w word \<Rightarrow> (cstring \<times> 'f) list \<Rightarrow> 'w word \<Rightarrow>
   'f option list \<times> nat \<Rightarrow> (bool \<times> 'f option list \<times> nat) option"
where
  "fill_native buf base blk tptr ns p = (\<lambda>(tab, counter). do {
     nameofs \<leftarrow> (read_le buf base (p + 4) :: u32 option);
     nameend \<leftarrow> scan_nul buf nameofs;
     if unat nameend \<ge> length buf then Some (False, tab, counter)
     else do {
       name \<leftarrow> c_string buf (unat nameofs);
       case find_native ns name of
         None \<Rightarrow> Some (False, tab, counter)
       | Some f \<Rightarrow>
           if counter < length tab
              \<and> inside_block blk (tptr + of_nat counter * of_nat (sizeof_cell TYPE('w)))
                  (sizeof_cell TYPE('w))
           then Some (True, tab[counter := Some f], Suc counter) else None } })"

text \<open>The three passes; their return values are not looked at.\<close>

definition fill_tables ::
  "byte list \<Rightarrow> 'w::len word \<Rightarrow> (cstring \<times> 'f) list \<Rightarrow> header \<Rightarrow> ('w, 'f, 'g, 'u, 'a) loader \<Rightarrow>
   ('w word \<times> ('w, 'f, 'g, 'u, 'a) loader) option"
where
  "fill_tables buf base ns h l =
    (let n = of_nat (length buf) :: 'w word; ds = ucast (h_defsize h) :: 'w word
     in do {
       blk \<leftarrow> alloc_block l;
       (_, pm, _, sp1, sm1) \<leftarrow> iter_valarray base n (ucast (h_publics h)) (ucast (h_natives h)) ds
         (fill_named buf base blk (publics_ptr l) (str_base l))
         (publics_mem l, 0, str_base l, str_mem l);
       (_, nm, _) \<leftarrow> iter_valarray base n (ucast (h_natives h)) (ucast (h_libraries h)) ds
         (fill_native buf base blk (natives_ptr l) ns) (natives_mem l, 0);
       (_, vm, _, sp2, sm2) \<leftarrow> iter_valarray base n (ucast (h_pubvars h)) (ucast (h_tags h)) ds
         (fill_named buf base blk (pubvars_ptr l) (str_base l))
         (pubvars_mem l, 0, sp1, sm1);
       Some (sp2, l\<lparr>publics_mem := pm, natives_mem := nm, pubvars_mem := vm, str_mem := sm2\<rparr>) })"

section \<open>init\<close>

text \<open>
  The last stage: the overrun test on \<open>string_buffer\<close> and the registers of the machine.
\<close>

definition finish_init ::
  "'w::len counts \<Rightarrow> 'w word \<Rightarrow> 'w word \<Rightarrow> 'w word \<Rightarrow> ('w, 'f, 'g, 'u, 'a) loader \<Rightarrow>
   (loader_error \<times> ('w, 'f, 'g, 'u, 'a) loader) option"
where
  "finish_init c code_base data_base string_buffer l = do {
     (block, asize) \<leftarrow> alloc_block l;
     if string_buffer \<ge> block + asize then Some (LE_unknown, l)
     else let csz = of_nat (sizeof_cell TYPE('w)); top = (data_count l - 1) * csz
          in Some (LE_success,
               l\<lparr>COD := code_base, DAT := data_base, STK := top, STP := top,
                 HEA := of_nat (n_data c) * csz\<rparr>) }"

text \<open>From the allocation on.\<close>

definition load_image ::
  "('w::len, 'a) amx_ops \<Rightarrow> 'w kernel \<Rightarrow> byte list \<Rightarrow> 'w word \<Rightarrow> (cstring \<times> 'f) list \<Rightarrow> header \<Rightarrow>
   'w counts \<Rightarrow> ('w, 'f, 'g, 'u, 'a) loader \<Rightarrow>
   (loader_error \<times> ('w, 'f, 'g, 'u, 'a) loader) option"
where
  "load_image ops k buf base ns h c l =
    (let asize = alloc_size (mem_align k) c
     in case pool_alloc k asize of
          None \<Rightarrow> Some (LE_unknown, l)
        | Some block \<Rightarrow> do {
            l1 \<leftarrow> copy_segments buf base h (place_regions (mem_align k) block asize c l);
            case code_map ops (amx_state l1) (code_ptr l1) (code_count l1) of
              None \<Rightarrow> Some (LE_unknown, l1)
            | Some (a1, code_base) \<Rightarrow>
                (case data_map ops a1 (data_ptr l1) (data_count l1) of
                   None \<Rightarrow> Some (LE_unknown, l1\<lparr>amx_state := a1\<rparr>)
                 | Some (a2, data_base) \<Rightarrow> do {
                     (string_buffer, l2) \<leftarrow> fill_tables buf base ns h (l1\<lparr>amx_state := a2\<rparr>);
                     finish_init c code_base data_base string_buffer l2 }) })"

definition init ::
  "('w::len, 'a) amx_ops \<Rightarrow> 'w kernel \<Rightarrow> byte list \<Rightarrow> 'w word \<Rightarrow> ('f, 'g, 'u) callbacks_arg \<Rightarrow>
   ('w, 'f, 'g, 'u, 'a) loader \<Rightarrow> (loader_error \<times> ('w, 'f, 'g, 'u, 'a) loader) option"
where
  "init ops k buf base cbs l0 =
    (let l = l0\<lparr>l_single_step := on_single_step cbs, l_break := on_break cbs,
                l_user_data := Some (user_data cbs)\<rparr>
     in if length buf < 60 then Some (LE_invalid_file, l)
        else do {
          h \<leftarrow> read_header buf base;
          let e = check_header TYPE('w) (amx_version ops) (length buf) h;
          if e \<noteq> LE_success then Some (e, l)
          else do {
            seg \<leftarrow> count_segments buf base h;
            case seg of
              Inl e \<Rightarrow> Some (e, l)
            | Inr cd \<Rightarrow>
                let l1 = l\<lparr>main_fn := if h_cip h = - 1 then 0 else ucast (h_cip h)\<rparr>
                in do {
                  r \<leftarrow> count_tables buf base (natives cbs) h cd;
                  case r of
                    Inl e \<Rightarrow> Some (e, l1)
                  | Inr c \<Rightarrow> load_image ops k buf base (natives cbs) h c l1 } } })"

section \<open>Lookups and destruction\<close>

text \<open>
  \<open>get_public\<close> and \<open>get_pubvar\<close>: the first entry whose name \<open>strcmp\<close> finds equal, or 0.
\<close>

definition name_at :: "('w::len, 'f, 'g, 'u, 'a) loader \<Rightarrow> 'w word \<Rightarrow> cstring option" where
  "name_at l p = c_string (str_mem l) (unat (p - str_base l))"

fun find_symbol ::
  "('w::len word \<Rightarrow> cstring option) \<Rightarrow> ('w word \<times> 'w word) list \<Rightarrow> cstring \<Rightarrow> 'w word option"
where
  "find_symbol rd [] v = Some 0"
| "find_symbol rd ((name, address) # es) v =
     do { s \<leftarrow> rd name; if strcmp_eq v s then Some address else find_symbol rd es v }"

definition get_public ::
  "('w::len, 'f, 'g, 'u, 'a) loader \<Rightarrow> cstring \<Rightarrow> 'w word option" where
  "get_public l v = find_symbol (name_at l) (publics_mem l) v"

definition get_pubvar ::
  "('w::len, 'f, 'g, 'u, 'a) loader \<Rightarrow> cstring \<Rightarrow> 'w word option" where
  "get_pubvar l v = find_symbol (name_at l) (pubvars_mem l) v"

definition get_main :: "('w::len, 'f, 'g, 'u, 'a) loader \<Rightarrow> 'w word" where
  "get_main l = main_fn l"

text \<open>The destructor frees the allocation, when there is one.\<close>

definition loader_frees :: "('w::len, 'f, 'g, 'u, 'a) loader \<Rightarrow> 'w word list" where
  "loader_frees l = (case alloc_block l of Some (block, _) \<Rightarrow> [block] | None \<Rightarrow> [])"

end
