(* ===== verification/Native_Args.thy ===== *)
theory Native_Args
  imports Loader
begin

text \<open>
  Calls from a module into the driver: the dispatch of \<open>amx::loader::amx_callback\<close>
  (\<open>PawnIO/amx_loader.h\<close>) and the argument wrappers of \<open>PawnIO/vm.cpp\<close>
  (\<open>arg_wrapper\<close>, \<open>init_wtuple\<close>, \<open>native_callback_wrapper2\<close>).

  The memory of the machine (\<open>PawnPP\<close>) is a parameter: \<open>v2p\<close> is \<open>data_v2p\<close> and
  \<open>tr\<close> is \<open>mem.data().translate\<close>, from addresses of the module to pointers of the host,
  \<open>None\<close> for null.  What those pointers point to is \<open>cells\<close>; \<open>world\<close> is everything
  else a native can change.  The native itself is a parameter of the wrapper: it gets the
  values of its arguments and returns its result and the values the reference arguments have
  then.
\<close>

section \<open>Data\<close>

text \<open>The errors of \<open>amx::error\<close> the driver itself returns, and the others.\<close>

datatype amx_error = AE_success | AE_invalid_operand | AE_access_violation | AE_other nat

record (overloaded) ('w) amx_mem =
  v2p :: "'w::len word \<Rightarrow> 'w word option"
  tr :: "'w word \<Rightarrow> 'w word option"

record (overloaded) ('w, 'x) host =
  cells :: "'w::len word \<Rightarrow> 'w word"
  world :: 'x

text \<open>Types of arguments: \<open>cell&\<close>, \<open>cell\<close>, \<open>std::array<cell, N>&\<close>, \<open>std::array<cell, N>\<close>.\<close>

datatype arg_type = CellRef | CellVal | ArrRef nat | ArrVal nat

datatype 'c arg_value = VCell 'c | VArr "'c list"

text \<open>A wrapper: the pointers it will write back through, and the value.\<close>

datatype 'c wrapper =
    WCellRef "'c option" 'c
  | WCellVal 'c
  | WArrRef "'c option list" "'c list"
  | WArrVal "'c list"

definition csize :: "'w::len itself \<Rightarrow> 'w word" where
  "csize _ = of_nat (sizeof_cell TYPE('w))"

section \<open>Argument wrappers\<close>

fun new_wrapper :: "arg_type \<Rightarrow> 'w::len word wrapper" where
  "new_wrapper CellRef = WCellRef None 0"
| "new_wrapper CellVal = WCellVal 0"
| "new_wrapper (ArrRef n) = WArrRef (replicate n None) (replicate n 0)"
| "new_wrapper (ArrVal n) = WArrVal (replicate n 0)"

text \<open>
  The loop over the elements of an array, from element \<open>i\<close> on: the pointers and values
  stored before the first element that is not mapped, and whether there was one.
\<close>

fun array_elems ::
  "'w::len amx_mem \<Rightarrow> ('w word \<Rightarrow> 'w word) \<Rightarrow> 'w word \<Rightarrow> nat \<Rightarrow> nat \<Rightarrow> ('w word \<times> 'w word) list \<times> bool"
where
  "array_elems am cs arr_base i 0 = ([], True)"
| "array_elems am cs arr_base i (Suc k) =
     (case tr am (arr_base + of_nat i * csize TYPE('w)) of
        None \<Rightarrow> ([], False)
      | Some elem \<Rightarrow>
          (let (es, ok) = array_elems am cs arr_base (Suc i) k in ((elem, cs elem) # es, ok)))"

text \<open>\<open>arg_wrapper<T, Index>::init\<close>\<close>

definition init_arg ::
  "'w::len amx_mem \<Rightarrow> ('w word \<Rightarrow> 'w word) \<Rightarrow> 'w word \<Rightarrow> nat \<Rightarrow> arg_type \<Rightarrow> 'w word wrapper \<times> amx_error"
where
  "init_arg am cs argv idx t =
    (case v2p am (argv + of_nat idx * csize TYPE('w)) of
       None \<Rightarrow> (new_wrapper t, AE_access_violation)
     | Some p \<Rightarrow>
        (case t of
           CellRef \<Rightarrow>
             (case tr am (cs p) of
                None \<Rightarrow> (new_wrapper t, AE_access_violation)
              | Some q \<Rightarrow> (WCellRef (Some q) 0, AE_success))
         | CellVal \<Rightarrow> (WCellVal (cs p), AE_success)
         | ArrRef n \<Rightarrow>
             (let (es, ok) = array_elems am cs (cs p) 0 n;
                  values = map snd es @ replicate (n - length es) 0
              in if ok then (WArrRef (map (Some \<circ> fst) es) values, AE_success)
                 else (WArrRef (replicate n None) values, AE_access_violation))
         | ArrVal n \<Rightarrow>
             (let (es, ok) = array_elems am cs (cs p) 0 n;
                  values = map snd es @ replicate (n - length es) 0
              in (WArrVal values, if ok then AE_success else AE_access_violation))))"

text \<open>
  \<open>init_wtuple\<close>: the wrappers are initialised in order until one fails; the ones after it
  stay as constructed.
\<close>

fun init_args ::
  "'w::len amx_mem \<Rightarrow> ('w word \<Rightarrow> 'w word) \<Rightarrow> 'w word \<Rightarrow> nat \<Rightarrow> arg_type list \<Rightarrow> 'w word wrapper list \<times> amx_error"
where
  "init_args am cs argv i [] = ([], AE_success)"
| "init_args am cs argv i (t # ts) =
     (let (w, err) = init_arg am cs argv i t
      in if err \<noteq> AE_success then (w # map new_wrapper ts, err)
         else (let (ws, err') = init_args am cs argv (Suc i) ts in (w # ws, err')))"

fun wrapper_value :: "'w::len word wrapper \<Rightarrow> 'w word arg_value" where
  "wrapper_value (WCellRef p v) = VCell v"
| "wrapper_value (WCellVal v) = VCell v"
| "wrapper_value (WArrRef ps vs) = VArr vs"
| "wrapper_value (WArrVal vs) = VArr vs"

text \<open>The native assigns to its reference parameters; the others are copies.\<close>

fun set_value :: "'w::len word wrapper \<Rightarrow> 'w word arg_value \<Rightarrow> 'w word wrapper" where
  "set_value (WCellRef p v) (VCell x) = WCellRef p x"
| "set_value (WArrRef ps vs) (VArr xs) = WArrRef ps xs"
| "set_value w x = w"

text \<open>
  The destructors write the values back.  \<open>~arg_wrapper<cell&>\<close> tests its pointer,
  \<open>~arg_wrapper<array&>\<close> does not; a write through null has no defined result.  The
  wrappers are destroyed in the order of the arguments.
\<close>

fun write_array ::
  "'w::len word option list \<Rightarrow> 'w word list \<Rightarrow> ('w word \<Rightarrow> 'w word) \<Rightarrow> ('w word \<Rightarrow> 'w word) option"
where
  "write_array [] vs cs = Some cs"
| "write_array (p # ps) vs cs =
     (case p of None \<Rightarrow> None
      | Some q \<Rightarrow> write_array ps (tl vs) (cs(q := hd vs)))"

fun destroy_wrapper :: "'w::len word wrapper \<Rightarrow> ('w word \<Rightarrow> 'w word) \<Rightarrow> ('w word \<Rightarrow> 'w word) option" where
  "destroy_wrapper (WCellRef p v) cs = Some (case p of None \<Rightarrow> cs | Some q \<Rightarrow> cs(q := v))"
| "destroy_wrapper (WCellVal v) cs = Some cs"
| "destroy_wrapper (WArrRef ps vs) cs = write_array ps vs cs"
| "destroy_wrapper (WArrVal vs) cs = Some cs"

fun destroy_wrappers ::
  "'w::len word wrapper list \<Rightarrow> ('w word \<Rightarrow> 'w word) \<Rightarrow> ('w word \<Rightarrow> 'w word) option" where
  "destroy_wrappers [] cs = Some cs"
| "destroy_wrappers (w # ws) cs = do { cs' \<leftarrow> destroy_wrapper w cs; destroy_wrappers ws cs' }"

section \<open>Calling a native\<close>

text \<open>
  A native: its argument types, and what it does with the values.  A result \<open>None\<close> inside
  is \<open>void\<close>.
\<close>

record (overloaded) ('w, 'x) native_fn =
  arg_types :: "arg_type list"
  body :: "'w::len word arg_value list \<Rightarrow> ('w, 'x) host \<Rightarrow>
    ('w word option \<times> 'w word arg_value list \<times> ('w, 'x) host) option"

text \<open>\<open>native_callback_wrapper2\<close>: the error, the new value of \<open>retval\<close>, the new state.\<close>

definition native_callback_wrapper2 ::
  "('w::len, 'x) native_fn \<Rightarrow> 'w amx_mem \<Rightarrow> 'w word \<Rightarrow> 'w word \<Rightarrow> 'w word \<Rightarrow> ('w, 'x) host \<Rightarrow>
   (amx_error \<times> 'w word \<times> ('w, 'x) host) option"
where
  "native_callback_wrapper2 fn am argc argv retval st =
    (if argc \<noteq> of_nat (length (arg_types fn)) then Some (AE_invalid_operand, retval, st)
     else let (ws, err) = init_args am (cells st) argv 0 (arg_types fn)
          in if err \<noteq> AE_success
             then do { cs \<leftarrow> destroy_wrappers ws (cells st); Some (err, retval, st\<lparr>cells := cs\<rparr>) }
             else do {
               (ret, vs, st1) \<leftarrow> body fn (map wrapper_value ws) st;
               cs \<leftarrow> destroy_wrappers (map2 set_value ws vs) (cells st1);
               Some (AE_success, case ret of None \<Rightarrow> 0 | Some r \<Rightarrow> r, st1\<lparr>cells := cs\<rparr>) })"

text \<open>
  \<open>amx_callback\<close>: the machine calls back with the index of a native, or one of two
  reserved indices.  \<open>ss\<close> and \<open>br\<close> are \<open>cbid_single_step\<close> and \<open>cbid_break\<close> of
  \<open>PawnPP\<close>; the call gets \<open>argc\<close>, \<open>argv\<close> and \<open>pri\<close>.
\<close>

definition amx_callback ::
  "'w::len word \<Rightarrow> 'w word \<Rightarrow> ('g \<Rightarrow> ('w, 'x) host \<Rightarrow> (amx_error \<times> ('w, 'x) host) option) \<Rightarrow>
   ('f \<Rightarrow> 'w word \<Rightarrow> 'w word \<Rightarrow> 'w word \<Rightarrow> ('w, 'x) host \<Rightarrow> (amx_error \<times> 'w word \<times> ('w, 'x) host) option) \<Rightarrow>
   ('w, 'f, 'g, 'u, 'a) loader \<Rightarrow> 'w amx_mem \<Rightarrow> 'w word \<Rightarrow> 'w word \<Rightarrow> 'w word \<Rightarrow> ('w, 'x) host \<Rightarrow>
   (amx_error \<times> 'w word \<times> ('w, 'x) host) option"
where
  "amx_callback ss br run_hook call_native l am index stk pri st =
    (if index = ss
     then (case l_single_step l of None \<Rightarrow> Some (AE_success, pri, st) | Some g \<Rightarrow> map_option (\<lambda>(e, st'). (e, pri, st')) (run_hook g st))
     else if index = br
     then (case l_break l of None \<Rightarrow> Some (AE_success, pri, st) | Some g \<Rightarrow> map_option (\<lambda>(e, st'). (e, pri, st')) (run_hook g st))
     else if index \<ge> natives_count l then Some (AE_invalid_operand, pri, st)
     else (case v2p am stk of
             None \<Rightarrow> Some (AE_access_violation, pri, st)
           | Some pargc \<Rightarrow>
               (if unat index < length (natives_mem l)
                then (case natives_mem l ! unat index of
                        None \<Rightarrow> None
                      | Some f \<Rightarrow> call_native f (cells st pargc div csize TYPE('w)) (stk + csize TYPE('w)) pri st)
                else None)))"

section \<open>When a wrapper can be destroyed\<close>

fun writable :: "'c wrapper \<Rightarrow> bool" where
  "writable (WArrRef ps vs) \<longleftrightarrow> None \<notin> set ps"
| "writable _ \<longleftrightarrow> True"

lemma write_array_None: "write_array ps vs cs = None \<longleftrightarrow> None \<in> set ps"
  by (induction ps arbitrary: vs cs) (auto split: option.splits)

lemma destroy_wrapper_None: "destroy_wrapper w cs = None \<longleftrightarrow> \<not> writable w"
  by (cases w) (auto simp: write_array_None)

lemma destroy_wrappers_None: "destroy_wrappers ws cs = None \<longleftrightarrow> (\<exists>w \<in> set ws. \<not> writable w)"
proof (induction ws arbitrary: cs)
  case Nil
  then show ?case by simp
next
  case (Cons w ws)
  then show ?case
    using destroy_wrapper_None [of w cs] by (cases "destroy_wrapper w cs") auto
qed

text \<open>A type whose wrapper, as constructed, has null pointers that the destructor follows.\<close>

definition unsafe_arg :: "arg_type \<Rightarrow> bool" where
  "unsafe_arg t \<longleftrightarrow> (\<exists>n. t = ArrRef n \<and> 0 < n)"

lemma new_wrapper_writable: "writable (new_wrapper t :: 'w::len word wrapper) \<longleftrightarrow> \<not> unsafe_arg t"
  by (cases t) (auto simp: unsafe_arg_def)

lemma init_arg_failed:
  "snd (init_arg am cs argv j t) \<noteq> AE_success \<Longrightarrow>
   writable (fst (init_arg am cs argv j t)) \<longleftrightarrow> \<not> unsafe_arg t"
  by (cases t) (auto simp: init_arg_def unsafe_arg_def new_wrapper_writable Let_def
      split: option.splits prod.splits if_splits)

lemma init_arg_done:
  "snd (init_arg am cs argv j t) = AE_success \<Longrightarrow> writable (fst (init_arg am cs argv j t))"
  by (cases t) (auto simp: init_arg_def Let_def split: option.splits prod.splits if_splits)

lemma init_args_failed:
  assumes "k < length ts"
    and "\<forall>j < k. snd (init_arg am cs argv (i + j) (ts ! j)) = AE_success"
    and "snd (init_arg am cs argv (i + k) (ts ! k)) \<noteq> AE_success"
  shows "snd (init_args am cs argv i ts) = snd (init_arg am cs argv (i + k) (ts ! k))"
    and "(\<exists>w \<in> set (fst (init_args am cs argv i ts)). \<not> writable w) \<longleftrightarrow>
      (\<exists>t \<in> set (drop k ts). unsafe_arg t)"
  using assms
proof (induction ts arbitrary: i k)
  case Nil
  {
    case 1
    then show ?case by simp
  next
    case 2
    then show ?case by simp
  }
next
  case (Cons t ts)
  {
    case 1
    obtain w err where w: "init_arg am cs argv i t = (w, err)" by (cases "init_arg am cs argv i t")
    obtain ws err' where ws: "init_args am cs argv (Suc i) ts = (ws, err')"
      by (cases "init_args am cs argv (Suc i) ts")
    show ?case
    proof (cases k)
      case 0
      with 1 show ?thesis by (simp add: w)
    next
      case (Suc k')
      have e: "err = AE_success" using 1(2) Suc w by (force dest: spec [of _ 0])
      have "snd (init_args am cs argv (Suc i) ts) = snd (init_arg am cs argv (Suc i + k') (ts ! k'))"
        using 1 Suc by (intro Cons.IH(1)) auto
      then show ?thesis using w ws e Suc by simp
    qed
  next
    case 2
    obtain w err where w: "init_arg am cs argv i t = (w, err)" by (cases "init_arg am cs argv i t")
    obtain ws err' where ws: "init_args am cs argv (Suc i) ts = (ws, err')"
      by (cases "init_args am cs argv (Suc i) ts")
    show ?case
    proof (cases k)
      case 0
      with 2 w have "\<not> writable w \<longleftrightarrow> unsafe_arg t" using init_arg_failed [of am cs argv i t] by simp
      then show ?thesis using 2 0 w by (auto simp: new_wrapper_writable)
    next
      case (Suc k')
      have e: "err = AE_success" using 2(2) Suc w by (force dest: spec [of _ 0])
      then have "writable w" using init_arg_done [of am cs argv i t] w by simp
      moreover have "(\<exists>w \<in> set (fst (init_args am cs argv (Suc i) ts)). \<not> writable w) \<longleftrightarrow>
          (\<exists>t \<in> set (drop k' ts). unsafe_arg t)"
        using 2 Suc by (intro Cons.IH(2)) auto
      ultimately show ?thesis using w ws e Suc by auto
    qed
  }
qed

text \<open>
  C37: when argument \<open>k\<close> of a native cannot be read, the native is not called; the call
  returns the error without touching \<open>retval\<close>, unless argument \<open>k\<close> or a later one is a
  reference to a non-empty array: then the destructor of its wrapper writes through a null
  pointer.
\<close>

theorem native_argument_failure:
  assumes "argc = of_nat (length (arg_types fn))" and "k < length (arg_types fn)"
    and "\<forall>j < k. snd (init_arg am (cells st) argv j (arg_types fn ! j)) = AE_success"
    and "snd (init_arg am (cells st) argv k (arg_types fn ! k)) = err" and "err \<noteq> AE_success"
  shows "if \<exists>t \<in> set (drop k (arg_types fn)). unsafe_arg t
    then native_callback_wrapper2 fn am argc argv retval st = None
    else \<exists>cs. native_callback_wrapper2 fn am argc argv retval st = Some (err, retval, st\<lparr>cells := cs\<rparr>)"
proof -
  obtain ws e where ws: "init_args am (cells st) argv 0 (arg_types fn) = (ws, e)"
    by (cases "init_args am (cells st) argv 0 (arg_types fn)")
  have f: "e = err" "(\<exists>w \<in> set ws. \<not> writable w) \<longleftrightarrow> (\<exists>t \<in> set (drop k (arg_types fn)). unsafe_arg t)"
    using init_args_failed [of k "arg_types fn" am "cells st" argv 0] assms ws by auto
  show ?thesis
    using destroy_wrappers_None [of ws "cells st"] f assms(1,5)
    by (cases "destroy_wrappers ws (cells st)")
      (auto simp: native_callback_wrapper2_def ws Let_def)
qed

section \<open>What a native sees and changes\<close>

text \<open>
  The plain reading of the arguments: the value argument \<open>j\<close> has, and the host cells it
  refers to.  A \<open>cell&\<close> starts as 0, whatever the module stored there.
\<close>

definition arg_slot :: "'w::len amx_mem \<Rightarrow> ('w word \<Rightarrow> 'w word) \<Rightarrow> 'w word \<Rightarrow> nat \<Rightarrow> 'w word" where
  "arg_slot am cs argv j = cs (the (v2p am (argv + of_nat j * csize TYPE('w))))"

definition array_targets :: "'w::len amx_mem \<Rightarrow> 'w word \<Rightarrow> nat \<Rightarrow> 'w word list" where
  "array_targets am b n = map (\<lambda>i. the (tr am (b + of_nat i * csize TYPE('w)))) [0..<n]"

definition arg_meaning ::
  "'w::len amx_mem \<Rightarrow> ('w word \<Rightarrow> 'w word) \<Rightarrow> 'w word \<Rightarrow> nat \<Rightarrow> arg_type \<Rightarrow> 'w word arg_value"
where
  "arg_meaning am cs argv j t =
    (case t of
       CellRef \<Rightarrow> VCell 0
     | CellVal \<Rightarrow> VCell (arg_slot am cs argv j)
     | ArrRef n \<Rightarrow> VArr (map cs (array_targets am (arg_slot am cs argv j) n))
     | ArrVal n \<Rightarrow> VArr (map cs (array_targets am (arg_slot am cs argv j) n)))"

definition arg_targets ::
  "'w::len amx_mem \<Rightarrow> ('w word \<Rightarrow> 'w word) \<Rightarrow> 'w word \<Rightarrow> nat \<Rightarrow> arg_type \<Rightarrow> 'w word list"
where
  "arg_targets am cs argv j t =
    (case t of
       CellRef \<Rightarrow> [the (tr am (arg_slot am cs argv j))]
     | ArrRef n \<Rightarrow> array_targets am (arg_slot am cs argv j) n
     | _ \<Rightarrow> [])"

fun value_cells :: "'c arg_value \<Rightarrow> 'c list" where
  "value_cells (VCell v) = [v]"
| "value_cells (VArr vs) = vs"

text \<open>The values a native leaves have the types of its parameters.\<close>

fun well_typed :: "arg_type \<Rightarrow> 'c arg_value \<Rightarrow> bool" where
  "well_typed CellRef v \<longleftrightarrow> (\<exists>x. v = VCell x)"
| "well_typed CellVal v \<longleftrightarrow> (\<exists>x. v = VCell x)"
| "well_typed (ArrRef n) v \<longleftrightarrow> (\<exists>xs. v = VArr xs \<and> length xs = n)"
| "well_typed (ArrVal n) v \<longleftrightarrow> (\<exists>xs. v = VArr xs \<and> length xs = n)"

definition store_all :: "('w::len word \<times> 'w word) list \<Rightarrow> ('w word \<Rightarrow> 'w word) \<Rightarrow> ('w word \<Rightarrow> 'w word)" where
  "store_all = fold (\<lambda>(p, v) cs. cs(p := v))"

lemma store_all_simps [simp]:
  "store_all [] cs = cs" "store_all ((p, v) # xs) cs = store_all xs (cs(p := v))"
  "store_all (xs @ ys) cs = store_all ys (store_all xs cs)"
  by (simp_all add: store_all_def)

lemma store_all_frame: "p \<notin> fst ` set xs \<Longrightarrow> store_all xs cs p = cs p"
  by (induction xs arbitrary: cs) auto

lemma write_array_store:
  "length ps = length vs \<Longrightarrow> write_array (map Some ps) vs cs = Some (store_all (zip ps vs) cs)"
  by (induction ps vs arbitrary: cs rule: list_induct2) auto

lemma array_elems_all:
  fixes am :: "'w::len amx_mem"
  assumes "snd (array_elems am cs b i k)"
  shows "fst (array_elems am cs b i k) =
    map (\<lambda>j. (the (tr am (b + of_nat j * csize TYPE('w))), cs (the (tr am (b + of_nat j * csize TYPE('w))))))
      [i..<i + k]"
  using assms
proof (induction k arbitrary: i)
  case 0
  then show ?case by simp
next
  case (Suc k)
  obtain e where e: "tr am (b + of_nat i * csize TYPE('w)) = Some e"
    using Suc.prems by (auto split: option.splits)
  then have "snd (array_elems am cs b (Suc i) k)" using Suc.prems by (simp add: case_prod_beta)
  note IH = Suc.IH [OF this]
  have "[i..<i + Suc k] = i # [Suc i..<Suc i + k]" by (simp add: upt_conv_Cons)
  then show ?case using IH e by (simp add: case_prod_beta del: upt_Suc)
qed

lemma array_elems_numeral [simp]:
  "array_elems am cs b i (numeral k) =
    (case tr am (b + of_nat i * csize TYPE('w::len)) of
       None \<Rightarrow> ([], False)
     | Some elem \<Rightarrow>
        (let (es, ok) = array_elems am cs (b :: 'w word) (Suc i) (pred_numeral k)
         in ((elem, cs elem) # es, ok)))"
  by (simp add: numeral_eq_Suc)

lemma array_elems_targets:
  fixes am :: "'w::len amx_mem"
  assumes "array_elems am cs b 0 n = (es, True)"
  shows "map fst es = array_targets am b n" and "map snd es = map cs (array_targets am b n)"
    and "length es = n"
  using array_elems_all [of am cs b 0 n] assms by (simp_all add: array_targets_def)

lemma init_arg_success:
  fixes am :: "'w::len amx_mem"
  assumes "snd (init_arg am cs argv j t) = AE_success"
  shows "wrapper_value (fst (init_arg am cs argv j t)) = arg_meaning am cs argv j t"
    and "well_typed t v \<Longrightarrow>
      destroy_wrapper (set_value (fst (init_arg am cs argv j t)) v) cs' =
        Some (store_all (zip (arg_targets am cs argv j t) (value_cells v)) cs')"
proof -
  note elems = array_elems_targets
  show "wrapper_value (fst (init_arg am cs argv j t)) = arg_meaning am cs argv j t"
    using assms
    by (cases t) (auto simp: elems init_arg_def arg_meaning_def arg_slot_def Let_def
        split: option.splits prod.splits if_splits)
  have wr: "write_array (map (Some \<circ> fst) es) xs cs' = Some (store_all (zip (map fst es) xs) cs')"
    if "length es = length xs" for es :: "('w word \<times> 'w word) list" and xs
    using write_array_store [of "map fst es" xs cs'] that by simp
  show "destroy_wrapper (set_value (fst (init_arg am cs argv j t)) v) cs' =
        Some (store_all (zip (arg_targets am cs argv j t) (value_cells v)) cs')"
    if "well_typed t v"
    using assms that
    by (cases t) (auto simp: elems wr init_arg_def arg_targets_def arg_slot_def Let_def
        split: option.splits prod.splits if_splits)
qed


lemma init_args_success:
  assumes "\<forall>j < length ts. snd (init_arg am cs argv (i + j) (ts ! j)) = AE_success"
  shows "init_args am cs argv i ts =
    (map (\<lambda>j. fst (init_arg am cs argv (i + j) (ts ! j))) [0..<length ts], AE_success)"
  using assms
proof (induction ts arbitrary: i)
  case Nil
  then show ?case by simp
next
  case (Cons t ts)
  have t: "snd (init_arg am cs argv i t) = AE_success" using Cons.prems by (auto dest: spec [of _ 0])
  have "init_args am cs argv (Suc i) ts =
      (map (\<lambda>j. fst (init_arg am cs argv (Suc i + j) (ts ! j))) [0..<length ts], AE_success)"
    using Cons.prems by (intro Cons.IH) auto
  then show ?case
    using t by (auto simp: upt_conv_Cons map_Suc_upt [symmetric] comp_def split: prod.splits
        simp del: upt_Suc)
qed

text \<open>The write-backs of a whole call: target by target, in the order of the arguments.\<close>

definition write_backs ::
  "'w::len amx_mem \<Rightarrow> ('w word \<Rightarrow> 'w word) \<Rightarrow> 'w word \<Rightarrow> arg_type list \<Rightarrow> 'w word arg_value list \<Rightarrow>
   ('w word \<times> 'w word) list"
where
  "write_backs am cs argv ts vs =
    concat (map (\<lambda>j. zip (arg_targets am cs argv j (ts ! j)) (value_cells (vs ! j))) [0..<length ts])"

lemma destroy_all:
  assumes "\<forall>j \<in> set js. destroy_wrapper (f j) = (\<lambda>cs. Some (store_all (g j) cs))"
  shows "destroy_wrappers (map f js) cs = Some (store_all (concat (map g js)) cs)"
  using assms by (induction js arbitrary: cs) auto

text \<open>
  C16: a native whose arguments can all be read is called with exactly their values; its
  result becomes \<open>retval\<close> (0 for \<open>void\<close>), and the values of its reference arguments are
  written back to the cells they refer to, and to no others.
\<close>

theorem native_call_result:
  assumes "argc = of_nat (length (arg_types fn))"
    and "\<forall>j < length (arg_types fn). snd (init_arg am (cells st) argv j (arg_types fn ! j)) = AE_success"
    and "body fn (map (\<lambda>j. arg_meaning am (cells st) argv j (arg_types fn ! j)) [0..<length (arg_types fn)]) st
      = Some (ret, vs, st1)"
    and "list_all2 well_typed (arg_types fn) vs"
  shows "native_callback_wrapper2 fn am argc argv retval st =
    Some (AE_success, case ret of None \<Rightarrow> 0 | Some r \<Rightarrow> r,
      st1\<lparr>cells := store_all (write_backs am (cells st) argv (arg_types fn) vs) (cells st1)\<rparr>)"
proof -
  let ?ts = "arg_types fn" and ?cs = "cells st"
  let ?w = "\<lambda>j. fst (init_arg am ?cs argv j (?ts ! j))"
  have ia: "init_args am ?cs argv 0 ?ts = (map ?w [0..<length ?ts], AE_success)"
    using init_args_success [of ?ts am ?cs argv 0] assms(2) by simp
  have vals: "map wrapper_value (map ?w [0..<length ?ts]) =
      map (\<lambda>j. arg_meaning am ?cs argv j (?ts ! j)) [0..<length ?ts]"
    using assms(2) by (auto intro!: init_arg_success(1))
  have len: "length vs = length ?ts" using assms(4) by (simp add: list_all2_lengthD)
  have m: "map2 set_value (map ?w [0..<length ?ts]) vs = map (\<lambda>j. set_value (?w j) (vs ! j)) [0..<length ?ts]"
    using len by (intro nth_equalityI) simp_all
  have "destroy_wrappers (map (\<lambda>j. set_value (?w j) (vs ! j)) [0..<length ?ts]) (cells st1) =
      Some (store_all (write_backs am ?cs argv ?ts vs) (cells st1))"
    unfolding write_backs_def
    using assms(2,4)
    by (intro destroy_all) (auto simp: list_all2_conv_all_nth fun_eq_iff intro!: init_arg_success(2))
  then show ?thesis
    using assms(1,3) unfolding native_callback_wrapper2_def ia Let_def prod.case vals [symmetric] m [symmetric]
    by simp
qed

text \<open>A native \<open>n(cell, cell&, array<cell, 2>&)\<close> for the witnesses: stores its first argument.\<close>

definition sample_native :: "(64, unit) native_fn" where
  "sample_native = \<lparr>arg_types = [CellVal, CellRef, ArrRef 2],
     body = (\<lambda>vs st. case vs of VCell a # _ \<Rightarrow> Some (Some 1, [VCell a, VCell (a + 1), VArr [a, a]], st)
       | _ \<Rightarrow> None)\<rparr>"

text \<open>Host cell \<open>1000 + a / 8\<close> holds the module's address \<open>a\<close>, below 800.\<close>

definition sample_mem :: "64 amx_mem" where
  "sample_mem = \<lparr>v2p = (\<lambda>a. if a < 800 then Some (1000 + a div 8) else None),
     tr = (\<lambda>a. if a < 800 then Some (1000 + a div 8) else None)\<rparr>"

definition sample_host :: "64 word \<Rightarrow> (64, unit) host" where
  "sample_host arr = \<lparr>cells = (\<lambda>p. if p = 1000 then 5 else if p = 1001 then 80
     else if p = 1002 then arr else 0), world = ()\<rparr>"

lemmas sample_native_eval =
  sample_native_def sample_mem_def sample_host_def init_arg_def csize_def Let_def unsafe_arg_def
  arg_meaning_def arg_slot_def array_targets_def arg_targets_def write_backs_def

lemma all_below_two: "(\<forall>j < 2. P j) \<longleftrightarrow> P 0 \<and> P (1 :: nat)"
  by (auto simp: less_Suc_eq numeral_2_eq_2)

theorem native_call_result_witness:
  "\<exists>st'. native_callback_wrapper2 sample_native sample_mem 3 0 9 (sample_host 160) = Some (AE_success, 1, st')
     \<and> cells st' 1010 = 6 \<and> cells st' 1020 = 5 \<and> cells st' 1021 = 5"
proof -
  let ?st = "sample_host 160"
  have n: "arg_types sample_native = [CellVal, CellRef, ArrRef 2]" by (simp add: sample_native_def)
  have ok: "\<forall>j < length (arg_types sample_native).
      snd (init_arg sample_mem (cells ?st) 0 j (arg_types sample_native ! j)) = AE_success"
    unfolding n by (simp add: sample_native_eval less_Suc_eq)
  have vals: "map (\<lambda>j. arg_meaning sample_mem (cells ?st) 0 j (arg_types sample_native ! j))
      [0..<length (arg_types sample_native)] = [VCell 5, VCell 0, VArr [0, 0]]"
    unfolding n by (simp add: sample_native_eval upt_conv_Cons)
  have "native_callback_wrapper2 sample_native sample_mem 3 0 9 ?st = Some (AE_success, case Some 1 of None \<Rightarrow> 0 | Some r \<Rightarrow> r,
      ?st\<lparr>cells := store_all (write_backs sample_mem (cells ?st) 0 (arg_types sample_native)
        [VCell 5, VCell 6, VArr [5, 5]]) (cells ?st)\<rparr>)"
    by (rule native_call_result [OF _ ok]) (unfold vals, simp_all add: sample_native_def)
  then show ?thesis
    by (simp add: n sample_native_eval upt_conv_Cons)
qed

text \<open>The same call with an array outside the memory of the module: a null write.\<close>

theorem native_argument_failure_witness:
  "native_callback_wrapper2 sample_native sample_mem 3 0 9 (sample_host 8000) = None"
proof -
  let ?st = "sample_host 8000"
  have n: "arg_types sample_native = [CellVal, CellRef, ArrRef 2]" by (simp add: sample_native_def)
  have "if \<exists>t \<in> set (drop 2 (arg_types sample_native)). unsafe_arg t
    then native_callback_wrapper2 sample_native sample_mem 3 0 9 ?st = None
    else \<exists>cs. native_callback_wrapper2 sample_native sample_mem 3 0 9 ?st = Some (AE_access_violation, 9, ?st\<lparr>cells := cs\<rparr>)"
    by (rule native_argument_failure, unfold all_below_two) (simp_all add: n sample_native_eval)
  then show ?thesis by (simp add: n unsafe_arg_def)
qed

section \<open>Dispatch\<close>

text \<open>
  in a loaded module (a native table without null entries, and no hooks), a call-back
  with the index of an import runs that native with the arguments on the module's stack; any
  other index, and a stack pointer outside the module's memory, is answered with an error and
  changes nothing.
\<close>

theorem callback_dispatch:
  fixes l :: "('w::len, 'f, 'g, 'u, 'a) loader"
  assumes "natives_mem l = map Some fs" and "natives_count l = of_nat (length fs)"
    and "length fs < 2 ^ LENGTH('w)" and "l_single_step l = None" and "l_break l = None"
  shows "amx_callback ss br run_hook call_native l am index stk pri st =
    (if index = ss \<or> index = br then Some (AE_success, pri, st)
     else if length fs \<le> unat index then Some (AE_invalid_operand, pri, st)
     else case v2p am stk of
            None \<Rightarrow> Some (AE_access_violation, pri, st)
          | Some p \<Rightarrow> call_native (fs ! unat index) (cells st p div csize TYPE('w))
              (stk + csize TYPE('w)) pri st)"
proof -
  have n: "index \<ge> natives_count l \<longleftrightarrow> length fs \<le> unat index"
    using assms(2,3) by (simp add: word_le_nat_alt unat_of_nat_small)
  show ?thesis
    using assms(1,4,5) unfolding amx_callback_def n by (auto split: option.splits)
qed

definition sample_natives_loader :: "(64, 64 word, unit, unit, unit) loader" where
  "sample_natives_loader = (empty_loader ())\<lparr>natives_count := 2, natives_mem := map Some [10, 20]\<rparr>"

theorem callback_dispatch_witness:
  "amx_callback 0xFFFFFFFE 0xFFFFFFFF (\<lambda>g st. None)
      (\<lambda>f argc argv pri st. Some (AE_success, f + argv, st))
      sample_natives_loader sample_mem 1 0 0 (sample_host 160)
    = Some (AE_success, 28, sample_host 160)"
  using callback_dispatch [where l = sample_natives_loader and fs = "[10, 20]" and ss = "0xFFFFFFFE"
      and br = "0xFFFFFFFF" and run_hook = "\<lambda>g st. None" and am = sample_mem and index = 1 and stk = 0
      and call_native = "\<lambda>f argc argv pri st. Some (AE_success, f + argv, st)"
      and pri = 0 and st = "sample_host 160"]
  by (simp add: sample_natives_loader_def empty_loader_def sample_mem_def csize_def)

end
