(* ===== verification/Vm_Env.thy ===== *)
theory Vm_Env
  imports Callbacks Native_Args
begin

text \<open>
  What the handlers of \<open>PawnIO/vm.cpp\<close> share: the notifications of one virtual machine, the
  events a handler leaves, and the discipline of its mutex.

  A virtual machine is named by a value of type \<open>'v\<close> (the address of its \<open>context\<close>);
  \<open>'x\<close> is the state of the rest of the system.  Running the machine is \<open>AMX64\<close> code
  (\<open>PawnPP\<close>, a submodule) and a parameter: \<open>amx_call\<close> gives the error, the cell returned
  and the new state; \<open>amx_map\<close> makes a buffer of the host part of the data memory and gives
  its address there, \<open>amx_unmap\<close> takes it out again.
\<close>

section \<open>Environment\<close>

datatype ('v, 'cb, 'c) vm_ev =
    LockVm 'v
  | UnlockVm 'v
  | Notify vm_event 'v "('cb, vm_event) cb_event list"
  | RunAmx 'v 'c "'c list"
  | MapData 'v 'c 'c
  | UnmapData 'v 'c 'c
  | DestroyLoader 'v
  | PoolAlloc 'c
  | PoolFree 'c

record (overloaded) ('w, 'v, 'cb, 'p, 'x) vm_env =
  amx_call :: "'v \<Rightarrow> 'w::len word \<Rightarrow> 'w word list \<Rightarrow> 'x \<Rightarrow> amx_error \<times> 'w word \<times> 'x"
  amx_map :: "'v \<Rightarrow> 'w word \<Rightarrow> 'w word \<Rightarrow> 'x \<Rightarrow> ('w word \<times> 'x) option"
  amx_unmap :: "'v \<Rightarrow> 'w word \<Rightarrow> 'w word \<Rightarrow> 'x \<Rightarrow> 'x"
  cb_call :: "vm_event \<Rightarrow> 'v \<Rightarrow> 'w word \<Rightarrow> 'cb \<Rightarrow> 'x \<Rightarrow> ntstatus \<times> 'x"
  cb_heads :: "vm_event \<Rightarrow> 'p"
  cb_heap :: "('p, 'cb) lheap"

type_synonym ('w, 'v, 'cb) vm_trace = "('v, 'cb, 'w word) vm_ev list"

text \<open>The notifications of \<open>callbacks.cpp\<close> for the machine \<open>v\<close>.  Only \<open>precall\<close> has an address.\<close>

definition notify_created ::
  "('w::len, 'v, 'cb, 'p, 'x) vm_env \<Rightarrow> 'v \<Rightarrow> 'x \<Rightarrow> (ntstatus \<times> 'x \<times> ('w, 'v, 'cb) vm_trace) option"
where
  "notify_created env v x = do {
     (st, x', ev) \<leftarrow> vm_callback_created (cb_heads env) (cb_call env Created v 0) (cb_heap env) x;
     Some (st, x', [Notify Created v ev]) }"

definition notify_precall ::
  "('w::len, 'v, 'cb, 'p, 'x) vm_env \<Rightarrow> 'v \<Rightarrow> 'w word \<Rightarrow> 'x \<Rightarrow>
   (ntstatus \<times> 'x \<times> ('w, 'v, 'cb) vm_trace) option"
where
  "notify_precall env v cip x = do {
     (st, x', ev) \<leftarrow> vm_callback_precall (cb_heads env) (cb_call env Precall v) cip (cb_heap env) x;
     Some (st, x', [Notify Precall v ev]) }"

definition notify_postcall ::
  "('w::len, 'v, 'cb, 'p, 'x) vm_env \<Rightarrow> 'v \<Rightarrow> 'x \<Rightarrow> ('x \<times> ('w, 'v, 'cb) vm_trace) option"
where
  "notify_postcall env v x = do {
     (x', ev) \<leftarrow> vm_callback_postcall (cb_heads env) (cb_call env Postcall v 0) (cb_heap env) x;
     Some (x', [Notify Postcall v ev]) }"

definition notify_destroyed ::
  "('w::len, 'v, 'cb, 'p, 'x) vm_env \<Rightarrow> 'v \<Rightarrow> 'x \<Rightarrow> ('x \<times> ('w, 'v, 'cb) vm_trace) option"
where
  "notify_destroyed env v x = do {
     (x', ev) \<leftarrow> vm_callback_destroyed (cb_heads env) (cb_call env Destroyed v 0) (cb_heap env) x;
     Some (x', [Notify Destroyed v ev]) }"

text \<open>The four lists are well-formed, as \<open>vm_callback_init\<close> leaves them and registration keeps them.\<close>

definition env_ok :: "('w::len, 'v, 'cb, 'p, 'x) vm_env \<Rightarrow> bool" where
  "env_ok env \<longleftrightarrow> (\<forall>k. klist_values (cb_heads env k) (cb_heap env) \<noteq> None)"

lemma env_ok_values:
  assumes "env_ok env"
  obtains cbs where "klist_values (cb_heads env k) (cb_heap env) = Some cbs"
  using assms unfolding env_ok_def by (metis option.exhaust)

lemma env_ok_rings:
  assumes "\<And>k. \<exists>es. ring (cb_heads env k) (cb_heap env) es"
  shows "env_ok env"
  unfolding env_ok_def using assms klist_values_ring by (metis option.distinct(1))

lemma notify_created_runs:
  assumes "env_ok env"
  obtains st x' ev where "notify_created env v x = Some (st, x', [Notify Created v ev])"
proof -
  obtain cbs where "klist_values (cb_heads env Created) (cb_heap env) = Some cbs"
    using env_ok_values [OF assms] by blast
  then show ?thesis
    by (cases "status_loop (cb_call env Created v 0) cbs STATUS_SUCCESS x ::
          ntstatus \<times> _ \<times> (_, vm_event) cb_event list")
      (auto intro!: that simp: notify_created_def vm_callback_created_def cl_call_status_def s_list_def)
qed

lemma notify_precall_runs:
  assumes "env_ok env"
  obtains st x' ev where "notify_precall env v cip x = Some (st, x', [Notify Precall v ev])"
proof -
  obtain cbs where "klist_values (cb_heads env Precall) (cb_heap env) = Some cbs"
    using env_ok_values [OF assms] by blast
  then show ?thesis
    by (cases "status_loop (cb_call env Precall v cip) cbs STATUS_SUCCESS x ::
          ntstatus \<times> _ \<times> (_, vm_event) cb_event list")
      (auto intro!: that simp: notify_precall_def vm_callback_precall_def cl_call_status_def s_list_def)
qed

lemma notify_postcall_runs:
  assumes "env_ok env"
  obtains x' ev where "notify_postcall env v x = Some (x', [Notify Postcall v ev])"
proof -
  obtain cbs where "klist_values (cb_heads env Postcall) (cb_heap env) = Some cbs"
    using env_ok_values [OF assms] by blast
  then show ?thesis
    by (auto intro!: that simp: notify_postcall_def vm_callback_postcall_def cl_call_void_def
        s_list_def void_loop_result)
qed

lemma notify_destroyed_runs:
  assumes "env_ok env"
  obtains x' ev where "notify_destroyed env v x = Some (x', [Notify Destroyed v ev])"
proof -
  obtain cbs where "klist_values (cb_heads env Destroyed) (cb_heap env) = Some cbs"
    using env_ok_values [OF assms] by blast
  then show ?thesis
    by (auto intro!: that simp: notify_destroyed_def vm_callback_destroyed_def cl_call_void_def
        s_list_def void_loop_result)
qed

section \<open>The mutex of a machine\<close>

text \<open>
  \<open>run_mutex evs held\<close>: the machines locked after \<open>evs\<close>, \<open>None\<close> when a fast mutex is acquired
  that is already held (it is not recursive) or released when it is not, or when a
  notification or the machine runs without its lock.
\<close>

fun run_mutex :: "('v, 'cb, 'c) vm_ev list \<Rightarrow> 'v list \<Rightarrow> 'v list option" where
  "run_mutex [] held = Some held"
| "run_mutex (LockVm v # evs) held = (if v \<in> set held then None else run_mutex evs (v # held))"
| "run_mutex (UnlockVm v # evs) held = (if v \<in> set held then run_mutex evs (remove1 v held) else None)"
| "run_mutex (Notify k v e # evs) held = (if v \<in> set held then run_mutex evs held else None)"
| "run_mutex (RunAmx v c args # evs) held = (if v \<in> set held then run_mutex evs held else None)"
| "run_mutex (MapData v c n # evs) held = (if v \<in> set held then run_mutex evs held else None)"
| "run_mutex (UnmapData v c n # evs) held = (if v \<in> set held then run_mutex evs held else None)"
| "run_mutex (DestroyLoader v # evs) held = (if v \<in> set held then None else run_mutex evs held)"
| "run_mutex (PoolAlloc n # evs) held = run_mutex evs held"
| "run_mutex (PoolFree p # evs) held = run_mutex evs held"

interpretation mutex: trace_runner run_mutex
proof
  show "run_mutex (e # es) held = Option.bind (run_mutex [e] held) (run_mutex es)" for e es held
    by (cases e) simp_all
qed simp

text \<open>
  The calls of the machine in a trace are bracketed: every \<open>RunAmx\<close> directly follows a
  \<open>precall\<close> notification of the same machine and is directly followed by its \<open>postcall\<close>.
\<close>

datatype 'v call_phase = Outside | Announced 'v | Ran 'v

definition call_step :: "('v, 'cb, 'c) vm_ev \<Rightarrow> 'v call_phase \<Rightarrow> 'v call_phase option" where
  "call_step e ph =
    (case e of
       RunAmx v cip args \<Rightarrow> if ph = Announced v then Some (Ran v) else None
     | Notify k v evs \<Rightarrow>
         if k = Postcall then if ph = Ran v then Some Outside else None
         else (case ph of Ran v' \<Rightarrow> None | _ \<Rightarrow> Some (if k = Precall then Announced v else Outside))
     | _ \<Rightarrow> (case ph of Ran v' \<Rightarrow> None | _ \<Rightarrow> Some Outside))"

fun run_phase :: "('v, 'cb, 'c) vm_ev list \<Rightarrow> 'v call_phase \<Rightarrow> 'v call_phase option" where
  "run_phase [] ph = Some ph"
| "run_phase (e # evs) ph = Option.bind (call_step e ph) (run_phase evs)"

interpretation phase: trace_runner run_phase
proof
  show "run_phase (e # es) ph = Option.bind (run_phase [e] ph) (run_phase es)" for e es ph
    by (cases "call_step e ph") simp_all
qed simp

definition bracketed :: "('v, 'cb, 'c) vm_ev list \<Rightarrow> bool" where
  "bracketed evs \<longleftrightarrow> run_phase evs Outside = Some Outside"

lemma call_step_simps [simp]:
  "call_step (RunAmx v cip args) ph = (if ph = Announced v then Some (Ran v) else None)"
  "call_step (Notify Precall v evs) Outside = Some (Announced v)"
  "call_step (Notify Created v evs) Outside = Some Outside"
  "call_step (Notify Destroyed v evs) Outside = Some Outside"
  "call_step (Notify Postcall v evs) ph = (if ph = Ran v then Some Outside else None)"
  "call_step (LockVm v) Outside = Some Outside" "call_step (UnlockVm v) Outside = Some Outside"
  "call_step (LockVm v) (Announced v') = Some Outside" "call_step (UnlockVm v) (Announced v') = Some Outside"
  "call_step (MapData v c n) Outside = Some Outside" "call_step (UnmapData v c n) Outside = Some Outside"
  "call_step (UnmapData v c n) (Announced v') = Some Outside"
  "call_step (DestroyLoader v) Outside = Some Outside"
  "call_step (PoolAlloc m) Outside = Some Outside" "call_step (PoolFree p) Outside = Some Outside"
  "call_step (UnlockVm v) (Ran v') = None"
  by (simp_all add: call_step_def)

end
