(* ===== verification/Callback_Slots.thy ===== *)
theory Callback_Slots
  imports Vm_Env
begin

text \<open>
  Callbacks into a module (\<open>PawnIO/vm.cpp\<close>): a table of 256 slots, one per trampoline
  \<open>to_amx_callback<Idx>\<close>.  A module allocates a slot for one of its functions and gets the
  address of the trampoline; when the system calls it, the dispatch runs the function.

  \<open>fns i\<close> is the address of trampoline \<open>i\<close>.  The slots are shared by all machines, which run
  on different threads: the first half gives each operation as one function, the second half
  the same operations as sequences of accesses of the table that other threads interleave.
\<close>

section \<open>The table and the operations\<close>

record (overloaded) ('w, 'v) to_amx_callback_context =
  slot_cip :: "'w::len word"
  slot_ctx :: "'v option"

definition k_to_amx_callback_count :: nat where
  "k_to_amx_callback_count = 256"

type_synonym ('w, 'v) callback_table = "('w, 'v) to_amx_callback_context list"

text \<open>The trampolines are different functions, and no function is at address 0.\<close>

definition trampolines :: "(nat \<Rightarrow> 'w::len word) \<Rightarrow> bool" where
  "trampolines fns \<longleftrightarrow> inj_on fns {..<k_to_amx_callback_count}
     \<and> (\<forall>i < k_to_amx_callback_count. fns i \<noteq> 0)"

definition to_amx_callback_alloc ::
  "(nat \<Rightarrow> 'w::len word) \<Rightarrow> ('w, 'v) callback_table \<Rightarrow> 'v \<Rightarrow> 'w word \<Rightarrow> 'w word \<times> ('w, 'v) callback_table"
where
  "to_amx_callback_alloc fns t vm_ctx cip =
    (case find (\<lambda>i. slot_ctx (t ! i) = None) [0..<k_to_amx_callback_count] of
       None \<Rightarrow> (0, t)
     | Some i \<Rightarrow> (fns i, t[i := \<lparr>slot_cip = cip, slot_ctx = Some vm_ctx\<rparr>]))"

text \<open>\<open>None\<close>: \<open>__fastfail\<close>, the system stops.\<close>

definition to_amx_callback_free ::
  "(nat \<Rightarrow> 'w::len word) \<Rightarrow> ('w, 'v) callback_table \<Rightarrow> 'v \<Rightarrow> 'w word \<Rightarrow> ('w, 'v) callback_table option"
where
  "to_amx_callback_free fns t vm_ctx pfn =
    (case find (\<lambda>i. pfn = fns i) [0..<k_to_amx_callback_count] of
       None \<Rightarrow> None
     | Some i \<Rightarrow>
         if slot_ctx (t ! i) \<noteq> Some vm_ctx then None
         else Some (t[i := \<lparr>slot_cip = 0, slot_ctx = None\<rparr>]))"

definition to_amx_callback_alloc_wrap ::
  "(nat \<Rightarrow> 'w::len word) \<Rightarrow> 'w amx_mem \<Rightarrow> ('w word \<Rightarrow> 'w word) \<Rightarrow> ('w, 'v) callback_table \<Rightarrow> 'v \<Rightarrow>
   'w word \<Rightarrow> 'w word \<Rightarrow> 'w word \<Rightarrow> amx_error \<times> 'w word \<times> ('w, 'v) callback_table"
where
  "to_amx_callback_alloc_wrap fns am cs t user argc argv retval =
    (if argc \<noteq> 1 then (AE_invalid_operand, retval, t)
     else case v2p am argv of
       None \<Rightarrow> (AE_access_violation, retval, t)
     | Some pcip \<Rightarrow>
         (let (r, t') = to_amx_callback_alloc fns t user (cs pcip) in (AE_success, r, t')))"

definition to_amx_callback_free_wrap ::
  "(nat \<Rightarrow> 'w::len word) \<Rightarrow> 'w amx_mem \<Rightarrow> ('w word \<Rightarrow> 'w word) \<Rightarrow> ('w, 'v) callback_table \<Rightarrow> 'v \<Rightarrow>
   'w word \<Rightarrow> 'w word \<Rightarrow> (amx_error \<times> 'w word \<times> ('w, 'v) callback_table) option"
where
  "to_amx_callback_free_wrap fns am cs t user argc argv =
    (if argc \<noteq> 1 then Some (AE_invalid_operand, 0, t)
     else case v2p am argv of
       None \<Rightarrow> Some (AE_access_violation, 0, t)
     | Some ppfn \<Rightarrow> map_option (\<lambda>t'. (AE_success, 0, t')) (to_amx_callback_free fns t user (cs ppfn)))"

text \<open>
  The dispatch.  It reads the context of the slot, waits for the mutex of that machine, and
  then reads the address: \<open>t\<close> is the table at the first read and \<open>t'\<close> at the second.
\<close>

datatype fast_fail =
  FAST_FAIL_INVALID_JUMP_BUFFER | FAST_FAIL_GUARD_ICALL_CHECK_FAILURE | FAST_FAIL_INVALID_THREAD_STATE
| FAST_FAIL_ASAN_ERROR

definition to_amx_callback_dispatch ::
  "('w::len, 'v, 'cb, 'p, 'x) vm_env \<Rightarrow> ('w, 'v) callback_table \<Rightarrow> ('w, 'v) callback_table \<Rightarrow>
   nat \<Rightarrow> 'w word \<Rightarrow> 'x \<Rightarrow> ((fast_fail + 'w word) \<times> 'x \<times> ('w, 'v, 'cb) vm_trace) option"
where
  "to_amx_callback_dispatch env t t' idx args x =
    (case slot_ctx (t ! idx) of
       None \<Rightarrow> Some (Inl FAST_FAIL_INVALID_JUMP_BUFFER, x, [])
     | Some v \<Rightarrow>
        (let cip = slot_cip (t' ! idx)
         in if cip = 0 then Some (Inl FAST_FAIL_INVALID_JUMP_BUFFER, x, [LockVm v])
            else do {
              (st, x1, e1) \<leftarrow> notify_precall env v cip x;
              if \<not> NT_SUCCESS st
              then Some (Inl FAST_FAIL_GUARD_ICALL_CHECK_FAILURE, x1, LockVm v # e1)
              else (let (res, ret, x2) = amx_call env v cip [args] x1;
                        tr = LockVm v # e1 @ [RunAmx v cip [args]]
                    in if res \<noteq> AE_success then Some (Inl FAST_FAIL_INVALID_THREAD_STATE, x2, tr)
                       else Some (Inr ret, x2, tr @ [UnlockVm v])) }))"

text \<open>
  The trampolines: one function per index, the function at \<open>i\<close> being the instance \<open>&to_amx_callback<i>\<close>
  of the template.  The caller passes any number of arguments; the machine gets where they are,
  from the address of the first one.  What the intrinsic of x64 makes of that address is a
  parameter, \<open>va_start\<close>; the one of x86 is that of C, which starts behind the named parameter.
\<close>

definition k_to_amx_callback_fns :: "(nat \<Rightarrow> 'f) \<Rightarrow> 'f list" where
  "k_to_amx_callback_fns instance_of = map instance_of [0..<k_to_amx_callback_count]"

definition x86_va_start :: "32 word \<Rightarrow> 32 word" where
  "x86_va_start first_arg = first_arg + 4"

definition to_amx_callback ::
  "('w word \<Rightarrow> 'w word) \<Rightarrow> ('w::len, 'v, 'cb, 'p, 'x) vm_env \<Rightarrow> ('w, 'v) callback_table \<Rightarrow>
   ('w, 'v) callback_table \<Rightarrow> nat \<Rightarrow> 'w word \<Rightarrow> 'x \<Rightarrow>
   ((fast_fail + 'w word) \<times> 'x \<times> ('w, 'v, 'cb) vm_trace) option"
where
  "to_amx_callback va_start env t t' idx first_arg x =
    (let args = va_start first_arg in to_amx_callback_dispatch env t t' idx args x)"

text \<open>What the kernel runs when it calls the \<open>i\<close>-th trampoline.\<close>

definition call_trampoline ::
  "('w word \<Rightarrow> 'w word) \<Rightarrow> ('w::len, 'v, 'cb, 'p, 'x) vm_env \<Rightarrow> ('w, 'v) callback_table \<Rightarrow>
   ('w, 'v) callback_table \<Rightarrow> nat \<Rightarrow> 'w word \<Rightarrow> 'x \<Rightarrow>
   ((fast_fail + 'w word) \<times> 'x \<times> ('w, 'v, 'cb) vm_trace) option"
where
  "call_trampoline va_start env t t' i = k_to_amx_callback_fns (to_amx_callback va_start env t t') ! i"

lemma call_trampoline_instance:
  "i < k_to_amx_callback_count \<Longrightarrow> call_trampoline va_start env t t' i = to_amx_callback va_start env t t' i"
  by (simp add: call_trampoline_def k_to_amx_callback_fns_def)

section \<open>One operation at a time\<close>

lemma find_upt_Some:
  "find P [0..<n] = Some i \<longleftrightarrow> i < n \<and> P i \<and> (\<forall>j < i. \<not> P j)"
  by (auto simp: find_Some_iff)

lemma find_upt_None: "find P [0..<n] = None \<longleftrightarrow> (\<forall>i < n. \<not> P i)"
  by (auto simp: find_None_iff)

lemma find_trampoline:
  assumes "trampolines fns" and "i < k_to_amx_callback_count"
  shows "find (\<lambda>j. fns i = fns j) [0..<k_to_amx_callback_count] = Some i"
proof -
  have "fns i \<noteq> fns j" if "j < i" for j
    using inj_onD [of fns "{..<k_to_amx_callback_count}" i j] assms that by (auto simp: trampolines_def)
  then show ?thesis using assms(2) by (simp add: find_upt_Some)
qed

text \<open>
  \<open>callback_alloc\<close> gives a trampoline when a slot is free, and 0 with nothing changed when
  none is; the slot it takes was free, it now leads to the function of the caller, no other
  slot changes, and \<open>callback_free\<close> by the same machine gives exactly this slot back.
\<close>

theorem callback_alloc_free:
  assumes "trampolines fns" and "length t = k_to_amx_callback_count"
    and "to_amx_callback_alloc fns t v cip = (r, t')"
  shows "if \<forall>s \<in> set t. slot_ctx s \<noteq> None then r = 0 \<and> t' = t
    else \<exists>i < k_to_amx_callback_count. r = fns i \<and> r \<noteq> 0 \<and> slot_ctx (t ! i) = None
      \<and> t' = t[i := \<lparr>slot_cip = cip, slot_ctx = Some v\<rparr>]
      \<and> to_amx_callback_free fns t' v r = Some (t[i := \<lparr>slot_cip = 0, slot_ctx = None\<rparr>])
      \<and> (\<forall>v'. v' \<noteq> v \<longrightarrow> to_amx_callback_free fns t' v' r = None)"
proof (cases "find (\<lambda>i. slot_ctx (t ! i) = None) [0..<k_to_amx_callback_count]")
  case None
  then have "\<forall>s \<in> set t. slot_ctx s \<noteq> None"
    using assms(2) by (auto simp: find_upt_None in_set_conv_nth)
  then show ?thesis using None assms(3) by (simp add: to_amx_callback_alloc_def)
next
  case (Some i)
  then have i: "i < k_to_amx_callback_count" "slot_ctx (t ! i) = None" by (auto simp: find_upt_Some)
  moreover from this have "\<not> (\<forall>s \<in> set t. slot_ctx s \<noteq> None)"
    using assms(2) nth_mem [of i t] by auto
  moreover have "r = fns i" "t' = t[i := \<lparr>slot_cip = cip, slot_ctx = Some v\<rparr>]"
    using Some assms(3) by (auto simp: to_amx_callback_alloc_def)
  ultimately show ?thesis
    using i assms(1,2) by (auto simp: to_amx_callback_free_def find_trampoline trampolines_def
        intro!: exI [of _ i])
qed

text \<open>
  C38: a call of the trampoline a machine got for \<open>cip\<close> runs \<open>cip\<close> on that machine, under its
  mutex and after the \<open>precall\<close> notification, with the place of the arguments as its one argument,
  and hands the system the result; every other outcome stops the system.  There is no \<open>postcall\<close> notification, which every other call of a
  machine has.
\<close>

theorem callback_dispatch_runs:
  assumes "env_ok env" and "slot_ctx (t ! i) = Some v" and "slot_cip (t' ! i) = cip"
    and "i < k_to_amx_callback_count"
  shows "\<exists>r x' tr. call_trampoline va_start env t t' i first_arg x = Some (r, x', tr)
    \<and> (case r of
         Inr ret \<Rightarrow> cip \<noteq> 0 \<and> (\<exists>e x1 st. notify_precall env v cip x = Some (st, x1, [Notify Precall v e])
             \<and> NT_SUCCESS st \<and> amx_call env v cip [va_start first_arg] x1 = (AE_success, ret, x')
             \<and> tr = [LockVm v, Notify Precall v e, RunAmx v cip [va_start first_arg], UnlockVm v])
           \<and> run_mutex tr [] = Some [] \<and> \<not> bracketed tr
       | Inl f \<Rightarrow> run_mutex tr [] = Some [v])"
proof -
  obtain st x1 e where n: "notify_precall env v cip x = Some (st, x1, [Notify Precall v e])"
    using notify_precall_runs [OF assms(1)] by blast
  obtain res ret x2 where a: "amx_call env v cip [va_start first_arg] x1 = (res, ret, x2)" by (metis prod_cases3)
  show ?thesis
    using assms(2,3)
    by (auto simp: call_trampoline_instance [OF assms(4)] to_amx_callback_def to_amx_callback_dispatch_def n a Let_def
        bracketed_def)
qed

section \<open>Threads\<close>

text \<open>
  Where a machine is in one of the two operations.  The natives run under the mutex of their
  machine, so that a machine is in at most one.
\<close>

datatype 'c pc =
    Idle
  | AllocRead nat 'c
  | AllocCas nat 'c
  | AllocCip nat 'c
  | FreeFind 'c
  | FreeCheck nat
  | FreeCip nat
  | FreeCtx nat
  | Returned 'c
  | Crashed

text \<open>The next access of the table by machine \<open>v\<close>; \<open>None\<close> when it is in no operation.\<close>

fun thread_step ::
  "(nat \<Rightarrow> 'w::len word) \<Rightarrow> 'v \<Rightarrow> 'w word pc \<Rightarrow> ('w, 'v) callback_table \<Rightarrow>
   ('w word pc \<times> ('w, 'v) callback_table) option"
where
  "thread_step fns v (AllocRead i cip) t =
     Some (if i \<ge> k_to_amx_callback_count then (Returned 0, t)
       else if slot_ctx (t ! i) = None then (AllocCas i cip, t) else (AllocRead (Suc i) cip, t))"
| "thread_step fns v (AllocCas i cip) t =
     Some (if slot_ctx (t ! i) = None then (AllocCip i cip, t[i := (t ! i)\<lparr>slot_ctx := Some v\<rparr>])
       else (AllocRead (Suc i) cip, t))"
| "thread_step fns v (AllocCip i cip) t = Some (Returned (fns i), t[i := (t ! i)\<lparr>slot_cip := cip\<rparr>])"
| "thread_step fns v (FreeFind pfn) t =
     Some (case find (\<lambda>i. pfn = fns i) [0..<k_to_amx_callback_count] of
             None \<Rightarrow> (Crashed, t) | Some i \<Rightarrow> (FreeCheck i, t))"
| "thread_step fns v (FreeCheck i) t =
     Some (if slot_ctx (t ! i) \<noteq> Some v then (Crashed, t) else (FreeCip i, t))"
| "thread_step fns v (FreeCip i) t = Some (FreeCtx i, t[i := (t ! i)\<lparr>slot_cip := 0\<rparr>])"
| "thread_step fns v (FreeCtx i) t = Some (Returned 0, t[i := (t ! i)\<lparr>slot_ctx := None\<rparr>])"
| "thread_step fns v p t = None"

text \<open>Steps of one machine with nobody else running.\<close>

fun run_alone ::
  "nat \<Rightarrow> (nat \<Rightarrow> 'w::len word) \<Rightarrow> 'v \<Rightarrow> 'w word pc \<times> ('w, 'v) callback_table \<Rightarrow>
   'w word pc \<times> ('w, 'v) callback_table"
where
  "run_alone 0 fns v (p, t) = (p, t)"
| "run_alone (Suc n) fns v (p, t) =
     (case thread_step fns v p t of None \<Rightarrow> (p, t) | Some s \<Rightarrow> run_alone n fns v s)"

text \<open>
  The system: the table, the machines, and which slots each machine holds: \<open>given v i\<close> is the
  function machine \<open>v\<close> got trampoline \<open>i\<close> for, from the return of its allocation to the
  moment it passes the check of a free.
\<close>

record (overloaded) ('w, 'v) slots_state =
  table :: "('w::len, 'v) callback_table"
  pcs :: "'v \<Rightarrow> 'w word pc"
  given :: "'v \<Rightarrow> nat \<Rightarrow> 'w word option"

fun update_given :: "'w::len word pc \<Rightarrow> 'w word pc \<Rightarrow> (nat \<Rightarrow> 'w word option) \<Rightarrow> nat \<Rightarrow> 'w word option" where
  "update_given (AllocCip i cip) _ g = g(i := Some cip)"
| "update_given (FreeCheck i) (FreeCip _) g = g(i := None)"
| "update_given _ _ g = g"

inductive slots_step ::
  "(nat \<Rightarrow> 'w::len word) \<Rightarrow> ('w, 'v) slots_state \<Rightarrow> ('w, 'v) slots_state \<Rightarrow> bool"
  for fns :: "nat \<Rightarrow> 'w word"
where
  call_alloc: "pcs s v = Idle \<Longrightarrow> slots_step fns s (s\<lparr>pcs := (pcs s)(v := AllocRead 0 cip)\<rparr>)"
| call_free: "pcs s v = Idle \<Longrightarrow> slots_step fns s (s\<lparr>pcs := (pcs s)(v := FreeFind pfn)\<rparr>)"
| access: "thread_step fns v (pcs s v) (table s) = Some (p', t') \<Longrightarrow>
    slots_step fns s (s\<lparr>table := t', pcs := (pcs s)(v := p'),
      given := (given s)(v := update_given (pcs s v) p' (given s v))\<rparr>)"
| return: "pcs s v = Returned r \<Longrightarrow> slots_step fns s (s\<lparr>pcs := (pcs s)(v := Idle)\<rparr>)"

inductive_cases slots_stepE: "slots_step fns s s'"

inductive slots_reachable :: "(nat \<Rightarrow> 'w::len word) \<Rightarrow> ('w, 'v) slots_state \<Rightarrow> bool"
  for fns :: "nat \<Rightarrow> 'w word"
where
  start: "slots_reachable fns
    \<lparr>table = replicate k_to_amx_callback_count \<lparr>slot_cip = 0, slot_ctx = None\<rparr>,
      pcs = \<lambda>_. Idle, given = \<lambda>_ _. None\<rparr>"
| step: "slots_reachable fns s \<Longrightarrow> slots_step fns s s' \<Longrightarrow> slots_reachable fns s'"

section \<open>Every slot belongs to one machine\<close>

text \<open>
  The invariant: a slot given to a machine holds its context and its function, and the points
  of an operation that write a slot have its context in it.
\<close>

definition holds_given :: "'v \<Rightarrow> ('w::len, 'v) callback_table \<Rightarrow> (nat \<Rightarrow> 'w word option) \<Rightarrow> bool" where
  "holds_given v t g \<longleftrightarrow> (\<forall>i cip. g i = Some cip \<longrightarrow>
     i < k_to_amx_callback_count \<and> t ! i = \<lparr>slot_cip = cip, slot_ctx = Some v\<rparr>)"

definition given_ok :: "('w::len, 'v) slots_state \<Rightarrow> bool" where
  "given_ok s \<longleftrightarrow> (\<forall>v. holds_given v (table s) (given s v))"

fun pc_ok :: "'w::len word pc \<Rightarrow> 'v \<Rightarrow> ('w, 'v) callback_table \<Rightarrow> (nat \<Rightarrow> 'w word option) \<Rightarrow> bool" where
  "pc_ok (AllocCas i cip) v t g \<longleftrightarrow> i < k_to_amx_callback_count"
| "pc_ok (AllocCip i cip) v t g \<longleftrightarrow> i < k_to_amx_callback_count \<and> slot_ctx (t ! i) = Some v \<and> g i = None"
| "pc_ok (FreeCheck i) v t g \<longleftrightarrow> i < k_to_amx_callback_count"
| "pc_ok (FreeCip i) v t g \<longleftrightarrow> i < k_to_amx_callback_count \<and> slot_ctx (t ! i) = Some v \<and> g i = None"
| "pc_ok (FreeCtx i) v t g \<longleftrightarrow> i < k_to_amx_callback_count \<and> slot_ctx (t ! i) = Some v \<and> g i = None"
| "pc_ok _ v t g \<longleftrightarrow> True"

definition slots_inv :: "('w::len, 'v) slots_state \<Rightarrow> bool" where
  "slots_inv s \<longleftrightarrow> length (table s) = k_to_amx_callback_count \<and> given_ok s
     \<and> (\<forall>v. pc_ok (pcs s v) v (table s) (given s v))"

text \<open>One step changes at most one slot, and that one is free or belongs to the machine.\<close>

lemma thread_step_frame:
  assumes "thread_step fns v p t = Some (p', t')" and "pc_ok p v t g"
    and "length t = k_to_amx_callback_count"
  shows "length t' = length t"
    and "slot_ctx (t ! i) \<noteq> None \<Longrightarrow> slot_ctx (t ! i) \<noteq> Some v \<Longrightarrow> t' ! i = t ! i"
  using assms
  by (cases p; auto split: if_splits option.splits simp: nth_list_update)+

lemma holds_given_update:
  assumes "holds_given v t g" and "g i = None"
  shows "holds_given v (t[i := s]) g"
  unfolding holds_given_def
proof (intro allI impI)
  fix j cip assume j: "g j = Some cip"
  then have "j \<noteq> i" using assms(2) by auto
  then show "j < k_to_amx_callback_count \<and> t[i := s] ! j = \<lparr>slot_cip = cip, slot_ctx = Some v\<rparr>"
    using assms(1) j by (simp add: holds_given_def)
qed

lemma holds_given_new:
  assumes "holds_given v t g" and "length t = k_to_amx_callback_count" and "i < k_to_amx_callback_count"
  shows "holds_given v (t[i := \<lparr>slot_cip = cip, slot_ctx = Some v\<rparr>]) (g(i := Some cip))"
  using assms by (auto simp: holds_given_def nth_list_update)

lemma holds_given_free: "holds_given v t g \<Longrightarrow> slot_ctx (t ! i) = None \<Longrightarrow> g i = None"
  by (cases "g i") (auto simp: holds_given_def)

lemma holds_given_drop: "holds_given v t g \<Longrightarrow> holds_given v t (g(i := None))"
  by (auto simp: holds_given_def)

lemma slot_update [simp]:
  "(s :: ('w::len, 'v) to_amx_callback_context)\<lparr>slot_cip := a, slot_ctx := b\<rparr> = \<lparr>slot_cip = a, slot_ctx = b\<rparr>"
  "s\<lparr>slot_ctx := b, slot_cip := a\<rparr> = \<lparr>slot_cip = a, slot_ctx = b\<rparr>"
  by (cases s; simp)+

lemma slot_update_cip:
  "slot_ctx s = c \<Longrightarrow> (s :: ('w::len, 'v) to_amx_callback_context)\<lparr>slot_cip := a\<rparr> = \<lparr>slot_cip = a, slot_ctx = c\<rparr>"
  by (cases s) simp

lemma thread_step_own:
  assumes "thread_step fns v p t = Some (p', t')" and "pc_ok p v t g"
    and "length t = k_to_amx_callback_count" and "holds_given v t g"
  shows "pc_ok p' v t' (update_given p p' g) \<and> holds_given v t' (update_given p p' g)"
proof (cases p)
  case (AllocRead i cip)
  then show ?thesis using assms by (auto split: if_splits)
next
  case (AllocCas i cip)
  then show ?thesis
    using assms holds_given_free [OF assms(4)] holds_given_update [OF assms(4)]
    by (auto split: if_splits)
next
  case (AllocCip i cip)
  then show ?thesis
    using assms holds_given_new [OF assms(4,3)] by (auto simp: slot_update_cip)
next
  case (FreeFind pfn)
  then show ?thesis using assms by (auto split: option.splits simp: find_upt_Some)
next
  case (FreeCheck i)
  then show ?thesis using assms holds_given_drop by (auto split: if_splits)
next
  case (FreeCip i)
  then show ?thesis using assms holds_given_update [OF assms(4)] by auto
next
  case (FreeCtx i)
  then show ?thesis using assms holds_given_update [OF assms(4)] by auto
qed (use assms in auto)

lemma slots_inv_step:
  assumes "slots_inv s" and "slots_step fns s s'"
  shows "slots_inv s'"
  using assms(2)
proof cases
  case (access v p' t')
  have inv: "length (table s) = k_to_amx_callback_count" "pc_ok (pcs s u) u (table s) (given s u)"
    "holds_given u (table s) (given s u)" for u
    using assms(1) by (auto simp: slots_inv_def given_ok_def)
  note frame = thread_step_frame [OF access(2) inv(2) inv(1)]
  note own = thread_step_own [OF access(2) inv(2,1,3)]
  have other: "t' ! i = table s ! i" if "u \<noteq> v" "slot_ctx (table s ! i) = Some u" for u i
    using frame(2) [of i] that by simp
  have "pc_ok (pcs s u) u t' (given s u)" if "u \<noteq> v" for u
    using inv(2) [of u] other [OF that] by (cases "pcs s u") auto
  moreover have "holds_given u t' (given s u)" if "u \<noteq> v" for u
    unfolding holds_given_def
  proof (intro allI impI)
    fix i cip assume "given s u i = Some cip"
    then have h: "i < k_to_amx_callback_count" "table s ! i = \<lparr>slot_cip = cip, slot_ctx = Some u\<rparr>"
      using inv(3) [of u] by (auto simp: holds_given_def)
    then show "i < k_to_amx_callback_count \<and> t' ! i = \<lparr>slot_cip = cip, slot_ctx = Some u\<rparr>"
      using other [OF that, of i] by simp
  qed
  ultimately show ?thesis
    using own frame(1) inv(1) by (auto simp: access(1) slots_inv_def given_ok_def)
qed (use assms(1) in \<open>auto simp: slots_inv_def given_ok_def\<close>)

lemma slots_inv_reachable: "slots_reachable fns s \<Longrightarrow> slots_inv s"
proof (induction rule: slots_reachable.induct)
  case start
  then show ?case by (simp add: slots_inv_def given_ok_def holds_given_def)
next
  case (step s s')
  then show ?case by (simp add: slots_inv_step)
qed

text \<open>
  C6: whatever the machines do concurrently, a slot given to a machine leads to the function
  it was given for, on that machine, until the machine frees it; and no two machines hold the
  same slot.
\<close>

theorem callback_slots_exclusive:
  assumes "slots_reachable fns s" and "given s v i = Some cip"
  shows "i < k_to_amx_callback_count \<and> table s ! i = \<lparr>slot_cip = cip, slot_ctx = Some v\<rparr>
    \<and> (\<forall>v'. v' \<noteq> v \<longrightarrow> given s v' i = None)"
proof -
  have g: "given_ok s" using slots_inv_reachable [OF assms(1)] by (simp add: slots_inv_def)
  have h: "i < k_to_amx_callback_count \<and> table s ! i = \<lparr>slot_cip = c, slot_ctx = Some u\<rparr>"
    if "given s u i = Some c" for u c
    using g that unfolding given_ok_def holds_given_def by blast
  have "given s v' i = None" if "v' \<noteq> v" for v'
    using h [OF assms(2)] h [of v'] that by (cases "given s v' i") auto
  then show ?thesis using h [OF assms(2)] by blast
qed

section \<open>The operations end\<close>

fun pc_rank :: "'w::len word pc \<Rightarrow> nat" where
  "pc_rank (AllocRead i cip) = 2 * (k_to_amx_callback_count - i) + 2"
| "pc_rank (AllocCas i cip) = 2 * (k_to_amx_callback_count - i) + 1"
| "pc_rank (AllocCip i cip) = 1"
| "pc_rank (FreeFind pfn) = 4"
| "pc_rank (FreeCheck i) = 3"
| "pc_rank (FreeCip i) = 2"
| "pc_rank (FreeCtx i) = 1"
| "pc_rank p = 0"

text \<open>
  C39: the operations are wait-free: an allocation needs at most 514 and a free at most 4
  accesses of the table, whatever other machines do in between.
\<close>

theorem callback_ops_wait_free:
  assumes "slots_reachable fns s" and "thread_step fns v (pcs s v) (table s) = Some (p', t')"
  shows "pc_rank p' < pc_rank (pcs s v) \<and> pc_rank (AllocRead 0 cip) = 514 \<and> pc_rank (FreeFind pfn) = 4"
proof -
  have "pc_ok (pcs s v) v (table s) (given s v)"
    using slots_inv_reachable [OF assms(1)] by (simp add: slots_inv_def)
  then have "pc_rank p' < pc_rank (pcs s v)"
    using assms(2) by (cases "pcs s v") (auto split: if_splits option.splits)
  then show ?thesis by (simp add: k_to_amx_callback_count_def)
qed

section \<open>The steps of an operation are the operation\<close>

lemma run_alloc_from:
  "i \<le> k_to_amx_callback_count \<Longrightarrow> length t = k_to_amx_callback_count \<Longrightarrow>
   \<exists>n. run_alone n fns v (AllocRead i cip, t) =
     (case find (\<lambda>i. slot_ctx (t ! i) = None) [i..<k_to_amx_callback_count] of
        None \<Rightarrow> (Returned 0, t)
      | Some j \<Rightarrow> (Returned (fns j), t[j := \<lparr>slot_cip = cip, slot_ctx = Some v\<rparr>]))"
proof (induction "k_to_amx_callback_count - i" arbitrary: i)
  case 0
  then show ?case by (intro exI [of _ "Suc 0"]) simp
next
  case (Suc d)
  then have i: "i < k_to_amx_callback_count" by simp
  show ?case
  proof (cases "slot_ctx (t ! i) = None")
    case True
    have "run_alone (Suc (Suc (Suc 0))) fns v (AllocRead i cip, t) =
        (Returned (fns i), t[i := \<lparr>slot_cip = cip, slot_ctx = Some v\<rparr>])"
      using i True Suc.prems by simp
    moreover have "find (\<lambda>i. slot_ctx (t ! i) = None) [i..<k_to_amx_callback_count] = Some i"
      using i True by (simp add: upt_conv_Cons)
    ultimately show ?thesis by (intro exI [of _ "Suc (Suc (Suc 0))"]) (simp only: option.case)
  next
    case False
    have d: "d = k_to_amx_callback_count - Suc i" using Suc.hyps(2) by simp
    obtain n where "run_alone n fns v (AllocRead (Suc i) cip, t) =
      (case find (\<lambda>i. slot_ctx (t ! i) = None) [Suc i..<k_to_amx_callback_count] of
        None \<Rightarrow> (Returned 0, t)
      | Some j \<Rightarrow> (Returned (fns j), t[j := \<lparr>slot_cip = cip, slot_ctx = Some v\<rparr>]))"
      using Suc.hyps(1) [of "Suc i"] d Suc_leI [OF i] Suc.prems(2) by blast
    moreover have "run_alone (Suc n) fns v (AllocRead i cip, t) = run_alone n fns v (AllocRead (Suc i) cip, t)"
      using i False by (simp del: not_None_eq)
    moreover have "find (\<lambda>i. slot_ctx (t ! i) = None) [i..<k_to_amx_callback_count] =
        find (\<lambda>i. slot_ctx (t ! i) = None) [Suc i..<k_to_amx_callback_count]"
      using i False by (simp add: upt_conv_Cons del: not_None_eq)
    ultimately show ?thesis by (intro exI [of _ "Suc n"]) (simp only:)
  qed
qed

text \<open>
  with no other thread in between, the accesses of an allocation and of a free have the
  effect and the result of the two functions.
\<close>

theorem callback_steps_refine:
  assumes "length t = k_to_amx_callback_count"
  shows "(\<exists>n. run_alone n fns v (AllocRead 0 cip, t) =
        (let (r, t') = to_amx_callback_alloc fns t v cip in (Returned r, t')))
    \<and> (\<exists>n. case to_amx_callback_free fns t v pfn of
          None \<Rightarrow> run_alone n fns v (FreeFind pfn, t) = (Crashed, t)
        | Some t' \<Rightarrow> run_alone n fns v (FreeFind pfn, t) = (Returned 0, t'))"
proof
  obtain n where n: "run_alone n fns v (AllocRead 0 cip, t) =
     (case find (\<lambda>i. slot_ctx (t ! i) = None) [0..<k_to_amx_callback_count] of
        None \<Rightarrow> (Returned 0, t)
      | Some j \<Rightarrow> (Returned (fns j), t[j := \<lparr>slot_cip = cip, slot_ctx = Some v\<rparr>]))"
    using run_alloc_from [of 0 t fns v cip] assms by auto
  then show "\<exists>n. run_alone n fns v (AllocRead 0 cip, t) =
        (let (r, t') = to_amx_callback_alloc fns t v cip in (Returned r, t'))"
    by (auto simp: to_amx_callback_alloc_def split: option.splits)
  show "\<exists>n. case to_amx_callback_free fns t v pfn of
          None \<Rightarrow> run_alone n fns v (FreeFind pfn, t) = (Crashed, t)
        | Some t' \<Rightarrow> run_alone n fns v (FreeFind pfn, t) = (Returned 0, t')"
  proof (rule exI [of _ "Suc (Suc (Suc (Suc 0)))"], cases "find (\<lambda>i. pfn = fns i) [0..<k_to_amx_callback_count]")
    case None
    then show "case to_amx_callback_free fns t v pfn of
          None \<Rightarrow> run_alone (Suc (Suc (Suc (Suc 0)))) fns v (FreeFind pfn, t) = (Crashed, t)
        | Some t' \<Rightarrow> run_alone (Suc (Suc (Suc (Suc 0)))) fns v (FreeFind pfn, t) = (Returned 0, t')"
      by (simp add: to_amx_callback_free_def)
  next
    case (Some i)
    then have "i < k_to_amx_callback_count" by (auto simp: find_upt_Some)
    then show "case to_amx_callback_free fns t v pfn of
          None \<Rightarrow> run_alone (Suc (Suc (Suc (Suc 0)))) fns v (FreeFind pfn, t) = (Crashed, t)
        | Some t' \<Rightarrow> run_alone (Suc (Suc (Suc (Suc 0)))) fns v (FreeFind pfn, t) = (Returned 0, t')"
      using Some assms by (simp add: to_amx_callback_free_def)
  qed
qed

section \<open>Examples\<close>

lemma const_update [simp]: "(\<lambda>_. a)(v := a) = (\<lambda>_. a)"
  by auto

definition sample_fns :: "nat \<Rightarrow> 64 word" where
  "sample_fns i = of_nat (0x1000 + i)"

definition empty_table :: "(64, nat) callback_table" where
  "empty_table = replicate k_to_amx_callback_count \<lparr>slot_cip = 0, slot_ctx = None\<rparr>"

lemma unat_sample_fns: "i < k_to_amx_callback_count \<Longrightarrow> unat (sample_fns i) = 0x1000 + i"
  unfolding sample_fns_def k_to_amx_callback_count_def by (rule unat_of_nat_small) simp

lemma sample_trampolines: "trampolines sample_fns"
  unfolding trampolines_def
proof (intro conjI inj_onI allI impI)
  fix i j assume i: "i \<in> {..<k_to_amx_callback_count}" and j: "j \<in> {..<k_to_amx_callback_count}"
    and e: "sample_fns i = sample_fns j"
  have "0x1000 + i = unat (sample_fns i)" using i unat_sample_fns by force
  also have "\<dots> = 0x1000 + j" unfolding e using j unat_sample_fns by force
  finally show "i = j" by linarith
next
  fix i assume "i < k_to_amx_callback_count"
  from unat_sample_fns [OF this] show "sample_fns i \<noteq> 0" by auto
qed

lemma empty_table_nth: "i < k_to_amx_callback_count \<Longrightarrow> empty_table ! i = \<lparr>slot_cip = 0, slot_ctx = None\<rparr>"
  by (simp add: empty_table_def)

lemma length_empty_table: "length empty_table = k_to_amx_callback_count"
  by (simp add: empty_table_def)

lemma alloc_first: "to_amx_callback_alloc sample_fns empty_table v cip =
    (sample_fns 0, empty_table[0 := \<lparr>slot_cip = cip, slot_ctx = Some v\<rparr>])"
proof -
  have "find (\<lambda>i. slot_ctx (empty_table ! i) = None) [0..<k_to_amx_callback_count] = Some 0"
    by (simp add: find_upt_Some empty_table_nth k_to_amx_callback_count_def)
  then show ?thesis by (simp add: to_amx_callback_alloc_def)
qed

theorem callback_alloc_free_witness:
  "to_amx_callback_free sample_fns (empty_table[0 := \<lparr>slot_cip = 7, slot_ctx = Some (5 :: nat)\<rparr>]) 2 (sample_fns 0) = None"
proof -
  have "\<not> (\<forall>s \<in> set empty_table. slot_ctx s \<noteq> None)"
    by (simp add: empty_table_def k_to_amx_callback_count_def)
  from callback_alloc_free [OF sample_trampolines length_empty_table alloc_first [where cip = 7 and v = 5],
      unfolded if_not_P [OF this]]
  show ?thesis by auto
qed

text \<open>A machine that returns its argument, and a list of two callbacks for every notification.\<close>

definition sample_env :: "(64, nat, nat, nat, nat) vm_env" where
  "sample_env = \<lparr>amx_call = \<lambda>v cip args x. (AE_success, 5, x + 1),
     amx_map = \<lambda>v p n x. Some (0x100, x), amx_unmap = \<lambda>v p n x. x,
     cb_call = \<lambda>k v cip cb x. (STATUS_SUCCESS, x),
     cb_heads = \<lambda>_. 0, cb_heap = sample_heap\<rparr>"

lemma sample_env_ok: "env_ok sample_env"
  by (rule env_ok_rings) (use sample_ring(3) in \<open>auto simp: sample_env_def\<close>)

theorem callback_dispatch_runs_witness:
  "let t = empty_table[0 := \<lparr>slot_cip = 7, slot_ctx = Some (5 :: nat)\<rparr>]
   in \<exists>r x' tr. call_trampoline (\<lambda>first. first) sample_env t t 0 9 0 = Some (r, x', tr)"
proof -
  let ?t = "empty_table[0 := \<lparr>slot_cip = 7, slot_ctx = Some (5 :: nat)\<rparr>]"
  have "slot_ctx (?t ! 0) = Some 5" "slot_cip (?t ! 0) = 7" "0 < k_to_amx_callback_count"
    by (simp_all add: length_empty_table k_to_amx_callback_count_def)
  from callback_dispatch_runs [OF sample_env_ok this, of "\<lambda>first. first" 9 0] show ?thesis
    unfolding Let_def by blast
qed

theorem callback_steps_refine_witness:
  "\<exists>n. run_alone n sample_fns (5 :: nat) (AllocRead 0 7, empty_table) =
     (Returned (sample_fns 0), empty_table[0 := \<lparr>slot_cip = 7, slot_ctx = Some 5\<rparr>])"
  using callback_steps_refine [OF length_empty_table, of sample_fns 5 7] by (simp add: alloc_first)

text \<open>Machine 5 has run an allocation for the function at 7.\<close>

definition state_at :: "64 word pc \<Rightarrow> (64, nat) slots_state" where
  "state_at p = \<lparr>table = empty_table, pcs = (\<lambda>_. Idle)(5 := p), given = \<lambda>_ _. None\<rparr>"

lemma state_at_read: "slots_reachable sample_fns (state_at (AllocRead 0 7))"
proof -
  have "slots_reachable sample_fns (state_at Idle)"
    using slots_reachable.start [of sample_fns] by (simp add: state_at_def empty_table_def)
  from slots_reachable.step [OF this slots_step.call_alloc [where v = 5 and cip = 7]]
  show ?thesis by (simp add: state_at_def)
qed

lemma state_at_cas: "slots_reachable sample_fns (state_at (AllocCas 0 7))"
proof -
  have "thread_step sample_fns 5 (pcs (state_at (AllocRead 0 7)) 5) (table (state_at (AllocRead 0 7))) =
      Some (AllocCas 0 7, empty_table)"
    by (simp add: state_at_def empty_table_nth k_to_amx_callback_count_def)
  from slots_reachable.step [OF state_at_read slots_step.access [OF this]]
  show ?thesis by (simp add: state_at_def)
qed

definition state_given :: "(64, nat) slots_state" where
  "state_given = \<lparr>table = empty_table[0 := \<lparr>slot_cip = 7, slot_ctx = Some 5\<rparr>],
     pcs = (\<lambda>_. Idle)(5 := Returned (sample_fns 0)), given = (\<lambda>_ _. None)(5 := [0 \<mapsto> 7])\<rparr>"

lemma state_given_reachable: "slots_reachable sample_fns state_given"
proof -
  let ?s = "state_at (AllocCas 0 7)"
  let ?t = "empty_table[0 := \<lparr>slot_cip = 0, slot_ctx = Some 5\<rparr>]"
  have "thread_step sample_fns 5 (pcs ?s 5) (table ?s) = Some (AllocCip 0 7, ?t)"
    by (simp add: state_at_def empty_table_nth k_to_amx_callback_count_def)
  from slots_reachable.step [OF state_at_cas slots_step.access [OF this]]
  have r: "slots_reachable sample_fns \<lparr>table = ?t, pcs = (\<lambda>_. Idle)(5 := AllocCip 0 7), given = \<lambda>_ _. None\<rparr>"
    (is "slots_reachable _ ?s'") by (simp add: state_at_def)
  have "thread_step sample_fns 5 (pcs ?s' 5) (table ?s') =
      Some (Returned (sample_fns 0), empty_table[0 := \<lparr>slot_cip = 7, slot_ctx = Some 5\<rparr>])"
    by (simp add: length_empty_table k_to_amx_callback_count_def)
  from slots_reachable.step [OF r slots_step.access [OF this]]
  show ?thesis by (simp add: state_given_def)
qed

theorem callback_slots_exclusive_witness:
  "slots_reachable sample_fns state_given \<and> given state_given 5 0 = Some 7
    \<and> table state_given ! 0 = \<lparr>slot_cip = 7, slot_ctx = Some 5\<rparr> \<and> given state_given 2 0 = None"
proof -
  have g: "given state_given 5 0 = Some 7" by (simp add: state_given_def)
  from callback_slots_exclusive [OF state_given_reachable this] g state_given_reachable
  show ?thesis by simp
qed

theorem callback_ops_wait_free_witness:
  "pc_rank (AllocCas 0 (7 :: 64 word)) < pc_rank (AllocRead 0 (7 :: 64 word))"
proof -
  have "thread_step sample_fns 5 (pcs (state_at (AllocRead 0 7)) 5) (table (state_at (AllocRead 0 7))) =
      Some (AllocCas 0 7, empty_table)"
    by (simp add: state_at_def empty_table_nth k_to_amx_callback_count_def)
  from callback_ops_wait_free [OF state_at_read this] show ?thesis by (simp add: state_at_def)
qed

end
