(* ===== verification/Loader_Parse.thy ===== *)
theory Loader_Parse
  imports Loader
begin

text \<open>
  What an AMX image means, in plain arithmetic on file offsets (\<open>parse_image\<close>), and the
  proof that the header reads, address computations and counting passes of the loader
  implement it: no read leaves the buffer, every scan ends, and the counters and sizes are
  those of the parsed image.

  The contract of the table passes (a callback that, on the address of an entry, refuses it
  or applies an effect) is the locale \<open>table_pass\<close>; both counting passes interpret it.
\<close>

section \<open>The image as an object of the program\<close>

text \<open>
  A buffer handed to the loader: its one-past-the-end address is representable, and its
  length is that of an I/O request, a \<open>ULONG\<close>.
\<close>

definition image_object :: "'w::len word \<Rightarrow> byte list \<Rightarrow> bool" where
  "image_object base buf \<longleftrightarrow>
     machine_word TYPE('w) \<and> length buf < 2 ^ 32 \<and> unat base + length buf < 2 ^ LENGTH('w)"

lemma image_objectD:
  assumes "image_object (base :: 'w::len word) buf"
  shows "machine_word TYPE('w)" "length buf < 2 ^ 32" "unat base + length buf < 2 ^ LENGTH('w)"
    "length buf < 2 ^ LENGTH('w)" "LENGTH(32) \<le> LENGTH('w)"
  using assms by (auto simp: image_object_def machine_word_def)

lemma unat_small_nat:
  "machine_word TYPE('w::len) \<Longrightarrow> n < 2 ^ 32 \<Longrightarrow> unat (of_nat n :: 'w word) = n"
  by (elim machine_word_cases) (simp_all add: unat_of_nat_small)

lemma unat_small_numeral:
  "machine_word TYPE('w::len) \<Longrightarrow> numeral k < (2 ^ 32 :: nat) \<Longrightarrow>
   unat (numeral k :: 'w word) = numeral k"
  using unat_small_nat [of "numeral k"] by simp

lemma unat_ucast_u32:
  "machine_word TYPE('w::len) \<Longrightarrow> unat (ucast (x :: u32) :: 'w word) = unat x"
  by (rule unat_ucast_le) (auto simp: machine_word_def)

lemma unat_ucast_u16:
  "machine_word TYPE('w::len) \<Longrightarrow> unat (ucast (x :: u16) :: 'w word) = unat x"
  by (rule unat_ucast_le) (auto simp: machine_word_def)

section \<open>The parsed image\<close>

definition header_of :: "byte list \<Rightarrow> header" where
  "header_of buf =
    \<lparr>h_size = le_at buf 0, h_magic = le_at buf 4, h_file_version = le_at buf 6,
     h_amx_version = le_at buf 7, h_flags = le_at buf 8, h_defsize = le_at buf 10,
     h_cod = le_at buf 12, h_dat = le_at buf 16, h_hea = le_at buf 20, h_stp = le_at buf 24,
     h_cip = le_at buf 28, h_publics = le_at buf 32, h_natives = le_at buf 36,
     h_libraries = le_at buf 40, h_pubvars = le_at buf 44, h_tags = le_at buf 48\<rparr>"

text \<open>An entry at a file offset: the address field and the name it points to.\<close>

definition entry_address :: "byte list \<Rightarrow> nat \<Rightarrow> u32" where
  "entry_address buf off = le_at buf off"

definition entry_name :: "byte list \<Rightarrow> nat \<Rightarrow> cstring option" where
  "entry_name buf off = c_string buf (unat (le_at buf (off + 4) :: u32))"

text \<open>A table of named addresses, and the imported natives.\<close>

definition table_ok :: "byte list \<Rightarrow> header \<Rightarrow> u32 \<Rightarrow> u32 \<Rightarrow> bool" where
  "table_ok buf h b e \<longleftrightarrow> valarray_ok (length buf) (unat b) (unat e) (unat (h_defsize h))"

definition table_offsets :: "header \<Rightarrow> u32 \<Rightarrow> u32 \<Rightarrow> nat list" where
  "table_offsets h b e = entry_offsets (unat b) (unat e) (unat (h_defsize h))"

definition named_table :: "byte list \<Rightarrow> header \<Rightarrow> u32 \<Rightarrow> u32 \<Rightarrow> (cstring \<times> u32) list option" where
  "named_table buf h b e =
    (if table_ok buf h b e \<and> (\<forall>off \<in> set (table_offsets h b e). entry_name buf off \<noteq> None)
     then Some (map (\<lambda>off. (the (entry_name buf off), entry_address buf off)) (table_offsets h b e))
     else None)"

fun resolve_natives ::
  "byte list \<Rightarrow> (cstring \<times> 'f) list \<Rightarrow> nat list \<Rightarrow> loader_error + 'f list"
where
  "resolve_natives buf ns [] = Inr []"
| "resolve_natives buf ns (off # offs) =
    (case entry_name buf off of
       None \<Rightarrow> Inl LE_invalid_file
     | Some name \<Rightarrow>
        (case find_native ns name of
           None \<Rightarrow> Inl LE_native_not_resolved
         | Some f \<Rightarrow>
            (case resolve_natives buf ns offs of Inl e \<Rightarrow> Inl e | Inr fs \<Rightarrow> Inr (f # fs))))"

record 'f image =
  im_header :: header
  im_code :: nat
  im_data :: nat
  im_publics :: "(cstring \<times> u32) list"
  im_natives :: "'f list"
  im_pubvars :: "(cstring \<times> u32) list"

definition parse_tables ::
  "byte list \<Rightarrow> (cstring \<times> 'f) list \<Rightarrow> header \<Rightarrow> nat \<Rightarrow> nat \<Rightarrow> loader_error + 'f image"
where
  "parse_tables buf ns h c d =
    (case named_table buf h (h_publics h) (h_natives h) of
       None \<Rightarrow> Inl LE_invalid_file
     | Some pubs \<Rightarrow>
        if \<not> table_ok buf h (h_natives h) (h_libraries h) then Inl LE_invalid_file
        else (case resolve_natives buf ns (table_offsets h (h_natives h) (h_libraries h)) of
           Inl e \<Rightarrow> Inl e
         | Inr fs \<Rightarrow>
            if h_libraries h \<noteq> h_pubvars h then Inl LE_feature_not_supported
            else (case named_table buf h (h_pubvars h) (h_tags h) of
               None \<Rightarrow> Inl LE_invalid_file
             | Some vars \<Rightarrow> Inr \<lparr>im_header = h, im_code = c, im_data = d, im_publics = pubs,
                 im_natives = fs, im_pubvars = vars\<rparr>)))"

text \<open>
  What can be wrong with a header, in the order in which it is reported: the magic of another
  cell width or no magic, a size beyond the buffer, the versions, an overlay or sleep flag, a
  table entry that is too short.
\<close>

definition cell_magics :: "(nat \<times> u16) list" where
  "cell_magics = [(32, 0xF1E0), (64, 0xF1E1), (16, 0xF1E2)]"

definition magic_of :: "'w::len itself \<Rightarrow> u16" where
  "magic_of w = (case map_of cell_magics LENGTH('w) of None \<Rightarrow> 0 | Some m \<Rightarrow> m)"

definition header_faults :: "'w::len itself \<Rightarrow> nat \<Rightarrow> nat \<Rightarrow> header \<Rightarrow> (bool \<times> loader_error) list" where
  "header_faults w version n h =
    [(h_magic h \<noteq> magic_of w \<and> h_magic h \<in> snd ` set cell_magics, LE_wrong_cell_size),
     (h_magic h \<noteq> magic_of w, LE_invalid_file),
     (n < unat (h_size h), LE_invalid_file),
     (h_file_version h \<noteq> 11, LE_unsupported_file_version),
     (version < unat (h_amx_version h), LE_unsupported_amx_version),
     (bit (h_flags h) 0 \<or> bit (h_flags h) 3, LE_feature_not_supported),
     (unat (h_defsize h) < 8, LE_invalid_file)]"

definition header_verdict :: "'w::len itself \<Rightarrow> nat \<Rightarrow> nat \<Rightarrow> header \<Rightarrow> loader_error" where
  "header_verdict w version n h =
    (case find fst (header_faults w version n h) of None \<Rightarrow> LE_success | Some (_, e) \<Rightarrow> e)"

lemma flag_bit: "(ucast (x :: u16) :: u32) AND push_bit n 1 \<noteq> 0 \<longleftrightarrow> bit x n"
proof -
  have "(ucast x :: u32) AND push_bit n 1 \<noteq> 0 \<longleftrightarrow> bit (ucast x :: u32) n"
    by (simp add: and_exp_eq_0_iff_not_bit push_bit_eq_mult)
  also have "\<dots> \<longleftrightarrow> bit x n" by (auto simp: bit_simps dest: bit_imp_le_length)
  finally show ?thesis .
qed

lemma header_verdict_eq [simp]: "header_verdict w version n h = check_header w version n h"
proof -
  have "magic_of w = expected_magic w"
    by (simp add: magic_of_def cell_magics_def expected_magic_def)
  then show ?thesis
    unfolding header_verdict_def header_faults_def check_header_def flag_overlay_def flag_sleep_def flag_bit
    by (auto simp: cell_magics_def word_less_nat_alt)
qed

definition parse_image ::
  "'w::len itself \<Rightarrow> nat \<Rightarrow> byte list \<Rightarrow> (cstring \<times> 'f) list \<Rightarrow> loader_error + 'f image"
where
  "parse_image w version buf ns =
    (if length buf < 60 then Inl LE_invalid_file
     else let h = header_of buf; e = header_verdict w version (length buf) h; csz = sizeof_cell w
          in if e \<noteq> LE_success then Inl e
             else if \<not> valarray_ok (length buf) (unat (h_cod h)) (unat (h_dat h)) csz
             then Inl LE_invalid_file
             else if \<not> valarray_ok (length buf) (unat (h_dat h)) (unat (h_hea h)) csz
             then Inl LE_invalid_file
             else parse_tables buf ns h
               ((unat (h_dat h) - unat (h_cod h)) div csz)
               ((unat (h_hea h) - unat (h_dat h)) div csz))"

text \<open>The bytes the names of a table take in the string buffer, terminators included.\<close>

definition packed :: "cstring list \<Rightarrow> byte list" where
  "packed names = concat (map (\<lambda>s. s @ [0]) names)"

lemma packed_simps [simp]:
  "packed [] = []" "packed (s # ss) = s @ 0 # packed ss"
  by (simp_all add: packed_def)

lemma packed_append: "packed (xs @ ys) = packed xs @ packed ys"
  by (simp add: packed_def)

definition image_strings :: "'f image \<Rightarrow> cstring list" where
  "image_strings im = map fst (im_publics im) @ map fst (im_pubvars im)"

text \<open>The sizes the counting stage has to compute for an image.\<close>

definition image_counts :: "'f image \<Rightarrow> 'w::len counts" where
  "image_counts im =
    \<lparr>n_code = im_code im, n_data = im_data im,
     n_data_alloc = data_alloc_cells (im_header im) (im_data im),
     n_publics = length (im_publics im), n_natives = length (im_natives im),
     n_pubvars = length (im_pubvars im), n_strings = of_nat (length (packed (image_strings im)))\<rparr>"

section \<open>The contract of a table pass\<close>

locale table_pass =
  fixes visit :: "'p \<Rightarrow> 's \<Rightarrow> (bool \<times> 's) option"
    and entry :: "'p \<Rightarrow> bool"
    and accepts :: "'p \<Rightarrow> bool"
    and effect :: "'p \<Rightarrow> 's \<Rightarrow> 's"
    and refuse :: "'p \<Rightarrow> 's \<Rightarrow> 's"
  assumes visit_entry: "entry p \<Longrightarrow>
    visit p s = Some (if accepts p then (True, effect p s) else (False, refuse p s))"
begin

lemma walk:
  assumes "\<forall>p \<in> set ps. entry p"
  shows "iter_entries visit ps s =
    (case dropWhile accepts ps of
       [] \<Rightarrow> Some (True, fold effect ps s)
     | p # _ \<Rightarrow> Some (False, refuse p (fold effect (takeWhile accepts ps) s)))"
  using assms
proof (induction ps arbitrary: s)
  case Nil
  then show ?case by simp
next
  case (Cons p ps)
  show ?case
  proof (cases "accepts p")
    case True
    have "iter_entries visit (p # ps) s = iter_entries visit ps (effect p s)"
      using Cons.prems True by (simp add: visit_entry)
    moreover have "\<forall>p \<in> set ps. entry p" using Cons.prems by simp
    note Cons.IH [OF this, of "effect p s"]
    moreover have "dropWhile accepts (p # ps) = dropWhile accepts ps"
      "takeWhile accepts (p # ps) = p # takeWhile accepts ps"
      using True by simp_all
    ultimately show ?thesis by (simp only: fold_simps)
  next
    case False
    then show ?thesis using Cons.prems by (simp add: visit_entry)
  qed
qed

lemma walk_accepts:
  assumes "\<forall>p \<in> set ps. entry p" and "\<forall>p \<in> set ps. accepts p"
  shows "iter_entries visit ps s = Some (True, fold effect ps s)"
proof -
  have "dropWhile accepts ps = []" using assms(2) by (simp add: dropWhile_eq_Nil_conv)
  then show ?thesis by (simp only: walk [OF assms(1)] list.case)
qed

lemma walk_refuses:
  assumes "\<forall>p \<in> set ps. entry p" and "\<exists>p \<in> set ps. \<not> accepts p"
  shows "\<exists>s'. iter_entries visit ps s = Some (False, s')"
proof -
  have "dropWhile accepts ps \<noteq> []" using assms(2) by (simp add: dropWhile_eq_Nil_conv)
  then show ?thesis using walk [OF assms(1)] by (auto split: list.splits)
qed

end

section \<open>Reads of the loader on an image\<close>

lemma unat_offset:
  assumes "image_object (base :: 'w::len word) buf" and "off \<le> length buf"
  shows "unat (of_nat off :: 'w word) = off"
  using assms image_objectD(4) [OF assms(1)] by (simp add: unat_of_nat_small)

lemma offset_of_pointer:
  assumes "image_object (base :: 'w::len word) buf" and "off \<le> length buf"
  shows "unat (base + of_nat off - base) = off"
  using unat_offset [OF assms] by simp

lemma read_le_image:
  assumes "image_object (base :: 'w::len word) buf" and "off + LENGTH('t::len) div 8 \<le> length buf"
  shows "(read_le buf base (base + of_nat off) :: 't word option) = Some (le_at buf off)"
proof -
  have u: "unat (base + of_nat off - base) = off"
    using assms(2) by (intro offset_of_pointer [OF assms(1)]) linarith
  show ?thesis
    using read_le_inside [of "base + of_nat off" base buf, where 't = 't] unfolding u
    using assms(2) by blast
qed

lemma read_le_image_numeral:
  assumes "image_object (base :: 'w::len word) buf"
    and "numeral k + LENGTH('t::len) div 8 \<le> length buf"
  shows "(read_le buf base (base + numeral k) :: 't word option) = Some (le_at buf (numeral k))"
  using read_le_image [OF assms(1), of "numeral k", where 't = 't] assms(2) by simp

lemma read_le_image_0:
  assumes "image_object (base :: 'w::len word) buf" and "LENGTH('t::len) div 8 \<le> length buf"
  shows "(read_le buf base base :: 't word option) = Some (le_at buf 0)"
  using read_le_image [OF assms(1), of 0, where 't = 't] assms(2) by simp

lemma read_header_image:
  assumes "image_object (base :: 'w::len word) buf" and "60 \<le> length buf"
  shows "read_header buf base = Some (header_of buf)"
  using assms by (simp add: read_header_def read_le_image_numeral read_le_image_0 header_of_def)

text \<open>The name scan ends at the terminator, or at the first offset past the buffer.\<close>

lemma scan_name:
  assumes "length buf < 2 ^ 32"
  shows "scan_nul buf ofs = Some (ofs + of_nat (c_len buf (unat ofs)))"
    and "unat (ofs + of_nat (c_len buf (unat ofs))) = unat ofs + c_len buf (unat ofs)"
proof -
  show "scan_nul buf ofs = Some (ofs + of_nat (c_len buf (unat ofs)))"
    using assms by (rule scan_nul_terminates)
  have "unat ofs + c_len buf (unat ofs) < 2 ^ 32"
  proof (cases "unat ofs \<le> length buf")
    case True
    then show ?thesis using c_len_bound [of "unat ofs" buf] assms by linarith
  next
    case False
    then show ?thesis using unsigned_less [of ofs, where ?'a = nat] by (simp add: c_len_beyond)
  qed
  then show "unat (ofs + of_nat (c_len buf (unat ofs))) = unat ofs + c_len buf (unat ofs)"
    by (simp add: unat_word_ariths unat_of_nat)
qed

lemma scan_name_refused:
  fixes ofs :: u32
  assumes "length buf < 2 ^ 32"
  shows "length buf \<le> unat (ofs + of_nat (c_len buf (unat ofs))) \<longleftrightarrow> c_string buf (unat ofs) = None"
  by (auto simp: scan_name(2) [OF assms] c_string_c_len)

lemma c_string_length: "c_string buf off = Some s \<Longrightarrow> length s = c_len buf off"
  by (simp add: c_string_Some c_len_def)

lemma c_string_no_nul: "c_string buf off = Some s \<Longrightarrow> 0 \<notin> set s"
  using set_takeWhileD [of 0 "\<lambda>b. b \<noteq> 0" "drop off buf"] by (auto simp: c_string_Some)

lemma ucast_of_nat_unat: "(ucast (x :: 'a::len word) :: 'w::len word) = of_nat (unat x)"
  by simp

lemma name_distance:
  assumes "length buf < 2 ^ 32"
  shows "(base + ucast (ofs + of_nat (c_len buf (unat ofs)) :: u32)) - (base + ucast ofs) =
    (of_nat (c_len buf (unat ofs)) :: 'w::len word)"
  by (simp only: ucast_of_nat_unat scan_name(2) [OF assms]) simp

section \<open>The counting passes\<close>

definition is_entry :: "byte list \<Rightarrow> 'w::len word \<Rightarrow> 'w word \<Rightarrow> bool" where
  "is_entry buf base p \<longleftrightarrow>
     image_object base buf \<and> (\<exists>off. p = base + of_nat off \<and> off + 8 \<le> length buf)"

definition name_of_entry :: "byte list \<Rightarrow> 'w::len word \<Rightarrow> 'w word \<Rightarrow> cstring option" where
  "name_of_entry buf base p = entry_name buf (unat (p - base))"

lemma is_entry_reads:
  assumes "is_entry buf base p"
  shows "(read_le buf base p :: u32 option) = Some (entry_address buf (unat (p - base)))"
    and "(read_le buf base (p + 4) :: u32 option) = Some (le_at buf (unat (p - base) + 4))"
    and "length buf < 2 ^ 32"
proof -
  obtain off where o: "image_object base buf" "p = base + of_nat off" "off + 8 \<le> length buf"
    using assms by (auto simp: is_entry_def)
  have u: "unat (p - base) = off"
    using offset_of_pointer [OF o(1), of off] o(2,3) by simp
  show "(read_le buf base p :: u32 option) = Some (entry_address buf (unat (p - base)))"
    using read_le_image [OF o(1), of off, where 't = 32] o(3)
    unfolding u entry_address_def o(2) [symmetric] by simp
  have "base + of_nat off + 4 = base + of_nat (off + 4)" by (simp add: algebra_simps)
  then show "(read_le buf base (p + 4) :: u32 option) = Some (le_at buf (unat (p - base) + 4))"
    using read_le_image [OF o(1), of "off + 4", where 't = 32] o(3)
    unfolding u unfolding o(2) by (simp add: add.assoc)
  show "length buf < 2 ^ 32" using o(1) by (rule image_objectD(2))
qed

text \<open>The scan as both passes use it: refused, or the string with its length.\<close>

lemma scan_name_cases:
  fixes ofs :: u32
  assumes "length buf < 2 ^ 32"
  obtains (refused) ne where "scan_nul buf ofs = Some ne" "length buf \<le> unat ne"
      "c_string buf (unat ofs) = None"
    | (name) ne s where "scan_nul buf ofs = Some ne" "unat ne < length buf"
      "c_string buf (unat ofs) = Some s" "\<And>base. base + ucast ne - (base + ucast ofs) = (of_nat (length s) :: 'w::len word)"
proof (cases "c_string buf (unat ofs)")
  case None
  then show ?thesis using refused scan_name(1) [OF assms] scan_name_refused [OF assms] by blast
next
  case (Some s)
  show ?thesis
  proof (rule name [OF scan_name(1) [OF assms] _ Some])
    show "unat (ofs + of_nat (c_len buf (unat ofs))) < length buf"
      using Some scan_name_refused [OF assms, of ofs] by simp
    show "base + ucast (ofs + of_nat (c_len buf (unat ofs))) - (base + ucast ofs) =
        (of_nat (length s) :: 'w word)" for base
      unfolding name_distance [OF assms] c_string_length [OF Some] by (rule refl)
  qed
qed

lemma count_named_entry:
  assumes "is_entry buf (base :: 'w::len word) p"
  shows "count_named buf base p s = Some
    (case name_of_entry buf base p of
       Some name \<Rightarrow> (True, Suc (fst s), snd s + (of_nat (length name) + 1))
     | None \<Rightarrow> (False, s))"
proof -
  note r = is_entry_reads [OF assms]
  show ?thesis
    by (cases "le_at buf (unat (p - base) + 4) :: u32" rule: scan_name_cases [OF r(3), where ?'w = 'w])
      (auto simp: count_named_def r name_of_entry_def entry_name_def Let_def split_beta)
qed

lemma count_native_entry:
  assumes "is_entry buf (base :: 'w::len word) p"
  shows "count_native buf base ns p s = Some
    (case name_of_entry buf base p of
       None \<Rightarrow> (False, s)
     | Some name \<Rightarrow>
        (case find_native ns name of
           None \<Rightarrow> (False, fst s, True)
         | Some _ \<Rightarrow> (True, Suc (fst s), snd s)))"
proof -
  note r = is_entry_reads [OF assms]
  show ?thesis
    by (cases "le_at buf (unat (p - base) + 4) :: u32" rule: scan_name_cases [OF r(3), where ?'w = 'w])
      (auto simp: count_native_def r name_of_entry_def entry_name_def split_beta
        split: option.split)
qed

interpretation named_pass: table_pass
  "count_named buf base" "is_entry buf base" "\<lambda>p. name_of_entry buf base p \<noteq> None"
  "\<lambda>p s. (Suc (fst s), snd s + (of_nat (length (the (name_of_entry buf base p))) + 1))"
  "\<lambda>p s. s"
  for buf and base :: "'w::len word"
  by unfold_locales (auto simp: count_named_entry split: option.split)

interpretation native_pass: table_pass
  "count_native buf base ns" "is_entry buf base"
  "\<lambda>p. \<exists>name f. name_of_entry buf base p = Some name \<and> find_native ns name = Some f"
  "\<lambda>p s. (Suc (fst s), snd s)"
  "\<lambda>p s. case name_of_entry buf base p of None \<Rightarrow> s | Some _ \<Rightarrow> (fst s, True)"
  for buf and base :: "'w::len word" and ns
  by unfold_locales (auto simp: count_native_entry split: option.split)

section \<open>The counting stage computes the sizes of the parsed image\<close>

lemma name_of_entry_offset:
  "image_object (base :: 'w::len word) buf \<Longrightarrow> off \<le> length buf \<Longrightarrow>
   name_of_entry buf base (base + of_nat off) = entry_name buf off"
  unfolding name_of_entry_def by (simp only: offset_of_pointer)

lemma table_entry_pointers:
  assumes "image_object (base :: 'w::len word) buf" and "table_ok buf h b e"
    and "8 \<le> unat (h_defsize h)" and "off \<in> set (table_offsets h b e)"
  shows "off + 8 \<le> length buf" and "is_entry buf base (base + of_nat off)"
proof -
  have "off + unat (h_defsize h) \<le> length buf"
    using assms(2,4) entry_offsets_bound(3) unfolding table_ok_def table_offsets_def by blast
  with assms(3) show "off + 8 \<le> length buf" by linarith
  with assms(1) show "is_entry buf base (base + of_nat off)" by (auto simp: is_entry_def)
qed

lemma table_walk:
  assumes "image_object (base :: 'w::len word) buf"
  shows "iter_valarray base (of_nat (length buf)) (ucast b) (ucast e) (ucast (h_defsize h)) fn s =
    (if table_ok buf h b e
     then iter_entries fn (map (\<lambda>off. base + of_nat off) (table_offsets h b e)) s
     else Some (False, s))"
proof -
  note m = image_objectD [OF assms]
  have n: "unat (of_nat (length buf) :: 'w word) = length buf"
    using assms by (rule unat_offset) simp
  show ?thesis
    using m(3) by (simp only: iter_valarray_walk n unat_ucast_u32 [OF m(1)]
        unat_ucast_u16 [OF m(1)] table_ok_def table_offsets_def)
qed

lemma fold_count_named:
  assumes "image_object (base :: 'w::len word) buf" and "\<forall>off \<in> set offs. off \<le> length buf"
  shows "fold (\<lambda>p s. (Suc (fst s), snd s + (of_nat (length (the (name_of_entry buf base p))) + 1)))
      (map (\<lambda>off. base + of_nat off) offs) (k, z) =
    (k + length offs, z + (of_nat (length (packed (map (\<lambda>off. the (entry_name buf off)) offs))) :: 'w word))"
  using assms(2)
proof (induction offs arbitrary: k z)
  case Nil
  then show ?case by simp
next
  case (Cons off offs)
  then show ?case
    using name_of_entry_offset [OF assms(1), of off] by (simp add: algebra_simps)
qed

lemma count_named_pass:
  assumes im: "image_object (base :: 'w::len word) buf" and ds: "8 \<le> unat (h_defsize h)"
  shows "named_table buf h b e = Some t \<Longrightarrow>
      iter_valarray base (of_nat (length buf)) (ucast b) (ucast e) (ucast (h_defsize h))
        (count_named buf base) (k, z) =
      Some (True, k + length t, z + of_nat (length (packed (map fst t))))"
    and "named_table buf h b e = None \<Longrightarrow>
      \<exists>s'. iter_valarray base (of_nat (length buf)) (ucast b) (ucast e) (ucast (h_defsize h))
        (count_named buf base) (k, z) = Some (False, s')"
proof -
  let ?ps = "map (\<lambda>off. base + of_nat off) (table_offsets h b e)"
  let ?ok = "\<lambda>off. entry_name buf off \<noteq> None"
  have entries: "\<forall>p \<in> set ?ps. is_entry buf base p" if "table_ok buf h b e"
    using table_entry_pointers(2) [OF im that ds] by auto
  have le: "off \<le> length buf" if "table_ok buf h b e" "off \<in> set (table_offsets h b e)" for off
    using table_entry_pointers(1) [OF im that(1) ds that(2)] by simp
  have acc: "(\<forall>p \<in> set ?ps. name_of_entry buf base p \<noteq> None) \<longleftrightarrow>
      (\<forall>off \<in> set (table_offsets h b e). ?ok off)" if "table_ok buf h b e"
    using le [OF that] name_of_entry_offset [OF im] by fastforce
  show "iter_valarray base (of_nat (length buf)) (ucast b) (ucast e) (ucast (h_defsize h))
        (count_named buf base) (k, z) =
      Some (True, k + length t, z + of_nat (length (packed (map fst t))))"
    if t: "named_table buf h b e = Some t"
  proof -
    from t have ok: "table_ok buf h b e"
      and all: "\<forall>off \<in> set (table_offsets h b e). ?ok off"
      and t_def: "t = map (\<lambda>off. (the (entry_name buf off), entry_address buf off)) (table_offsets h b e)"
      by (auto simp: named_table_def split: if_splits)
    have "\<forall>p \<in> set ?ps. name_of_entry buf base p \<noteq> None" using acc [OF ok] all by blast
    from named_pass.walk_accepts [OF entries [OF ok] this]
    show ?thesis
      using ok le [OF ok] fold_count_named [OF im, of "table_offsets h b e" k z]
      by (simp add: table_walk [OF im] t_def comp_def)
  qed
  show "\<exists>s'. iter_valarray base (of_nat (length buf)) (ucast b) (ucast e) (ucast (h_defsize h))
        (count_named buf base) (k, z) = Some (False, s')"
    if t: "named_table buf h b e = None"
  proof (cases "table_ok buf h b e")
    case True
    with t have "\<exists>p \<in> set ?ps. \<not> name_of_entry buf base p \<noteq> None"
      using acc [OF True] by (simp add: named_table_def split: if_splits)
    from named_pass.walk_refuses [OF entries [OF True] this]
    show ?thesis using True by (simp add: table_walk [OF im])
  next
    case False
    then show ?thesis by (simp add: table_walk [OF im])
  qed
qed

definition resolvable :: "byte list \<Rightarrow> (cstring \<times> 'f) list \<Rightarrow> nat \<Rightarrow> bool" where
  "resolvable buf ns off \<longleftrightarrow>
     (\<exists>name f. entry_name buf off = Some name \<and> find_native ns name = Some f)"

lemma resolve_natives_eq:
  "resolve_natives buf ns offs =
    (case dropWhile (resolvable buf ns) offs of
       [] \<Rightarrow> Inr (map (\<lambda>off. the (find_native ns (the (entry_name buf off)))) offs)
     | off # _ \<Rightarrow> Inl (if entry_name buf off = None then LE_invalid_file else LE_native_not_resolved))"
proof (induction offs)
  case Nil
  then show ?case by simp
next
  case (Cons off offs)
  show ?case
  proof (cases "resolvable buf ns off")
    case True
    then obtain name f where nf: "entry_name buf off = Some name" "find_native ns name = Some f"
      by (auto simp: resolvable_def)
    show ?thesis
      by (cases "dropWhile (resolvable buf ns) offs")
        (simp_all add: Cons True nf del: dropWhile_eq_Nil_conv)
  next
    case False
    then show ?thesis by (auto simp: resolvable_def split: option.split)
  qed
qed

lemma fold_count_native: "fold (\<lambda>p s. (Suc (fst s), snd s)) ps (k, nf) = (k + length ps, nf)"
  by (induction ps arbitrary: k) auto

lemma count_native_pass:
  assumes im: "image_object (base :: 'w::len word) buf" and ds: "8 \<le> unat (h_defsize h)"
    and ok: "table_ok buf h b e"
  shows "\<exists>k'. iter_valarray base (of_nat (length buf)) (ucast b) (ucast e) (ucast (h_defsize h))
        (count_native buf base ns) (k, nf) = Some
      (case resolve_natives buf ns (table_offsets h b e) of
         Inr fs \<Rightarrow> (True, k + length fs, nf)
       | Inl er \<Rightarrow> (False, k', er = LE_native_not_resolved \<or> nf))"
proof -
  let ?offs = "table_offsets h b e"
  let ?ptr = "\<lambda>off. base + of_nat off :: 'w word"
  let ?acc = "\<lambda>p. \<exists>name f. name_of_entry buf base p = Some name \<and> find_native ns name = Some f"
  have entries: "\<forall>p \<in> set (map ?ptr ?offs). is_entry buf base p"
    using table_entry_pointers(2) [OF im ok ds] by auto
  have name: "name_of_entry buf base (?ptr off) = entry_name buf off" if "off \<in> set ?offs" for off
    using table_entry_pointers(1) [OF im ok ds that] name_of_entry_offset [OF im, of off] by simp
  have dw: "dropWhile ?acc (map ?ptr ?offs) = map ?ptr (dropWhile (resolvable buf ns) ?offs)"
    unfolding dropWhile_map
    by (rule arg_cong [where f = "map ?ptr"], rule dropWhile_cong)
      (auto simp: name resolvable_def)
  note walk = native_pass.walk [OF entries, of ns "(k, nf)", unfolded dw fold_count_native]
  show ?thesis
  proof (cases "dropWhile (resolvable buf ns) ?offs")
    case Nil
    then show ?thesis
      by (simp add: table_walk [OF im] ok walk resolve_natives_eq del: dropWhile_eq_Nil_conv)
  next
    case (Cons off rest)
    then have "off \<in> set ?offs" by (metis list.set_intros(1) set_dropWhileD)
    with Cons show ?thesis
      by (auto simp: table_walk [OF im] ok walk resolve_natives_eq name
          fold_count_native split: option.split)
  qed
qed

lemma count_tables_image:
  assumes im: "image_object (base :: 'w::len word) buf" and ds: "8 \<le> unat (h_defsize h)"
  shows "count_tables buf base ns h (c, d) =
    Some (map_sum (\<lambda>e. e) (image_counts :: _ \<Rightarrow> 'w counts) (parse_tables buf ns h c d))"
proof (cases "named_table buf h (h_publics h) (h_natives h)")
  case None
  then show ?thesis
    using count_named_pass(2) [OF im ds None, of 0 0]
    by (auto simp: count_tables_def parse_tables_def Let_def)
next
  case pubs: (Some pubs)
  note p1 = count_named_pass(1) [OF im ds pubs, of 0 0]
  show ?thesis
  proof (cases "table_ok buf h (h_natives h) (h_libraries h)")
    case False
    then have "iter_valarray base (of_nat (length buf)) (ucast (h_natives h))
        (ucast (h_libraries h)) (ucast (h_defsize h)) (count_native buf base ns) (0, False) =
      Some (False, 0, False)"
      by (simp add: table_walk [OF im])
    with False show ?thesis
      by (simp add: count_tables_def parse_tables_def Let_def p1 pubs)
  next
    case ok: True
    obtain k' where p2: "iter_valarray base (of_nat (length buf)) (ucast (h_natives h))
        (ucast (h_libraries h)) (ucast (h_defsize h)) (count_native buf base ns) (0, False) = Some
      (case resolve_natives buf ns (table_offsets h (h_natives h) (h_libraries h)) of
         Inr fs \<Rightarrow> (True, 0 + length fs, False)
       | Inl er \<Rightarrow> (False, k', er = LE_native_not_resolved \<or> False))"
      using count_native_pass [OF im ds ok] by blast
    show ?thesis
    proof (cases "resolve_natives buf ns (table_offsets h (h_natives h) (h_libraries h))")
      case (Inl er)
      then have "er = LE_invalid_file \<or> er = LE_native_not_resolved"
        by (auto simp: resolve_natives_eq split: list.splits if_splits)
      with Inl show ?thesis
        by (auto simp: count_tables_def parse_tables_def Let_def p1 p2 pubs ok)
    next
      case fs: (Inr fs)
      show ?thesis
      proof (cases "named_table buf h (h_pubvars h) (h_tags h)")
        case None
        obtain s' where "iter_valarray base (of_nat (length buf)) (ucast (h_pubvars h))
            (ucast (h_tags h)) (ucast (h_defsize h)) (count_named buf base)
            (0, of_nat (length (packed (map fst pubs)))) = Some (False, s')"
          using count_named_pass(2) [OF im ds None] by blast
        with None show ?thesis
          by (cases s') (simp add: count_tables_def parse_tables_def Let_def p1 p2 pubs ok fs)
      next
        case vars: (Some vars)
        note p3 = count_named_pass(1) [OF im ds vars, of 0 "of_nat (length (packed (map fst pubs)))"]
        show ?thesis
          by (simp add: count_tables_def parse_tables_def Let_def p1 p2 p3 pubs ok fs vars
              image_counts_def image_strings_def packed_append)
      qed
    qed
  qed
qed

section \<open>init up to the allocation\<close>

lemma count_segments_image:
  assumes im: "image_object (base :: 'w::len word) buf"
  shows "count_segments buf base h =
    Some (let csz = sizeof_cell TYPE('w)
          in if valarray_ok (length buf) (unat (h_cod h)) (unat (h_dat h)) csz
                \<and> valarray_ok (length buf) (unat (h_dat h)) (unat (h_hea h)) csz
             then Inr ((unat (h_dat h) - unat (h_cod h)) div csz,
                       (unat (h_hea h) - unat (h_dat h)) div csz)
             else Inl LE_invalid_file)"
proof -
  note m = image_objectD [OF im]
  have n: "unat (of_nat (length buf) :: 'w word) = length buf"
    using im by (rule unat_offset) simp
  have c: "unat (of_nat (sizeof_cell TYPE('w)) :: 'w word) = sizeof_cell TYPE('w)"
    using m(1) by (intro unat_small_nat) (auto elim: machine_word_cases)
  have obj: "unat base + unat (of_nat (length buf) :: 'w word) < 2 ^ LENGTH('w)"
    using m(3) by (simp only: n)
  show ?thesis
    by (auto simp: count_segments_def Let_def count_valarray_exact [OF obj] n c
        unat_ucast_u32 [OF m(1)])
qed

lemma check_header_defsize:
  "check_header w v n h = LE_success \<Longrightarrow> 8 \<le> unat (h_defsize h)"
  by (auto simp: check_header_def word_less_nat_alt split: if_splits)

definition hooked ::
  "('f, 'g, 'u) callbacks_arg \<Rightarrow> ('w::len, 'f, 'g, 'u, 'a) loader \<Rightarrow> ('w, 'f, 'g, 'u, 'a) loader"
where
  "hooked cbs l = l\<lparr>l_single_step := on_single_step cbs, l_break := on_break cbs,
     l_user_data := Some (user_data cbs)\<rparr>"

definition main_of :: "header \<Rightarrow> 'w::len word" where
  "main_of h = (if h_cip h = - 1 then 0 else ucast (h_cip h))"

lemma parse_image_Inr:
  assumes "parse_image w version buf ns = Inr im"
  shows "60 \<le> length buf" and "check_header w version (length buf) (header_of buf) = LE_success"
    and "im_header im = header_of buf"
    and "valarray_ok (length buf) (unat (h_cod (header_of buf))) (unat (h_dat (header_of buf))) (sizeof_cell w)"
    and "valarray_ok (length buf) (unat (h_dat (header_of buf))) (unat (h_hea (header_of buf))) (sizeof_cell w)"
    and "im_code im = (unat (h_dat (header_of buf)) - unat (h_cod (header_of buf))) div sizeof_cell w"
    and "im_data im = (unat (h_hea (header_of buf)) - unat (h_dat (header_of buf))) div sizeof_cell w"
    and "parse_tables buf ns (header_of buf) (im_code im) (im_data im) = Inr im"
  using assms
  by (auto simp: parse_image_def parse_tables_def Let_def split: if_splits option.splits sum.splits)

lemma init_parse:
  assumes im: "image_object (base :: 'w::len word) buf"
  shows "init ops k buf base cbs l0 =
    (case parse_image TYPE('w) (amx_version ops) buf (natives cbs) of
       Inr i \<Rightarrow> load_image ops k buf base (natives cbs) (im_header i) (image_counts i)
                 ((hooked cbs l0)\<lparr>main_fn := main_of (im_header i)\<rparr>)
     | Inl e \<Rightarrow>
         Some (e, if length buf < 60
                   \<or> check_header TYPE('w) (amx_version ops) (length buf) (header_of buf) \<noteq> LE_success
                   \<or> count_segments buf base (header_of buf) = Some (Inl LE_invalid_file)
                 then hooked cbs l0
                 else (hooked cbs l0)\<lparr>main_fn := main_of (header_of buf)\<rparr>))"
proof (cases "length buf < 60
    \<or> check_header TYPE('w) (amx_version ops) (length buf) (header_of buf) \<noteq> LE_success")
  case True
  then show ?thesis
    using read_header_image [OF im] by (auto simp: init_def parse_image_def Let_def hooked_def)
next
  case False
  let ?h = "header_of buf"
  have hd: "60 \<le> length buf" "check_header TYPE('w) (amx_version ops) (length buf) ?h = LE_success"
    using False by simp_all
  note ds = check_header_defsize [OF hd(2)]
  have ih: "im_header i = ?h" if "parse_tables buf (natives cbs) ?h c d = Inr i" for c d i
    using that by (auto simp: parse_tables_def split: if_splits option.splits sum.splits)
  show ?thesis
    using hd read_header_image [OF im hd(1)] ih
    by (auto simp: init_def parse_image_def Let_def hooked_def main_of_def count_segments_image [OF im]
        count_tables_image [OF im ds] split: sum.split)
qed

text \<open>
  C3: on every image the loader rejects before allocating (bad header, segment or table
  bounds, an unterminated name, an unresolved native, a library table), it returns the error
  that the plain reading of the file gives, after finitely many reads that all stay inside
  the buffer, and leaves the machine, the allocation and the tables of the loader untouched.
\<close>

theorem init_rejects:
  fixes base :: "'w::len word"
  assumes "image_object base buf"
    and "parse_image TYPE('w) (amx_version ops) buf (natives cbs) = Inl e"
  shows "\<exists>m. init ops k buf base cbs l0 = Some (e, (hooked cbs l0)\<lparr>main_fn := m\<rparr>)"
proof -
  let ?c = "length buf < 60
    \<or> check_header TYPE('w) (amx_version ops) (length buf) (header_of buf) \<noteq> LE_success
    \<or> count_segments buf base (header_of buf) = Some (Inl LE_invalid_file)"
  note eq = init_parse [OF assms(1), of ops k cbs l0, unfolded assms(2) sum.case]
  show ?thesis
  proof (cases ?c)
    case True
    show ?thesis
      unfolding eq if_P [OF True] by (rule exI [of _ "main_fn (hooked cbs l0)"]) simp
  next
    case False
    show ?thesis unfolding eq if_not_P [OF False] by blast
  qed
qed

lemma le_nat_zeros [simp]: "le_nat (replicate n 0) = 0"
  by (induction n) simp_all

text \<open>A header of 60 zero bytes: the magic is wrong.\<close>

theorem init_rejects_witness:
  "\<exists>m. init (\<lparr>amx_version = 11, code_map = (\<lambda>a p n. None), data_map = (\<lambda>a p n. None)\<rparr> :: (64, unit) amx_ops)
      \<lparr>mem_align = 16, pool_alloc = (\<lambda>n. None)\<rparr> (replicate 60 0) 4096
      \<lparr>natives = [] :: (cstring \<times> nat) list, on_single_step = None, on_break = None, user_data = ()\<rparr>
      (empty_loader () :: (64, nat, unit, unit, unit) loader) =
    Some (LE_invalid_file,
      (hooked \<lparr>natives = [] :: (cstring \<times> nat) list, on_single_step = None, on_break = None, user_data = ()\<rparr>
        (empty_loader ()))\<lparr>main_fn := m\<rparr>)"
  by (rule init_rejects)
    (simp_all add: image_object_def parse_image_def header_of_def le_at_def Let_def check_header_def
      expected_magic_def)

end
