(* ===== verification/Loader_Layout.thy ===== *)
theory Loader_Layout
  imports Loader_Parse
begin

text \<open>
  The one allocation of the loader.  Its layout in plain arithmetic, the condition under
  which the size computations of \<open>init\<close> do not wrap (\<open>layout_fits\<close>), the proof that
  the regions are then disjoint, aligned and inside the allocation, that the condition
  always holds on a 64-bit build, and what happens on x86 where it does not.
\<close>

section \<open>The layout in plain arithmetic\<close>

definition code_bytes :: "'w::len counts \<Rightarrow> nat" where
  "code_bytes c = n_code c * sizeof_cell TYPE('w)"

definition data_bytes :: "'w::len counts \<Rightarrow> nat" where
  "data_bytes c = unat (n_data_alloc c) * sizeof_cell TYPE('w)"

definition publics_bytes :: "'w::len counts \<Rightarrow> nat" where
  "publics_bytes c = n_publics c * (2 * sizeof_cell TYPE('w))"

definition pubvars_bytes :: "'w::len counts \<Rightarrow> nat" where
  "pubvars_bytes c = n_pubvars c * (2 * sizeof_cell TYPE('w))"

definition natives_bytes :: "'w::len counts \<Rightarrow> nat" where
  "natives_bytes c = n_natives c * sizeof_cell TYPE('w)"

definition natives_reserved :: "'w::len counts \<Rightarrow> nat" where
  "natives_reserved c = n_natives c * (2 * sizeof_cell TYPE('w))"

text \<open>The offset of each region; the code is at offset 0.\<close>

definition off_data :: "nat \<Rightarrow> 'w::len counts \<Rightarrow> nat" where
  "off_data A c = align_nat A (code_bytes c)"

definition off_publics :: "nat \<Rightarrow> 'w::len counts \<Rightarrow> nat" where
  "off_publics A c = off_data A c + align_nat A (data_bytes c)"

definition off_pubvars :: "nat \<Rightarrow> 'w::len counts \<Rightarrow> nat" where
  "off_pubvars A c = off_publics A c + align_nat A (publics_bytes c)"

definition off_natives :: "nat \<Rightarrow> 'w::len counts \<Rightarrow> nat" where
  "off_natives A c = off_pubvars A c + align_nat A (pubvars_bytes c)"

definition off_strings :: "nat \<Rightarrow> 'w::len counts \<Rightarrow> nat" where
  "off_strings A c = off_natives A c + align_nat A (natives_bytes c)"

definition total_bytes :: "nat \<Rightarrow> 'w::len counts \<Rightarrow> nat" where
  "total_bytes A c = off_natives A c + align_nat A (natives_reserved c) + unat (n_strings c)"

lemmas bytes_defs [layout_simps] =
  code_bytes_def data_bytes_def publics_bytes_def pubvars_bytes_def natives_bytes_def
  natives_reserved_def

lemmas off_defs [layout_simps] =
  off_data_def off_publics_def off_pubvars_def off_natives_def off_strings_def total_bytes_def

text \<open>No size or address computation of the layout wraps around.\<close>

definition layout_fits :: "nat \<Rightarrow> 'w::len counts \<Rightarrow> bool" where
  "layout_fits A c \<longleftrightarrow> 0 < A \<and> total_bytes A c + A \<le> 2 ^ LENGTH('w)"

lemma align_nat_mono: "m \<le> n \<Longrightarrow> align_nat a m \<le> align_nat a n"
  unfolding align_nat_def by (intro mult_le_mono1 div_le_mono) simp

lemma natives_le_reserved: "natives_bytes c \<le> natives_reserved c"
  by (simp add: layout_simps)

text \<open>The regions in order: each ends before the next begins, the strings before the end.\<close>

lemma layout_ordered:
  assumes "0 < A"
  shows "code_bytes c \<le> off_data A c"
    and "off_data A c + data_bytes c \<le> off_publics A c"
    and "off_publics A c + publics_bytes c \<le> off_pubvars A c"
    and "off_pubvars A c + pubvars_bytes c \<le> off_natives A c"
    and "off_natives A c + natives_bytes c \<le> off_strings A c"
    and "off_strings A c + unat (n_strings c) \<le> total_bytes A c"
proof -
  note ge = align_nat_ge [OF assms]
  show "code_bytes c \<le> off_data A c" by (simp add: off_data_def ge)
  show "off_data A c + data_bytes c \<le> off_publics A c" by (simp add: off_publics_def ge)
  show "off_publics A c + publics_bytes c \<le> off_pubvars A c" by (simp add: off_pubvars_def ge)
  show "off_pubvars A c + pubvars_bytes c \<le> off_natives A c" by (simp add: off_natives_def ge)
  show "off_natives A c + natives_bytes c \<le> off_strings A c" by (simp add: off_strings_def ge)
  show "off_strings A c + unat (n_strings c) \<le> total_bytes A c"
    by (simp add: off_strings_def total_bytes_def align_nat_mono natives_le_reserved)
qed

lemma layout_aligned:
  "A dvd off_data A c" "A dvd off_publics A c" "A dvd off_pubvars A c"
  "A dvd off_natives A c" "A dvd off_strings A c"
  by (simp_all add: off_defs align_nat_mult)

section \<open>The word computations of the loader compute this layout\<close>

lemma align_up_of_nat:
  fixes a :: "'w::len word"
  assumes "0 < unat a" and "n + unat a \<le> 2 ^ LENGTH('w)"
  shows "align_up (of_nat n) a = of_nat (align_nat (unat a) n)"
proof -
  have n: "unat (of_nat n :: 'w word) = n"
    using assms by (intro unat_of_nat_small) linarith
  have "unat (align_up (of_nat n) a) = align_nat (unat a) n"
    using unat_align_up [of a "of_nat n"] assms by (simp only: n)
  then show ?thesis by (metis of_nat_unat ucast_id)
qed

lemma layout_step_bounds:
  assumes "layout_fits A (c :: 'w::len counts)"
  shows "code_bytes c + A \<le> 2 ^ LENGTH('w)" "data_bytes c + A \<le> 2 ^ LENGTH('w)"
    "publics_bytes c + A \<le> 2 ^ LENGTH('w)" "pubvars_bytes c + A \<le> 2 ^ LENGTH('w)"
    "natives_bytes c + A \<le> 2 ^ LENGTH('w)" "natives_reserved c + A \<le> 2 ^ LENGTH('w)"
proof -
  have A: "0 < A" and t: "total_bytes A c + A \<le> 2 ^ LENGTH('w)"
    using assms by (simp_all add: layout_fits_def)
  note o = layout_ordered [OF A, of c]
  have r: "off_natives A c + natives_reserved c \<le> total_bytes A c"
    using align_nat_ge [OF A, of "natives_reserved c"] by (simp add: total_bytes_def)
  show "code_bytes c + A \<le> 2 ^ LENGTH('w)" "data_bytes c + A \<le> 2 ^ LENGTH('w)"
    "publics_bytes c + A \<le> 2 ^ LENGTH('w)" "pubvars_bytes c + A \<le> 2 ^ LENGTH('w)"
    "natives_bytes c + A \<le> 2 ^ LENGTH('w)" "natives_reserved c + A \<le> 2 ^ LENGTH('w)"
    using t o r by linarith+
qed

lemma word_products:
  fixes c :: "'w::len counts"
  shows "of_nat (n_code c) * of_nat (sizeof_cell TYPE('w)) = (of_nat (code_bytes c) :: 'w word)"
    "n_data_alloc c * of_nat (sizeof_cell TYPE('w)) = (of_nat (data_bytes c) :: 'w word)"
    "of_nat (n_publics c) * sizeof_pair TYPE('w) = (of_nat (publics_bytes c) :: 'w word)"
    "of_nat (n_pubvars c) * sizeof_pair TYPE('w) = (of_nat (pubvars_bytes c) :: 'w word)"
    "of_nat (n_natives c) * of_nat (sizeof_cell TYPE('w)) = (of_nat (natives_bytes c) :: 'w word)"
    "of_nat (n_natives c) * sizeof_pair TYPE('w) = (of_nat (natives_reserved c) :: 'w word)"
  by (simp_all add: layout_simps sizeof_pair_def)

lemma aligned_products:
  fixes c :: "'w::len counts"
  assumes "layout_fits (unat a) c"
  shows "align_up (of_nat (n_code c) * of_nat (sizeof_cell TYPE('w))) a =
      of_nat (align_nat (unat a) (code_bytes c))"
    "align_up (n_data_alloc c * of_nat (sizeof_cell TYPE('w))) a =
      of_nat (align_nat (unat a) (data_bytes c))"
    "align_up (of_nat (n_publics c) * sizeof_pair TYPE('w)) a =
      of_nat (align_nat (unat a) (publics_bytes c))"
    "align_up (of_nat (n_pubvars c) * sizeof_pair TYPE('w)) a =
      of_nat (align_nat (unat a) (pubvars_bytes c))"
    "align_up (of_nat (n_natives c) * of_nat (sizeof_cell TYPE('w))) a =
      of_nat (align_nat (unat a) (natives_bytes c))"
    "align_up (of_nat (n_natives c) * sizeof_pair TYPE('w)) a =
      of_nat (align_nat (unat a) (natives_reserved c))"
  unfolding word_products
  using assms layout_step_bounds [OF assms]
  by (simp_all only: layout_fits_def align_up_of_nat)

lemma unat_alloc_size:
  fixes c :: "'w::len counts"
  assumes "layout_fits (unat a) c"
  shows "unat (alloc_size a c) = total_bytes (unat a) c"
proof -
  have "alloc_size a c = of_nat (total_bytes (unat a) c)"
    by (simp add: alloc_size_def Let_def aligned_products [OF assms] off_defs)
  then show ?thesis
    using assms by (simp add: layout_fits_def unat_of_nat_small)
qed

lemma unat_region_offset:
  fixes c :: "'w::len counts"
  assumes "layout_fits A c" and "n \<le> total_bytes A c"
  shows "unat (of_nat n :: 'w word) = n"
  using assms by (intro unat_of_nat_small) (simp add: layout_fits_def)

text \<open>Where \<open>place_regions\<close> puts everything.\<close>

lemma place_regions_layout:
  fixes c :: "'w::len counts"
  assumes fits: "layout_fits (unat a) c"
  shows "place_regions a block (alloc_size a c) c l =
    l\<lparr>alloc_block := Some (block, alloc_size a c),
      code_ptr := block, code_count := of_nat (n_code c),
      data_ptr := block + of_nat (off_data (unat a) c), data_count := n_data_alloc c,
      publics_ptr := block + of_nat (off_publics (unat a) c), publics_count := of_nat (n_publics c),
      pubvars_ptr := block + of_nat (off_pubvars (unat a) c), pubvars_count := of_nat (n_pubvars c),
      natives_ptr := block + of_nat (off_natives (unat a) c), natives_count := of_nat (n_natives c),
      publics_mem := replicate (n_publics c) (0, 0),
      pubvars_mem := replicate (n_pubvars c) (0, 0),
      natives_mem := replicate (n_natives c) None,
      str_base := block + of_nat (off_strings (unat a) c),
      str_mem := replicate (total_bytes (unat a) c - off_strings (unat a) c) 0\<rparr>"
proof -
  have le: "off_strings (unat a) c \<le> total_bytes (unat a) c"
    using layout_ordered(6) [of "unat a" c] fits by (simp add: layout_fits_def)
  have u: "unat (block + of_nat (off_strings (unat a) c) - block) = off_strings (unat a) c"
    using unat_region_offset [OF fits le] by simp
  show ?thesis
    using u by (simp add: place_regions_def alloc_from_buffer_aligned_def Let_def
        aligned_products [OF fits] off_defs unat_alloc_size [OF fits] add.assoc)
qed

section \<open>On a 64-bit build the layout always fits\<close>

lemma valarray_ok_count:
  assumes "valarray_ok n b e es" and "0 < es"
  shows "(e - b) div es * es \<le> n"
  using assms div_times_less_eq_dividend [of "e - b" es] unfolding valarray_ok_def by linarith

lemma table_count_bound:
  assumes "table_ok buf h b e" and "8 \<le> unat (h_defsize h)"
  shows "length (table_offsets h b e) * 8 \<le> length buf"
proof -
  have "length (table_offsets h b e) * 8 \<le> length (table_offsets h b e) * unat (h_defsize h)"
    using assms(2) by simp
  also have "\<dots> \<le> length buf"
    using valarray_ok_count assms unfolding table_ok_def table_offsets_def length_entry_offsets
    by (metis le_less_trans less_le_trans not_less zero_less_numeral)
  finally show ?thesis .
qed

lemma entry_name_bound: "entry_name buf off = Some s \<Longrightarrow> length s + 1 \<le> length buf"
  by (auto simp: entry_name_def c_string_Some)

lemma named_table_bounds:
  assumes "named_table buf h b e = Some t" and "8 \<le> unat (h_defsize h)"
  shows "length t * 8 \<le> length buf" and "length (packed (map fst t)) \<le> length t * length buf"
proof -
  have ok: "table_ok buf h b e"
    and nm: "\<forall>off \<in> set (table_offsets h b e). entry_name buf off \<noteq> None"
    and t: "t = map (\<lambda>off. (the (entry_name buf off), entry_address buf off)) (table_offsets h b e)"
    using assms(1) by (auto simp: named_table_def split: if_splits)
  show "length t * 8 \<le> length buf" using table_count_bound [OF ok assms(2)] t by simp
  have all: "\<forall>s \<in> set (map fst t). length s + 1 \<le> length buf"
    using nm t entry_name_bound by fastforce
  have packed_le: "length (packed ss) \<le> length ss * m"
    if "\<forall>s \<in> set ss. length s + 1 \<le> m" for ss :: "cstring list" and m
    using that by (induction ss) auto
  show "length (packed (map fst t)) \<le> length t * length buf"
    using packed_le [OF all] by simp
qed

lemma resolve_natives_length:
  "resolve_natives buf ns offs = Inr fs \<Longrightarrow> length fs = length offs"
  by (auto simp: resolve_natives_eq split: list.splits)

lemma image_bounds:
  assumes "parse_image w version buf ns = Inr im" and "0 < sizeof_cell w"
  shows "im_code im * sizeof_cell w \<le> length buf" and "im_data im * sizeof_cell w \<le> length buf"
    and "length (im_publics im) * 8 \<le> length buf" and "length (im_pubvars im) * 8 \<le> length buf"
    and "length (im_natives im) * 8 \<le> length buf"
    and "length (packed (image_strings im)) \<le>
      (length (im_publics im) + length (im_pubvars im)) * length buf"
proof -
  note p = parse_image_Inr [OF assms(1)]
  note ds = check_header_defsize [OF p(2)]
  show "im_code im * sizeof_cell w \<le> length buf" "im_data im * sizeof_cell w \<le> length buf"
    using p valarray_ok_count [OF p(4) assms(2)] valarray_ok_count [OF p(5) assms(2)] by simp_all
  have t: "named_table buf (header_of buf) (h_publics (header_of buf)) (h_natives (header_of buf))
      = Some (im_publics im)"
    "named_table buf (header_of buf) (h_pubvars (header_of buf)) (h_tags (header_of buf))
      = Some (im_pubvars im)"
    "table_ok buf (header_of buf) (h_natives (header_of buf)) (h_libraries (header_of buf))"
    "length (im_natives im) =
      length (table_offsets (header_of buf) (h_natives (header_of buf)) (h_libraries (header_of buf)))"
    using p(8) by (cases im; auto simp: parse_tables_def resolve_natives_length
        split: if_splits option.splits sum.splits)+
  note n1 = named_table_bounds [OF t(1) ds] and n2 = named_table_bounds [OF t(2) ds]
  show "length (im_publics im) * 8 \<le> length buf" "length (im_pubvars im) * 8 \<le> length buf"
    using n1 n2 by simp_all
  show "length (im_natives im) * 8 \<le> length buf"
    using table_count_bound [OF t(3) ds] t(4) by simp
  show "length (packed (image_strings im)) \<le>
      (length (im_publics im) + length (im_pubvars im)) * length buf"
    using n1 n2 by (simp add: image_strings_def packed_append algebra_simps)
qed

lemma data_alloc_cells_64:
  assumes "d < 2 ^ 32"
  shows "unat (data_alloc_cells h d :: 64 word) = d + (unat (h_stp h - h_hea h) + 7) div 8"
proof -
  let ?x = "h_stp h - h_hea h"
  have x: "unat ?x < 2 ^ 32" using unsigned_less [of ?x, where ?'a = nat] by simp
  have e: "(ucast ?x + of_nat (sizeof_cell TYPE(64)) - 1 :: 64 word) = of_nat (unat ?x + 7)"
    by (simp add: ucast_of_nat_unat del: of_nat_unat)
  have q: "(of_nat (unat ?x + 7) :: 64 word) div of_nat (sizeof_cell TYPE(64)) =
      of_nat ((unat ?x + 7) div 8)"
  proof -
    have "unat ((of_nat (unat ?x + 7) :: 64 word) div 8) = (unat ?x + 7) div 8"
      using x by (simp add: unat_div_distrib unat_of_nat_small del: of_nat_add)
    then show ?thesis by (metis of_nat_numeral of_nat_unat sizeof_cell_64 ucast_id)
  qed
  have "data_alloc_cells h d = (of_nat (d + (unat ?x + 7) div 8) :: 64 word)"
    unfolding data_alloc_cells_def Let_def e q by simp
  then show ?thesis using assms x by (simp add: unat_of_nat_small del: of_nat_add)
qed

lemma packed_bound:
  assumes im: "image_object base buf" and p: "parse_image TYPE(64) version buf ns = Inr i"
  shows "length (packed (image_strings i)) \<le> 2 ^ 62"
proof -
  note b = image_bounds [OF p, simplified]
  have n: "length buf < 2 ^ 32" using im by (rule image_objectD(2))
  have "length (packed (image_strings i)) \<le> (length (im_publics i) + length (im_pubvars i)) * 2 ^ 32"
    using b(6) n by (meson le_trans less_imp_le mult_le_mono2)
  moreover have "length (im_publics i) + length (im_pubvars i) \<le> 2 ^ 30"
    using b(3,4) n by simp
  ultimately show ?thesis by simp
qed

lemma layout_fits_64:
  fixes base :: "64 word"
  assumes im: "image_object base buf" and p: "parse_image TYPE(64) version buf ns = Inr i"
    and A: "0 < A" "A \<le> 2 ^ 32"
  shows "layout_fits A (image_counts i :: 64 counts)"
proof -
  let ?c = "image_counts i :: 64 counts" and ?n = "length buf"
  have n: "?n < 2 ^ 32" using im by (rule image_objectD(2))
  note b = image_bounds [OF p, simplified]
  have al: "align_nat A m < m + A" for m using A(1) by (rule align_nat_less)
  have x: "unat (h_stp (im_header i) - h_hea (im_header i)) < 2 ^ 32"
    using unsigned_less [of "h_stp (im_header i) - h_hea (im_header i)", where ?'a = nat] by simp
  have d: "unat (n_data_alloc ?c) = im_data i
      + (unat (h_stp (im_header i) - h_hea (im_header i)) + 7) div 8"
    using b(2) n by (simp add: image_counts_def data_alloc_cells_64)
  note s = packed_bound [OF im p]
  have s': "unat (n_strings ?c) \<le> 2 ^ 62"
    using s by (simp add: image_counts_def unat_of_nat_small)
  have sizes: "code_bytes ?c \<le> 2 ^ 32" "data_bytes ?c \<le> 2 ^ 34" "publics_bytes ?c \<le> 2 ^ 33"
    "pubvars_bytes ?c \<le> 2 ^ 33" "natives_reserved ?c \<le> 2 ^ 33"
    using b n x d by (simp_all add: layout_simps image_counts_def)
  have "total_bytes A ?c + A \<le> 2 ^ 62 + (2 ^ 32 + 2 ^ 34 + 3 * 2 ^ 33) + 6 * 2 ^ 32"
    using al [of "code_bytes ?c"] al [of "data_bytes ?c"] al [of "publics_bytes ?c"]
      al [of "pubvars_bytes ?c"] al [of "natives_reserved ?c"] sizes s' A(2)
    unfolding off_defs by linarith
  then show ?thesis using A(1) by (simp add: layout_fits_def)
qed

section \<open>The regions are disjoint and inside the allocation\<close>

text \<open>
  The regions a loader holds, as ranges of addresses: code, data, publics, pubvars, natives
  and strings.
\<close>

definition regions :: "('w::len, 'f, 'g, 'u, 'a) loader \<Rightarrow> (nat \<times> nat) list" where
  "regions l =
    (let csz = sizeof_cell TYPE('w)
     in [(unat (code_ptr l), unat (code_count l) * csz),
         (unat (data_ptr l), unat (data_count l) * csz),
         (unat (publics_ptr l), length (publics_mem l) * (2 * csz)),
         (unat (pubvars_ptr l), length (pubvars_mem l) * (2 * csz)),
         (unat (natives_ptr l), length (natives_mem l) * csz),
         (unat (str_base l), length (str_mem l))])"

text \<open>Consecutive ranges from \<open>lo\<close> to \<open>hi\<close>, none reaching into the next.\<close>

fun ranges_between :: "nat \<Rightarrow> nat \<Rightarrow> (nat \<times> nat) list \<Rightarrow> bool" where
  "ranges_between lo hi [] \<longleftrightarrow> lo \<le> hi"
| "ranges_between lo hi ((p, n) # rs) \<longleftrightarrow> lo \<le> p \<and> ranges_between (p + n) hi rs"

lemma place_regions_ranges:
  fixes c :: "'w::len counts"
  assumes fits: "layout_fits (unat a) c"
    and block: "unat block + unat (alloc_size a c) < 2 ^ LENGTH('w)"
  shows "ranges_between (unat block) (unat block + unat (alloc_size a c))
    (regions (place_regions a block (alloc_size a c) c l))"
proof -
  let ?A = "unat a" and ?T = "total_bytes (unat a) c"
  have A: "0 < ?A" and T: "unat (alloc_size a c) = ?T"
    using fits unat_alloc_size [OF fits] by (simp_all add: layout_fits_def)
  note le = layout_ordered [OF A, of c]
  have t: "off_data ?A c \<le> ?T" "off_publics ?A c \<le> ?T" "off_pubvars ?A c \<le> ?T"
    "off_natives ?A c \<le> ?T" "off_strings ?A c \<le> ?T"
    using le by linarith+
  have u: "unat (block + of_nat off :: 'w word) = unat block + off" if "off \<le> ?T" for off
    using unat_region_offset [OF fits that] block T that by (simp add: unat_add_no_wrap)
  have cc: "unat (of_nat (n_code c) :: 'w word) * sizeof_cell TYPE('w) \<le> code_bytes c"
    by (simp add: code_bytes_def unat_of_nat mod_less_eq_dividend mult_le_mono1)
  show ?thesis
    using le cc unfolding place_regions_layout [OF fits] regions_def Let_def T
    by (simp add: u t publics_bytes_def pubvars_bytes_def natives_bytes_def data_bytes_def)
qed

text \<open>
  C20: on a 64-bit build, for every image the parse accepts and every block the pool returns,
  the code, the data, the three tables and the string buffer are carved out of the block in
  order, disjoint and inside it, and the string buffer has room for all names.
\<close>

theorem regions_disjoint_64:
  fixes base block a :: "64 word"
  assumes "image_object base buf" and "parse_image TYPE(64) version buf ns = Inr i"
    and "0 < a" and "a \<le> 4096"
    and "unat block + unat (alloc_size a (image_counts i)) < 2 ^ 64"
  shows "ranges_between (unat block) (unat block + unat (alloc_size a (image_counts i)))
      (regions (place_regions a block (alloc_size a (image_counts i)) (image_counts i) l)) \<and>
    length (packed (image_strings i)) \<le>
      length (str_mem (place_regions a block (alloc_size a (image_counts i)) (image_counts i) l))"
proof -
  let ?c = "image_counts i :: 64 counts"
  have A: "0 < unat a" "unat a \<le> 2 ^ 32"
    using assms(3,4) by (simp_all add: word_le_nat_alt unat_gt_0)
  have fits: "layout_fits (unat a) ?c" by (rule layout_fits_64 [OF assms(1,2) A])
  have "ranges_between (unat block) (unat block + unat (alloc_size a ?c))
      (regions (place_regions a block (alloc_size a ?c) ?c l))"
    using assms(5) by (intro place_regions_ranges fits) simp
  moreover have "length (packed (image_strings i)) = unat (n_strings ?c)"
    using packed_bound [OF assms(1,2)] by (simp add: image_counts_def unat_of_nat_small)
  then have "length (packed (image_strings i)) \<le>
      length (str_mem (place_regions a block (alloc_size a ?c) ?c l))"
    using layout_ordered(6) [OF A(1), of ?c] by (simp add: place_regions_layout [OF fits])
  ultimately show ?thesis by blast
qed



section \<open>Sample files\<close>

lemmas parse_eval =
  parse_image_def header_of_def le_at_def Let_def check_header_def expected_magic_def
  flag_overlay_def flag_sleep_def valarray_ok_def parse_tables_def named_table_def table_ok_def
  table_offsets_def entry_offsets_def entry_name_def entry_address_def c_string_def

text \<open>
  A file with one 8-byte (or two 4-byte) cells of data and no tables, for a given magic and
  stack top.
\<close>

definition sample_data_file :: "byte \<Rightarrow> byte \<Rightarrow> byte list" where
  "sample_data_file m stp =
    [68, 0, 0, 0, m, 0xF1, 11, 0, 0, 0, 8, 0,
     60, 0, 0, 0, 60, 0, 0, 0, 68, 0, 0, 0, stp, 0, 0, 0, 0, 0, 0, 0,
     68, 0, 0, 0, 68, 0, 0, 0, 68, 0, 0, 0, 68, 0, 0, 0, 68, 0, 0, 0, 0, 0, 0, 0, 0, 0, 0, 0,
     1, 2, 3, 4, 5, 6, 7, 8]"

definition sample_data_image :: "byte \<Rightarrow> byte \<Rightarrow> nat \<Rightarrow> nat image" where
  "sample_data_image m stp d =
    \<lparr>im_header = header_of (sample_data_file m stp), im_code = 0, im_data = d,
     im_publics = [], im_natives = [], im_pubvars = []\<rparr>"

definition sample_loader :: "('w::len, nat, unit, unit, unit) loader" where
  "sample_loader = empty_loader ()"

lemma parse_sample_data_64:
  "parse_image TYPE(64) 11 (sample_data_file 0xE1 68) [] = Inr (sample_data_image 0xE1 68 1)"
  by (simp add: sample_data_file_def sample_data_image_def parse_eval)

lemma parse_sample_data_32:
  "parse_image TYPE(32) 11 (sample_data_file 0xE0 64) [] = Inr (sample_data_image 0xE0 64 2)"
  by (simp add: sample_data_file_def sample_data_image_def parse_eval)

text \<open>A 72-byte stack in a 64-bit image: one cell of data in a block of 16 bytes.\<close>

theorem regions_disjoint_64_witness:
  "ranges_between 4096 4112
     (regions (place_regions (16 :: 64 word) 4096 (alloc_size 16 (image_counts (sample_data_image 0xE1 68 1)))
       (image_counts (sample_data_image 0xE1 68 1)) sample_loader))"
proof -
  have s: "alloc_size 16 (image_counts (sample_data_image 0xE1 68 1)) = (16 :: 64 word)"
    by (simp add: alloc_size_def image_counts_def sample_data_image_def data_alloc_cells_def
        align_up_def Let_def header_of_def sample_data_file_def le_at_def sizeof_pair_def
        image_strings_def)
  have im: "image_object (8192 :: 64 word) (sample_data_file 0xE1 68)"
    by (simp add: image_object_def sample_data_file_def)
  show ?thesis
    using regions_disjoint_64 [OF im parse_sample_data_64, of 16 4096 sample_loader]
    unfolding s by simp
qed

section \<open>On x86 the layout can wrap around\<close>

text \<open>
  The size of the stack, \<open>stp - hea\<close>, is a difference of unsigned 32-bit fields of the
  file that nothing bounds.  On x86 it is added to \<open>sizeof(cell) - 1\<close> without a wider type.
\<close>

lemma data_cells_wrap:
  assumes "h_stp h = h_hea h - 4" and "0 < d"
  shows "(data_alloc_cells h d :: 32 word) = of_nat (d + (2 ^ 30 - 1))"
    and "(data_alloc_cells h d :: 32 word) * 4 = of_nat ((d - 1) * 4)"
proof -
  show e: "(data_alloc_cells h d :: 32 word) = of_nat (d + (2 ^ 30 - 1))"
    using assms by (simp add: data_alloc_cells_def Let_def)
  have "(d + (2 ^ 30 - 1)) * 4 = (d - 1) * 4 + 2 ^ 32" using assms(2) by simp
  then have "(of_nat (d + (2 ^ 30 - 1)) :: 32 word) * of_nat 4 =
      of_nat ((d - 1) * 4) + of_nat (2 ^ 32)"
    by (metis of_nat_add of_nat_mult)
  moreover have "(of_nat (2 ^ 32) :: 32 word) = 0" by (simp add: word_of_nat_eq_0_iff)
  ultimately show "(data_alloc_cells h d :: 32 word) * 4 = of_nat ((d - 1) * 4)"
    unfolding e by simp
qed

text \<open>
  on x86, an accepted file whose \<open>stp\<close> is one cell below \<open>hea\<close> makes the size of the
  data region wrap around: the loader allocates a block with room for one cell less than the
  data segment, and then holds, and maps into the machine, a data region of more than a
  billion cells, 4 GiB from an address inside that block.
\<close>

theorem x86_data_region_wraps:
  fixes base block :: "32 word"
  assumes "image_object base buf" and "parse_image TYPE(32) version buf ns = Inr i"
    and "h_stp (im_header i) = h_hea (im_header i) - 4" and "0 < im_data i"
    and "length buf \<le> 2 ^ 12"
    and "l = place_regions 8 block (alloc_size 8 (image_counts i)) (image_counts i) l0"
  shows "unat (data_count l) = im_data i + (2 ^ 30 - 1)
    \<and> unat (publics_ptr l - data_ptr l) = align_nat 8 ((im_data i - 1) * 4)
    \<and> unat (alloc_size 8 (image_counts i) :: 32 word) < 2 ^ 25
    \<and> 2 ^ 32 \<le> unat (data_count l) * sizeof_cell TYPE(32)"
proof -
  let ?c = "image_counts i :: 32 counts"
  note b = image_bounds [OF assms(2), simplified]
  have d: "im_data i * 4 \<le> 2 ^ 12" using b(2) assms(5) by linarith
  note w = data_cells_wrap [OF assms(3,4)]
  have dn: "n_data_alloc ?c = of_nat (im_data i + (2 ^ 30 - 1))"
    "n_data_alloc ?c * of_nat (sizeof_cell TYPE(32)) = of_nat ((im_data i - 1) * 4)"
    using w by (simp_all add: image_counts_def)
  have al: "align_up (of_nat n :: 32 word) 8 = of_nat (align_nat 8 n)" if "n \<le> 2 ^ 12" for n
    using align_up_of_nat [of "8 :: 32 word" n] that by simp
  have le: "align_nat 8 n < 2 ^ 13" if "n \<le> 2 ^ 12" for n
    using align_nat_less [of 8 n] that by simp
  have sz: "code_bytes ?c \<le> 2 ^ 12" "(im_data i - 1) * 4 \<le> 2 ^ 12" "publics_bytes ?c \<le> 2 ^ 12"
    "pubvars_bytes ?c \<le> 2 ^ 12" "natives_reserved ?c \<le> 2 ^ 12"
    using b assms(5) d by (simp_all add: layout_simps image_counts_def)
  have s: "length (packed (image_strings i)) \<le> 2 ^ 24"
  proof -
    have "length (packed (image_strings i)) \<le> (length (im_publics i) + length (im_pubvars i)) * 2 ^ 12"
      using b(6) assms(5) by (meson le_trans mult_le_mono2)
    moreover have "length (im_publics i) + length (im_pubvars i) \<le> 2 ^ 12"
      using b(3,4) assms(5) by simp
    ultimately show ?thesis by simp
  qed
  let ?total = "align_nat 8 (code_bytes ?c) + align_nat 8 ((im_data i - 1) * 4)
    + align_nat 8 (publics_bytes ?c) + align_nat 8 (pubvars_bytes ?c)
    + align_nat 8 (natives_reserved ?c) + length (packed (image_strings i))"
  have "alloc_size 8 ?c = of_nat ?total"
    unfolding alloc_size_def Let_def dn(2) word_products(1,3-6) al [OF sz(1)] al [OF sz(2)] al [OF sz(3)]
      al [OF sz(4)] al [OF sz(5)] by (simp add: image_counts_def)
  moreover have total: "?total < 2 ^ 25"
    using le [OF sz(1)] le [OF sz(2)] le [OF sz(3)] le [OF sz(4)] le [OF sz(5)] s by simp
  ultimately have size: "unat (alloc_size 8 ?c) < 2 ^ 25"
    by (simp add: unat_of_nat_small del: of_nat_add)
  have count: "unat (data_count l) = im_data i + (2 ^ 30 - 1)"
    using d unfolding assms(6) place_regions_def alloc_from_buffer_aligned_def Let_def dn(1)
    by (simp add: unat_of_nat_small dn(1) del: of_nat_add)
  have "publics_ptr l - data_ptr l = of_nat (align_nat 8 ((im_data i - 1) * 4))"
    unfolding assms(6) place_regions_def alloc_from_buffer_aligned_def Let_def dn(2) al [OF sz(2)]
    by (simp add: dn(2) al [OF sz(2)])
  then have ptr: "unat (publics_ptr l - data_ptr l) = align_nat 8 ((im_data i - 1) * 4)"
    using le [OF sz(2)] by (simp add: unat_of_nat_small)
  show ?thesis using size count ptr assms(4) by simp
qed

theorem x86_data_region_wraps_witness:
  "unat (data_count (place_regions 8 65536 (alloc_size 8 (image_counts (sample_data_image 0xE0 64 2)))
     (image_counts (sample_data_image 0xE0 64 2)) sample_loader) :: 32 word) = 2 ^ 30 + 1"
proof -
  have im: "image_object (8192 :: 32 word) (sample_data_file 0xE0 64)"
    by (simp add: image_object_def sample_data_file_def)
  have h: "h_stp (im_header (sample_data_image 0xE0 64 2)) = h_hea (im_header (sample_data_image 0xE0 64 2)) - 4"
    by (simp add: sample_data_image_def header_of_def sample_data_file_def le_at_def)
  have d: "0 < im_data (sample_data_image 0xE0 64 2)" "im_data (sample_data_image 0xE0 64 2) = 2"
    by (simp_all add: sample_data_image_def)
  have len: "length (sample_data_file 0xE0 64) \<le> 2 ^ 12" by (simp add: sample_data_file_def)
  show ?thesis
    using x86_data_region_wraps [OF im parse_sample_data_32 h d(1) len refl, of 65536 sample_loader]
    unfolding d(2) by simp
qed

end
