(* ===== verification/Loader_Fill.thy ===== *)
theory Loader_Fill
  imports Loader_Layout
begin

text \<open>
  The second half of \<open>init\<close>: the copies of the segments and the filling passes, under
  \<open>layout_fits\<close>.  What the tables hold afterwards is the parsed image: \<open>symtab\<close> is the
  table of a list of names packed one after the other into the string buffer.
\<close>

section \<open>Accesses to the allocation\<close>

lemma unat_inside:
  fixes p sz :: "'w::len word"
  assumes "unat (p - b) + n \<le> unat sz"
  shows "unat (p + of_nat n - b) = unat (p - b) + n"
proof -
  have b: "unat (p - b) + n < 2 ^ LENGTH('w)"
    using assms unsigned_less [of sz, where ?'a = nat] by linarith
  have "p + of_nat n - b = (p - b) + of_nat n" by simp
  also have "unat \<dots> = unat (p - b) + n"
    using b by (subst unat_add_no_wrap) (simp_all add: unat_of_nat_small)
  finally show ?thesis .
qed

lemma inside_block_step:
  fixes p :: "'w::len word"
  assumes "unat (p - fst blk) + i * m \<le> unat (snd blk)"
  shows "inside_block blk (p + of_nat i * of_nat m) n \<longleftrightarrow>
    unat (p - fst blk) + i * m + n \<le> unat (snd blk)"
  using unat_inside [OF assms] by (simp add: inside_block_def)

lemma fix_cells_result:
  fixes p :: "'w::len word"
  assumes "unat (p - fst blk) + i * sizeof_cell TYPE('w) \<le> unat (snd blk)"
  shows "fix_cells blk p k i cells =
    (if k = 0 \<or> unat (p - fst blk) + (i + k) * sizeof_cell TYPE('w) \<le> unat (snd blk)
     then Some cells else None)"
  using assms
proof (induction k arbitrary: i cells)
  case 0
  then show ?case by simp
next
  case (Suc k)
  let ?c = "sizeof_cell TYPE('w)"
  note inb = inside_block_step [OF Suc.prems, of ?c]
  show ?case
  proof (cases "unat (p - fst blk) + Suc i * ?c \<le> unat (snd blk)")
    case True
    have "(if i < length cells then cells[i := from_le_cell (cells ! i)] else cells) = cells"
      by (simp add: from_le_cell_def)
    then show ?thesis
      using True inb Suc.IH [OF True, of cells] by (auto simp: algebra_simps)
  next
    case False
    then have "\<not> unat (p - fst blk) + (i + Suc k) * ?c \<le> unat (snd blk)"
      by (simp add: algebra_simps)
    then show ?thesis using False inb by (simp add: algebra_simps)
  qed
qed

section \<open>Copying the segments\<close>

definition segment_bytes :: "byte list \<Rightarrow> u32 \<Rightarrow> u32 \<Rightarrow> byte list" where
  "segment_bytes buf b e = take (unat e - unat b) (drop (unat b) buf)"

text \<open>The cells of a segment, the missing ones zero.\<close>

definition segment_cells :: "byte list \<Rightarrow> u32 \<Rightarrow> u32 \<Rightarrow> nat \<Rightarrow> 'w::len word list" where
  "segment_cells buf b e n = map (cell_at (segment_bytes buf b e)) [0..<n]"

lemma load_segment:
  assumes im: "image_object (base :: 'w::len word) buf"
    and ok: "valarray_ok (length buf) (unat b) (unat e) m"
  shows "load_bytes buf base (base + ucast b) (unat (e - b)) = Some (segment_bytes buf b e)"
    and "length (segment_bytes buf b e) = unat e - unat b"
proof -
  have be: "unat b \<le> unat e" "unat e \<le> length buf" using ok by (auto simp: valarray_ok_def)
  have d: "unat (e - b) = unat e - unat b" using be by (simp add: unat_sub word_le_nat_alt)
  have u: "unat (base + ucast b - base) = unat b"
    using offset_of_pointer [OF im, of "unat b"] be by simp
  show "load_bytes buf base (base + ucast b) (unat (e - b)) = Some (segment_bytes buf b e)"
    using be unfolding load_bytes_def u d Let_def segment_bytes_def by simp
  show "length (segment_bytes buf b e) = unat e - unat b"
    using be by (simp add: segment_bytes_def)
qed

lemma copy_cells_segment:
  fixes base :: "'w::len word"
  assumes "image_object base buf" and "valarray_ok (length buf) (unat b) (unat e) m"
    and "unat (dst - fst blk) + (unat e - unat b) \<le> unat (snd blk)"
  shows "copy_cells buf base blk dst n b e = Some (segment_cells buf b e n)"
  using load_segment [OF assms(1,2)] assms(3)
  by (simp add: copy_cells_def inside_block_def segment_cells_def)

section \<open>Filling a table of names\<close>

text \<open>
  The table the filling pass of a list of names has to leave: each name at its place in the
  string buffer, which starts at \<open>sb\<close> and is filled from \<open>pos\<close> on.
\<close>

fun symtab :: "'w::len word \<Rightarrow> nat \<Rightarrow> (cstring \<times> u32) list \<Rightarrow> ('w word \<times> 'w word) list" where
  "symtab sb pos [] = []"
| "symtab sb pos ((s, a) # es) = (sb + of_nat pos, ucast a) # symtab sb (pos + length s + 1) es"

lemma length_symtab [simp]: "length (symtab sb pos es) = length es"
  by (induction es arbitrary: pos) auto

definition named_entry :: "byte list \<Rightarrow> nat \<Rightarrow> cstring \<times> u32" where
  "named_entry buf off = (the (entry_name buf off), entry_address buf off)"

lemma store_bytes_zeros:
  fixes sb :: "'w::len word"
  assumes "length pre < 2 ^ LENGTH('w)" and "length bs + 1 \<le> room"
  shows "store_bytes (pre @ replicate room 0) sb (sb + of_nat (length pre)) bs =
    Some ((pre @ bs @ [0]) @ replicate (room - (length bs + 1)) 0)"
proof -
  have u: "unat (sb + of_nat (length pre) - sb) = length pre"
    using assms(1) by (simp add: unat_of_nat_small)
  have k: "room - length bs = Suc (room - (length bs + 1))" using assms(2) by simp
  show ?thesis using assms(2) unfolding store_bytes_def Let_def u by (simp add: k)
qed

lemma load_name:
  assumes im: "image_object (base :: 'w::len word) buf"
    and nm: "entry_name buf off = Some s" and ofs: "nameofs = (le_at buf (off + 4) :: u32)"
  shows "load_bytes buf base (base + ucast nameofs)
      (unat ((base + ucast (nameofs + of_nat (c_len buf (unat nameofs)) :: u32)) - (base + ucast nameofs)))
    = Some s"
    and "base + ucast (nameofs + of_nat (c_len buf (unat nameofs)) :: u32) - (base + ucast nameofs) + 1
      = of_nat (length s + 1)"
proof -
  have cs: "c_string buf (unat nameofs) = Some s" using nm ofs by (simp add: entry_name_def)
  note l = c_string_length [OF cs]
  note d = name_distance [OF image_objectD(2) [OF im], of base nameofs]
  have le: "unat nameofs + c_len buf (unat nameofs) < length buf"
    "s = take (c_len buf (unat nameofs)) (drop (unat nameofs) buf)"
    using cs by (simp_all add: c_string_c_len split: if_splits)
  have u: "unat (base + ucast nameofs - base) = unat nameofs"
    using offset_of_pointer [OF im, of "unat nameofs"] le(1) by simp
  have n: "unat (of_nat (c_len buf (unat nameofs)) :: 'w word) = c_len buf (unat nameofs)"
    using le(1) by (intro unat_offset [OF im]) simp
  show "load_bytes buf base (base + ucast nameofs)
      (unat ((base + ucast (nameofs + of_nat (c_len buf (unat nameofs)) :: u32)) - (base + ucast nameofs)))
    = Some s"
    unfolding d n load_bytes_def u Let_def using le by simp
  show "base + ucast (nameofs + of_nat (c_len buf (unat nameofs)) :: u32) - (base + ucast nameofs) + 1
      = of_nat (length s + 1)"
    unfolding d l by simp
qed

lemma fill_named_entry:
  fixes base sb :: "'w::len word"
  assumes im: "image_object base buf" and off: "off + 8 \<le> length buf"
    and nm: "entry_name buf off = Some s"
    and pre: "length pre + room < 2 ^ LENGTH('w)" and room: "length s + 1 \<le> room"
    and inb: "inside_block blk (tptr + of_nat (length done) * sizeof_pair TYPE('w))
      (2 * sizeof_cell TYPE('w))"
  shows "fill_named buf base blk tptr sb (base + of_nat off)
      (done @ e # rest, length done, sb + of_nat (length pre), pre @ replicate room 0) =
    Some (True, (done @ [(sb + of_nat (length pre), ucast (entry_address buf off))]) @ rest,
      Suc (length done), sb + of_nat (length (pre @ s @ [0])),
      (pre @ s @ [0]) @ replicate (room - (length s + 1)) 0)"
proof -
  let ?ofs = "le_at buf (off + 4) :: u32"
  have ent: "is_entry buf base (base + of_nat off)" using im off by (auto simp: is_entry_def)
  have u: "unat (base + of_nat off - base) = off"
    using offset_of_pointer [OF im, of off] off by simp
  note rd = is_entry_reads [OF ent, unfolded u]
  note scan = scan_name [OF rd(3), of ?ofs]
  have found: "\<not> length buf \<le> unat (?ofs + of_nat (c_len buf (unat ?ofs)))"
    using nm unfolding scan_name_refused [OF rd(3)] by (simp add: entry_name_def)
  note ld = load_name [OF im nm refl]
  have st: "store_bytes (pre @ replicate room 0) sb (sb + of_nat (length pre)) s =
      Some ((pre @ s @ [0]) @ replicate (room - (length s + 1)) 0)"
    using pre room by (intro store_bytes_zeros) simp_all
  show ?thesis
    unfolding fill_named_def prod.case rd(1,2) scan(1) Let_def Option.bind.bind_lunit
      if_not_P [OF found] ld st
    using inb by (simp add: list_update_append)
qed

lemma fill_named_entries:
  fixes base sb :: "'w::len word"
  assumes im: "image_object base buf"
    and offs: "\<forall>off \<in> set offs. off + 8 \<le> length buf \<and> entry_name buf off \<noteq> None"
    and tab: "length offs \<le> length rest"
    and pre: "length pre + room < 2 ^ LENGTH('w)"
    and room: "length (packed (map (fst \<circ> named_entry buf) offs)) \<le> room"
    and inb: "\<forall>j < length done + length rest.
      inside_block blk (tptr + of_nat j * sizeof_pair TYPE('w)) (2 * sizeof_cell TYPE('w))"
  shows "iter_entries (fill_named buf base blk tptr sb) (map (\<lambda>off. base + of_nat off) offs)
      (done @ rest, length done, sb + of_nat (length pre), pre @ replicate room 0) =
    Some (True, done @ symtab sb (length pre) (map (named_entry buf) offs) @ drop (length offs) rest,
      length done + length offs,
      sb + of_nat (length (pre @ packed (map (fst \<circ> named_entry buf) offs))),
      (pre @ packed (map (fst \<circ> named_entry buf) offs)) @
        replicate (room - length (packed (map (fst \<circ> named_entry buf) offs))) 0)"
  using offs tab pre room inb
proof (induction offs arbitrary: "done" rest pre room)
  case Nil
  then show ?case by simp
next
  case (Cons off offs)
  obtain e rest' where rest: "rest = e # rest'" using Cons.prems(2) by (cases rest) auto
  obtain s where nm: "entry_name buf off = Some s" using Cons.prems(1) by auto
  have ne: "named_entry buf off = (s, entry_address buf off)" by (simp add: named_entry_def nm)
  have off: "off + 8 \<le> length buf" using Cons.prems(1) by simp
  have r: "length s + 1 \<le> room" using Cons.prems(4) by (simp add: ne)
  have i: "inside_block blk (tptr + of_nat (length done) * sizeof_pair TYPE('w)) (2 * sizeof_cell TYPE('w))"
    using Cons.prems(5) rest by simp
  note step = fill_named_entry [OF im off nm Cons.prems(3) r i, where e = e and rest = rest']
  let ?done = "done @ [(sb + of_nat (length pre), ucast (entry_address buf off))]"
  have IH: "iter_entries (fill_named buf base blk tptr sb) (map (\<lambda>off. base + of_nat off) offs)
      (?done @ rest', length ?done, sb + of_nat (length (pre @ s @ [0])),
       (pre @ s @ [0]) @ replicate (room - (length s + 1)) 0) =
    Some (True, ?done @ symtab sb (length (pre @ s @ [0])) (map (named_entry buf) offs)
        @ drop (length offs) rest', length ?done + length offs,
      sb + of_nat (length ((pre @ s @ [0]) @ packed (map (fst \<circ> named_entry buf) offs))),
      ((pre @ s @ [0]) @ packed (map (fst \<circ> named_entry buf) offs)) @
        replicate (room - (length s + 1) - length (packed (map (fst \<circ> named_entry buf) offs))) 0)"
    using Cons.prems rest r by (intro Cons.IH) (simp_all add: ne)
  show ?case
    using IH unfolding rest list.map iter_entries.simps step Option.bind.bind_lunit prod.case
    by (simp add: ne diff_diff_left algebra_simps)
qed

section \<open>Filling the native table\<close>

lemma fill_native_entry:
  fixes base :: "'w::len word"
  assumes im: "image_object base buf" and off: "off + 8 \<le> length buf"
    and nm: "entry_name buf off = Some s" and f: "find_native ns s = Some f"
    and inb: "inside_block blk (tptr + of_nat (length done) * of_nat (sizeof_cell TYPE('w)))
      (sizeof_cell TYPE('w))"
  shows "fill_native buf base blk tptr ns (base + of_nat off) (done @ e # rest, length done) =
    Some (True, (done @ [Some f]) @ rest, Suc (length done))"
proof -
  let ?ofs = "le_at buf (off + 4) :: u32"
  have ent: "is_entry buf base (base + of_nat off)" using im off by (auto simp: is_entry_def)
  have u: "unat (base + of_nat off - base) = off"
    using offset_of_pointer [OF im, of off] off by simp
  note rd = is_entry_reads [OF ent, unfolded u]
  note scan = scan_name [OF rd(3), of ?ofs]
  have cs: "c_string buf (unat ?ofs) = Some s" using nm by (simp add: entry_name_def)
  have found: "\<not> length buf \<le> unat (?ofs + of_nat (c_len buf (unat ?ofs)))"
    unfolding scan_name_refused [OF rd(3)] using cs by simp
  show ?thesis
    unfolding fill_native_def prod.case rd(2) scan(1) Let_def Option.bind.bind_lunit
      if_not_P [OF found] cs f option.case
    using inb by (simp add: list_update_append)
qed

lemma fill_native_entries:
  fixes base :: "'w::len word"
  assumes im: "image_object base buf"
    and offs: "\<forall>off \<in> set offs. off + 8 \<le> length buf \<and> resolvable buf ns off"
    and tab: "length offs \<le> length rest"
    and inb: "\<forall>j < length done + length rest.
      inside_block blk (tptr + of_nat j * of_nat (sizeof_cell TYPE('w))) (sizeof_cell TYPE('w))"
  shows "iter_entries (fill_native buf base blk tptr ns) (map (\<lambda>off. base + of_nat off) offs)
      (done @ rest, length done) =
    Some (True, done @ map (\<lambda>off. find_native ns (the (entry_name buf off))) offs @ drop (length offs) rest,
      length done + length offs)"
  using offs tab inb
proof (induction offs arbitrary: "done" rest)
  case Nil
  then show ?case by simp
next
  case (Cons off offs)
  obtain e rest' where rest: "rest = e # rest'" using Cons.prems(2) by (cases rest) auto
  obtain s f where nm: "entry_name buf off = Some s" "find_native ns s = Some f"
    using Cons.prems(1) by (auto simp: resolvable_def)
  have off: "off + 8 \<le> length buf" using Cons.prems(1) by simp
  have i: "inside_block blk (tptr + of_nat (length done) * of_nat (sizeof_cell TYPE('w)))
      (sizeof_cell TYPE('w))"
    using Cons.prems(3) rest by simp
  note step = fill_native_entry [OF im off nm i, where e = e and rest = rest']
  have IH: "iter_entries (fill_native buf base blk tptr ns) (map (\<lambda>off. base + of_nat off) offs)
      ((done @ [Some f]) @ rest', length (done @ [Some f])) =
    Some (True, (done @ [Some f]) @ map (\<lambda>off. find_native ns (the (entry_name buf off))) offs
      @ drop (length offs) rest', length (done @ [Some f]) + length offs)"
    using Cons.prems rest by (intro Cons.IH) simp_all
  show ?case
    using IH unfolding rest list.map iter_entries.simps step Option.bind.bind_lunit prod.case
    by (simp add: nm)
qed

end
