(* ===== verification/Loader_Correct.thy ===== *)
theory Loader_Correct
  imports Loader_Fill
begin

text \<open>
  \<open>init\<close> as a whole: what the loader holds after it succeeds is the parsed image, and
  exactly when it fails after the allocation.
\<close>

section \<open>The parsed tables\<close>

lemma parse_image_tables:
  assumes "parse_image w version buf ns = Inr i"
  defines "h \<equiv> header_of buf"
  shows "named_table buf h (h_publics h) (h_natives h) = Some (im_publics i)"
    and "table_ok buf h (h_natives h) (h_libraries h)"
    and "resolve_natives buf ns (table_offsets h (h_natives h) (h_libraries h)) = Inr (im_natives i)"
    and "named_table buf h (h_pubvars h) (h_tags h) = Some (im_pubvars i)"
  using parse_image_Inr(8) [OF assms(1)] unfolding h_def
  by (cases i; auto simp: parse_tables_def split: if_splits option.splits sum.splits)+

lemma named_table_entries:
  assumes "named_table buf h b e = Some t"
  shows "table_ok buf h b e" and "t = map (named_entry buf) (table_offsets h b e)"
    and "\<forall>off \<in> set (table_offsets h b e). entry_name buf off \<noteq> None"
    and "map fst t = map (fst \<circ> named_entry buf) (table_offsets h b e)"
  using assms by (auto simp: named_table_def named_entry_def split: if_splits)

lemma resolve_natives_entries:
  assumes "resolve_natives buf ns offs = Inr fs"
  shows "\<forall>off \<in> set offs. resolvable buf ns off"
    and "map (\<lambda>off. find_native ns (the (entry_name buf off))) offs = map Some fs"
proof -
  have d: "dropWhile (resolvable buf ns) offs = []"
    and fs: "fs = map (\<lambda>off. the (find_native ns (the (entry_name buf off)))) offs"
    using assms by (auto simp: resolve_natives_eq simp del: dropWhile_eq_Nil_conv split: list.splits)
  show all: "\<forall>off \<in> set offs. resolvable buf ns off" using d by simp
  show "map (\<lambda>off. find_native ns (the (entry_name buf off))) offs = map Some fs"
    using all by (auto simp: fs resolvable_def)
qed

lemma entry_names_no_nul: "entry_name buf off = Some s \<Longrightarrow> 0 \<notin> set s"
  by (auto simp: entry_name_def dest: c_string_no_nul)

section \<open>Lookups in a packed table\<close>

lemma c_string_packed:
  "0 \<notin> set s \<Longrightarrow> c_string (pre @ s @ 0 # suf) (length pre) = Some s"
proof -
  assume "0 \<notin> set s"
  then have "takeWhile (\<lambda>b. b \<noteq> 0) (s @ 0 # suf) = s"
    by (induction s) auto
  then show ?thesis by (simp add: c_string_def Let_def)
qed

lemma find_symbol_symtab:
  fixes sb :: "'w::len word"
  assumes "\<forall>e \<in> set es. 0 \<notin> set (fst e)"
    and "length (pre @ packed (map fst es) @ suf) < 2 ^ LENGTH('w)"
  shows "find_symbol (\<lambda>p. c_string (pre @ packed (map fst es) @ suf) (unat (p - sb)))
      (symtab sb (length pre) es) v =
    Some (case map_of es v of None \<Rightarrow> 0 | Some a \<Rightarrow> ucast a)"
  using assms
proof (induction es arbitrary: pre)
  case Nil
  then show ?case by simp
next
  case (Cons e es)
  obtain s a where e: "e = (s, a)" by (cases e)
  have u: "unat (sb + of_nat (length pre) - sb) = length pre"
    using Cons.prems(2) by (simp add: unat_of_nat_small)
  have c: "c_string (pre @ packed (map fst (e # es)) @ suf) (length pre) = Some s"
    using c_string_packed [of s pre "packed (map fst es) @ suf"] Cons.prems(1) by (simp add: e)
  have IH: "find_symbol (\<lambda>p. c_string ((pre @ s @ [0]) @ packed (map fst es) @ suf) (unat (p - sb)))
      (symtab sb (length (pre @ s @ [0])) es) v =
    Some (case map_of es v of None \<Rightarrow> 0 | Some a \<Rightarrow> ucast a)"
    using Cons.prems by (intro Cons.IH) (simp_all add: e)
  show ?case
    using IH c unfolding e symtab.simps find_symbol.simps u
    by (auto simp: strcmp_eq_def)
qed

section \<open>The filling stage\<close>

text \<open>
  Nothing wraps: the layout, the number of bytes the names take, and the size of the data
  region, which has room for the data segment.
\<close>

definition image_fits :: "'w::len itself \<Rightarrow> nat \<Rightarrow> 'f image \<Rightarrow> bool" where
  "image_fits _ A i \<longleftrightarrow> layout_fits A (image_counts i :: 'w counts)
     \<and> length (packed (image_strings i)) < 2 ^ LENGTH('w)
     \<and> im_data i \<le> unat (data_alloc_cells (im_header i) (im_data i) :: 'w word)"

lemma image_fits_64:
  fixes base :: "64 word"
  assumes "image_object base buf" and "parse_image TYPE(64) version buf ns = Inr i"
    and "0 < A" and "A \<le> 2 ^ 32"
  shows "image_fits TYPE(64) A i"
proof -
  have "im_data i * 8 \<le> length buf" using image_bounds(2) [OF assms(2)] by simp
  then have "im_data i < 2 ^ 32" using image_objectD(2) [OF assms(1)] by simp
  then have "im_data i \<le> unat (data_alloc_cells (im_header i) (im_data i) :: 64 word)"
    by (simp add: data_alloc_cells_64)
  then show ?thesis
    using layout_fits_64 [OF assms] packed_bound [OF assms(1,2)] by (simp add: image_fits_def)
qed

lemma region_slot:
  fixes c :: "'w::len counts"
  assumes fits: "layout_fits (unat a) c" and le: "off + n * m \<le> total_bytes (unat a) c" and "j < n"
  shows "inside_block (block, alloc_size a c) (block + of_nat off + of_nat j * of_nat m) m"
proof -
  have sz: "unat (alloc_size a c) = total_bytes (unat a) c" by (rule unat_alloc_size [OF fits])
  have "Suc j * m \<le> n * m" using \<open>j < n\<close> by (intro mult_le_mono1) simp
  then have jm: "off + j * m + m \<le> total_bytes (unat a) c" using le by simp
  have u: "unat (block + of_nat off - block) = off"
    using unat_region_offset [OF fits, of off] jm by simp
  show ?thesis
    using inside_block_step [of "block + of_nat off" "(block, alloc_size a c)" j m m] jm
    unfolding fst_conv snd_conv u sz by simp
qed


text \<open>The loader when the filling stage starts, and what that stage makes of it.\<close>

lemma table_walk_Some:
  assumes im: "image_object (base :: 'w::len word) buf" and ok: "table_ok buf h b e"
  shows "iter_valarray base (of_nat (length buf)) (ucast b) (ucast e) (ucast (h_defsize h)) fn s =
    iter_entries fn (map (\<lambda>off. base + of_nat off) (table_offsets h b e)) s"
  using ok by (simp add: table_walk [OF im])

lemma fill_named_pass:
  fixes base sb :: "'w::len word"
  assumes im: "image_object base buf" and ds: "8 \<le> unat (h_defsize h)"
    and t: "named_table buf h b e = Some t"
    and pre: "length pre + room < 2 ^ LENGTH('w)" and room: "length (packed (map fst t)) \<le> room"
    and inb: "\<forall>j < length t.
      inside_block blk (tptr + of_nat j * sizeof_pair TYPE('w)) (2 * sizeof_cell TYPE('w))"
  shows "iter_valarray base (of_nat (length buf)) (ucast b) (ucast e) (ucast (h_defsize h))
      (fill_named buf base blk tptr sb)
      (replicate (length t) (0, 0), 0, sb + of_nat (length pre), pre @ replicate room 0) =
    Some (True, symtab sb (length pre) t, length t, sb + of_nat (length (pre @ packed (map fst t))),
      (pre @ packed (map fst t)) @ replicate (room - length (packed (map fst t))) 0)"
proof -
  let ?offs = "table_offsets h b e"
  note ent = named_table_entries [OF t]
  have len: "length ?offs = length t" by (simp add: ent(2))
  have offs: "\<forall>off \<in> set ?offs. off + 8 \<le> length buf \<and> entry_name buf off \<noteq> None"
    using table_entry_pointers(1) [OF im ent(1) ds] ent(3) by blast
  have r: "length (packed (map (fst \<circ> named_entry buf) ?offs)) \<le> room"
    using room by (simp only: ent(4))
  have "iter_entries (fill_named buf base blk tptr sb) (map (\<lambda>off. base + of_nat off) ?offs)
      ([] @ replicate (length t) (0, 0), length ([] :: ('w word \<times> 'w word) list),
       sb + of_nat (length pre), pre @ replicate room 0) =
    Some (True, [] @ symtab sb (length pre) (map (named_entry buf) ?offs)
        @ drop (length ?offs) (replicate (length t) (0, 0)),
      length ([] :: ('w word \<times> 'w word) list) + length ?offs,
      sb + of_nat (length (pre @ packed (map (fst \<circ> named_entry buf) ?offs))),
      (pre @ packed (map (fst \<circ> named_entry buf) ?offs)) @
        replicate (room - length (packed (map (fst \<circ> named_entry buf) ?offs))) 0)"
    using inb by (intro fill_named_entries [OF im offs _ pre r]) (simp_all add: len)
  then show ?thesis
    unfolding table_walk_Some [OF im ent(1)] len ent(2) [symmetric] ent(4) [symmetric] by simp
qed

lemma fill_native_pass:
  fixes base :: "'w::len word"
  assumes im: "image_object base buf" and ds: "8 \<le> unat (h_defsize h)"
    and ok: "table_ok buf h b e" and res: "resolve_natives buf ns (table_offsets h b e) = Inr fs"
    and inb: "\<forall>j < length fs.
      inside_block blk (tptr + of_nat j * of_nat (sizeof_cell TYPE('w))) (sizeof_cell TYPE('w))"
  shows "iter_valarray base (of_nat (length buf)) (ucast b) (ucast e) (ucast (h_defsize h))
      (fill_native buf base blk tptr ns) (replicate (length fs) None, 0) =
    Some (True, map Some fs, length fs)"
proof -
  let ?offs = "table_offsets h b e"
  note ent = resolve_natives_entries [OF res]
  have len: "length ?offs = length fs" using arg_cong [OF ent(2), of length] by simp
  have offs: "\<forall>off \<in> set ?offs. off + 8 \<le> length buf \<and> resolvable buf ns off"
    using table_entry_pointers(1) [OF im ok ds] ent(1) by blast
  have "iter_entries (fill_native buf base blk tptr ns) (map (\<lambda>off. base + of_nat off) ?offs)
      ([] @ replicate (length fs) None, length ([] :: 'a option list)) =
    Some (True, [] @ map (\<lambda>off. find_native ns (the (entry_name buf off))) ?offs
        @ drop (length ?offs) (replicate (length fs) None),
      length ([] :: 'a option list) + length ?offs)"
    using inb by (intro fill_native_entries [OF im offs]) (simp_all add: len)
  then show ?thesis
    unfolding table_walk_Some [OF im ok] ent(2) len by simp
qed

text \<open>
  The loader when the filling stage starts: the regions of \<open>place_regions\<close>, and whatever
  the copies put into the segments.
\<close>

definition placed ::
  "'w::len word \<Rightarrow> 'w word \<Rightarrow> 'f image \<Rightarrow> ('w, 'f, 'g, 'u, 'a) loader \<Rightarrow> bool"
where
  "placed a block i l \<longleftrightarrow>
    (let c = image_counts i :: 'w counts; A = unat a
     in alloc_block l = Some (block, alloc_size a c)
      \<and> publics_ptr l = block + of_nat (off_publics A c)
      \<and> pubvars_ptr l = block + of_nat (off_pubvars A c)
      \<and> natives_ptr l = block + of_nat (off_natives A c)
      \<and> publics_mem l = replicate (length (im_publics i)) (0, 0)
      \<and> pubvars_mem l = replicate (length (im_pubvars i)) (0, 0)
      \<and> natives_mem l = replicate (length (im_natives i)) None
      \<and> str_base l = block + of_nat (off_strings A c)
      \<and> str_mem l = replicate (total_bytes A c - off_strings A c) 0)"

lemma placed_slots:
  fixes block :: "'w::len word"
  assumes lf: "layout_fits (unat a) (image_counts i :: 'w counts)" and l: "placed a block i l"
  defines "blk \<equiv> (block, alloc_size a (image_counts i :: 'w counts))"
  shows "\<forall>j < length (im_publics i). inside_block blk
      (publics_ptr l + of_nat j * sizeof_pair TYPE('w)) (2 * sizeof_cell TYPE('w))"
    and "\<forall>j < length (im_pubvars i). inside_block blk
      (pubvars_ptr l + of_nat j * sizeof_pair TYPE('w)) (2 * sizeof_cell TYPE('w))"
    and "\<forall>j < length (im_natives i). inside_block blk
      (natives_ptr l + of_nat j * of_nat (sizeof_cell TYPE('w))) (sizeof_cell TYPE('w))"
proof -
  let ?c = "image_counts i :: 'w counts" and ?A = "unat a"
  have A: "0 < ?A" using lf by (simp add: layout_fits_def)
  note ord = layout_ordered [OF A, of ?c]
  have b: "off_publics ?A ?c + length (im_publics i) * (2 * sizeof_cell TYPE('w)) \<le> total_bytes ?A ?c"
    "off_pubvars ?A ?c + length (im_pubvars i) * (2 * sizeof_cell TYPE('w)) \<le> total_bytes ?A ?c"
    "off_natives ?A ?c + length (im_natives i) * sizeof_cell TYPE('w) \<le> total_bytes ?A ?c"
    using ord by (simp_all add: publics_bytes_def pubvars_bytes_def natives_bytes_def image_counts_def)
  note l' = l [unfolded placed_def Let_def]
  show "\<forall>j < length (im_publics i). inside_block blk
      (publics_ptr l + of_nat j * sizeof_pair TYPE('w)) (2 * sizeof_cell TYPE('w))"
    using l' region_slot [OF lf b(1)] unfolding blk_def sizeof_pair_def by simp
  show "\<forall>j < length (im_pubvars i). inside_block blk
      (pubvars_ptr l + of_nat j * sizeof_pair TYPE('w)) (2 * sizeof_cell TYPE('w))"
    using l' region_slot [OF lf b(2)] unfolding blk_def sizeof_pair_def by simp
  show "\<forall>j < length (im_natives i). inside_block blk
      (natives_ptr l + of_nat j * of_nat (sizeof_cell TYPE('w))) (sizeof_cell TYPE('w))"
    using l' region_slot [OF lf b(3)] unfolding blk_def by simp
qed

lemma fill_tables_image:
  fixes base block :: "'w::len word" and l :: "('w, 'f, 'g, 'u, 'a) loader"
  assumes im: "image_object base buf" and p: "parse_image TYPE('w) version buf ns = Inr i"
    and fits: "image_fits TYPE('w) (unat a) i" and l: "placed a block i l"
  shows "fill_tables buf base ns (im_header i) l =
    Some (str_base l + of_nat (length (packed (image_strings i))),
      l\<lparr>publics_mem := symtab (str_base l) 0 (im_publics i),
        natives_mem := map Some (im_natives i),
        pubvars_mem := symtab (str_base l) (length (packed (map fst (im_publics i)))) (im_pubvars i),
        str_mem := packed (image_strings i)
          @ replicate (length (str_mem l) - length (packed (image_strings i))) 0\<rparr>)"
proof -
  let ?h = "header_of buf" and ?c = "image_counts i :: 'w counts"
  let ?P = "packed (map fst (im_publics i))" and ?V = "packed (map fst (im_pubvars i))"
  let ?room = "length (str_mem l)"
  have h: "im_header i = ?h" by (rule parse_image_Inr(3) [OF p])
  have ds: "8 \<le> unat (h_defsize ?h)" by (rule check_header_defsize [OF parse_image_Inr(2) [OF p]])
  note tabs = parse_image_tables [OF p]
  have lf: "layout_fits (unat a) ?c" using fits by (simp add: image_fits_def)
  have A: "0 < unat a" using lf by (simp add: layout_fits_def)
  note slots = placed_slots [OF lf l]
  note l' = l [unfolded placed_def Let_def]
  have sp: "packed (image_strings i) = ?P @ ?V" by (simp add: image_strings_def packed_append)
  have n: "unat (n_strings ?c) = length ?P + length ?V"
    using fits unfolding sp [symmetric] length_append [symmetric]
    by (simp add: image_fits_def image_counts_def unat_of_nat_small)
  have room: "?room = total_bytes (unat a) ?c - off_strings (unat a) ?c" using l' by simp
  have r: "length ?P + length ?V \<le> ?room" "?room < 2 ^ LENGTH('w)"
    using layout_ordered(6) [OF A, of ?c] lf n room unfolding layout_fits_def by linarith+
  have sm: "str_mem l = replicate ?room 0" using l' by simp
  have f1: "iter_valarray base (of_nat (length buf)) (ucast (h_publics ?h)) (ucast (h_natives ?h))
      (ucast (h_defsize ?h)) (fill_named buf base (block, alloc_size a ?c) (publics_ptr l) (str_base l))
      (replicate (length (im_publics i)) (0, 0), 0, str_base l, replicate ?room 0) =
    Some (True, symtab (str_base l) 0 (im_publics i), length (im_publics i),
      str_base l + of_nat (length ?P), ?P @ replicate (?room - length ?P) 0)"
    using fill_named_pass [OF im ds tabs(1), of "[]" ?room, OF _ _ slots(1)] r by simp
  have r2: "length ?P + (?room - length ?P) < 2 ^ LENGTH('w)" "length ?V \<le> ?room - length ?P"
    using r by simp_all
  note f2 = fill_native_pass [OF im ds tabs(2,3) slots(3)]
  note f3 = fill_named_pass [OF im ds tabs(4) r2 slots(2), of "str_base l"]
  have mems: "publics_mem l = replicate (length (im_publics i)) (0, 0)"
    "pubvars_mem l = replicate (length (im_pubvars i)) (0, 0)"
    "natives_mem l = replicate (length (im_natives i)) None"
    "alloc_block l = Some (block, alloc_size a ?c)"
    using l' by simp_all
  show ?thesis
    unfolding fill_tables_def h mems Let_def Option.bind.bind_lunit prod.case
    by (subst sm) (simp add: f1 f2 f3 sp)
qed

section \<open>The copying stage\<close>

text \<open>
  The first loop of the copies is inside the code region.  The second one runs to
  \<open>_code_count\<close> over the data region: it stays inside the allocation exactly when the code
  segment would fit there.
\<close>

definition fixup_inside :: "'w::len itself \<Rightarrow> nat \<Rightarrow> 'f image \<Rightarrow> bool" where
  "fixup_inside _ A i \<longleftrightarrow>
    (let c = image_counts i :: 'w counts
     in n_code c = 0 \<or> off_data A c + code_bytes c \<le> total_bytes A c)"

lemma copy_segments_image:
  fixes base block :: "'w::len word" and l0 :: "('w, 'f, 'g, 'u, 'a) loader"
  assumes im: "image_object base buf" and p: "parse_image TYPE('w) version buf ns = Inr i"
    and fits: "image_fits TYPE('w) (unat a) i"
  defines "l \<equiv> place_regions a block (alloc_size a (image_counts i)) (image_counts i) l0"
  shows "copy_segments buf base (im_header i) l =
    (if fixup_inside TYPE('w) (unat a) i
     then Some (l\<lparr>code_mem := segment_cells buf (h_cod (im_header i)) (h_dat (im_header i)) (im_code i),
       data_mem := segment_cells buf (h_dat (im_header i)) (h_hea (im_header i))
         (unat (data_alloc_cells (im_header i) (im_data i) :: 'w word))\<rparr>)
     else None)"
proof -
  let ?h = "header_of buf" and ?c = "image_counts i :: 'w counts" and ?A = "unat a"
  let ?blk = "(block, alloc_size a ?c)" and ?csz = "sizeof_cell TYPE('w)"
  have h: "im_header i = ?h" by (rule parse_image_Inr(3) [OF p])
  have lf: "layout_fits ?A ?c" using fits by (simp add: image_fits_def)
  have A: "0 < ?A" using lf by (simp add: layout_fits_def)
  note ord = layout_ordered [OF A, of ?c]
  have T: "unat (alloc_size a ?c) = total_bytes ?A ?c" by (rule unat_alloc_size [OF lf])
  have c0: "0 < ?csz" by (rule sizeof_cell_pos [OF image_objectD(1) [OF im]])
  note seg = parse_image_Inr(4,5) [OF p]
  have le: "code_bytes ?c \<le> total_bytes ?A ?c" "off_data ?A ?c + data_bytes ?c \<le> total_bytes ?A ?c"
    using ord by linarith+
  have "n_code ?c \<le> code_bytes ?c" using c0 by (simp add: code_bytes_def)
  then have nc: "unat (of_nat (n_code ?c) :: 'w word) = n_code ?c"
    using unat_region_offset [OF lf, of "n_code ?c"] le by simp
  have od: "unat (block + of_nat (off_data ?A ?c) - block) = off_data ?A ?c"
    using unat_region_offset [OF lf, of "off_data ?A ?c"] le by simp
  have code: "unat (h_dat ?h) - unat (h_cod ?h) = code_bytes ?c"
    using seg(1) by (simp add: valarray_ok_def code_bytes_def image_counts_def parse_image_Inr(6) [OF p])
      (metis dvd_eq_mod_eq_0 dvd_div_mult_self)
  have data: "unat (h_hea ?h) - unat (h_dat ?h) = im_data i * ?csz"
    using seg(2) by (simp add: valarray_ok_def parse_image_Inr(7) [OF p])
      (metis dvd_eq_mod_eq_0 dvd_div_mult_self)
  have room: "unat (h_hea ?h) - unat (h_dat ?h) \<le> data_bytes ?c"
    unfolding data data_bytes_def using fits
    by (intro mult_le_mono1) (simp add: image_fits_def image_counts_def)
  have f: "alloc_block l = Some ?blk" "code_ptr l = block" "code_count l = of_nat (n_code ?c)"
    "data_ptr l = block + of_nat (off_data ?A ?c)" "data_count l = n_data_alloc ?c"
    by (simp_all add: l_def place_regions_layout [OF lf])
  have c1: "copy_cells buf base ?blk (code_ptr l) (unat (code_count l)) (h_cod ?h) (h_dat ?h) =
      Some (segment_cells buf (h_cod ?h) (h_dat ?h) (n_code ?c))"
    unfolding f nc by (rule copy_cells_segment [OF im seg(1)]) (simp add: T code le)
  have x1: "fix_cells ?blk (code_ptr l) (unat (code_count l)) 0 cells = Some cells" for cells
    using fix_cells_result [of "code_ptr l" ?blk 0 "n_code ?c" cells] le
    unfolding f nc by (simp add: T code_bytes_def)
  have c2: "copy_cells buf base ?blk (data_ptr l) (unat (data_count l)) (h_dat ?h) (h_hea ?h) =
      Some (segment_cells buf (h_dat ?h) (h_hea ?h) (unat (n_data_alloc ?c)))"
    unfolding f by (rule copy_cells_segment [OF im seg(2)]) (use le room od in \<open>simp add: T h\<close>)
  have x2: "fix_cells ?blk (data_ptr l) (unat (code_count l)) 0 cells =
      (if fixup_inside TYPE('w) ?A i then Some cells else None)" for cells
    using fix_cells_result [of "data_ptr l" ?blk 0 "n_code ?c" cells] le od
    unfolding f nc by (simp add: T fixup_inside_def Let_def code_bytes_def)
  show ?thesis
    unfolding copy_segments_def h f(1) Option.bind.bind_lunit c1 x1 c2 x2
    by (simp add: image_counts_def h)
qed

section \<open>init\<close>

text \<open>What \<open>init\<close> leaves in the loader when it gets past the filling stage.\<close>

definition loaded ::
  "'w::len word \<Rightarrow> 'w word \<Rightarrow> byte list \<Rightarrow> 'f image \<Rightarrow> 'a \<Rightarrow>
   ('w, 'f, 'g, 'u, 'a) loader \<Rightarrow> ('w, 'f, 'g, 'u, 'a) loader"
where
  "loaded a block buf i st l0 =
    (let h = im_header i; l = place_regions a block (alloc_size a (image_counts i)) (image_counts i) l0
     in l\<lparr>code_mem := segment_cells buf (h_cod h) (h_dat h) (im_code i),
          data_mem := segment_cells buf (h_dat h) (h_hea h)
            (unat (data_alloc_cells h (im_data i) :: 'w word)),
          amx_state := st,
          publics_mem := symtab (str_base l) 0 (im_publics i),
          natives_mem := map Some (im_natives i),
          pubvars_mem := symtab (str_base l) (length (packed (map fst (im_publics i)))) (im_pubvars i),
          str_mem := packed (image_strings i)
            @ replicate (length (str_mem l) - length (packed (image_strings i))) 0\<rparr>)"

lemma placed_regions:
  fixes block :: "'w::len word"
  assumes "layout_fits (unat a) (image_counts i :: 'w counts)"
  shows "placed a block i (place_regions a block (alloc_size a (image_counts i)) (image_counts i) l0
      \<lparr>code_mem := cm, data_mem := dm, amx_state := st\<rparr>)"
  unfolding placed_def Let_def place_regions_layout [OF assms]
  by (simp add: image_counts_def)

text \<open>The string buffer is full exactly when the natives leave no slack.\<close>

definition no_slack :: "'w::len itself \<Rightarrow> nat \<Rightarrow> 'f image \<Rightarrow> bool" where
  "no_slack _ A i \<longleftrightarrow>
    (let c = image_counts i :: 'w counts
     in align_nat A (natives_bytes c) = align_nat A (natives_reserved c))"

lemma string_buffer_full:
  fixes block :: "'w::len word"
  assumes fits: "image_fits TYPE('w) (unat a) i"
    and blk: "unat block + unat (alloc_size a (image_counts i)) < 2 ^ LENGTH('w)"
  shows "block + of_nat (off_strings (unat a) (image_counts i :: 'w counts))
      + of_nat (length (packed (image_strings i))) \<ge> block + alloc_size a (image_counts i)
    \<longleftrightarrow> no_slack TYPE('w) (unat a) i"
proof -
  let ?c = "image_counts i :: 'w counts" and ?A = "unat a" and ?n = "length (packed (image_strings i))"
  have lf: "layout_fits ?A ?c" using fits by (simp add: image_fits_def)
  have A: "0 < ?A" using lf by (simp add: layout_fits_def)
  have n: "unat (n_strings ?c) = ?n"
    using fits by (simp add: image_fits_def image_counts_def unat_of_nat_small)
  have T: "unat (alloc_size a ?c) = total_bytes ?A ?c" by (rule unat_alloc_size [OF lf])
  have le: "off_strings ?A ?c + ?n \<le> total_bytes ?A ?c"
    using layout_ordered(6) [OF A, of ?c] n by simp
  have e: "block + of_nat (off_strings ?A ?c) + of_nat ?n = block + of_nat (off_strings ?A ?c + ?n)"
    by (simp add: add.assoc)
  have u: "unat (block + of_nat (off_strings ?A ?c + ?n)) = unat block + (off_strings ?A ?c + ?n)"
    using unat_region_offset [OF lf le] blk T le
    by (subst unat_add_no_wrap) (simp_all del: of_nat_add)
  have v: "unat (block + alloc_size a ?c) = unat block + total_bytes ?A ?c"
    using blk T by (simp add: unat_add_no_wrap)
  have mono: "align_nat ?A (natives_bytes ?c) \<le> align_nat ?A (natives_reserved ?c)"
    by (rule align_nat_mono [OF natives_le_reserved])
  have "total_bytes ?A ?c \<le> off_strings ?A ?c + ?n \<longleftrightarrow>
      align_nat ?A (natives_reserved ?c) \<le> align_nat ?A (natives_bytes ?c)"
    by (simp add: off_strings_def total_bytes_def n)
  then show ?thesis
    using mono unfolding e word_le_nat_alt u v no_slack_def Let_def by linarith
qed

text \<open>
  With the alignment of the pool, two pointers, the natives leave no slack exactly when
  there are fewer than two of them.
\<close>

lemma no_slack_natives:
  assumes "machine_word TYPE('w::len)"
  shows "no_slack TYPE('w) (2 * sizeof_cell TYPE('w)) i \<longleftrightarrow> length (im_natives i) < 2"
proof -
  let ?c = "sizeof_cell TYPE('w)" and ?n = "length (im_natives i)"
  have c: "0 < ?c" using assms by (rule sizeof_cell_pos)
  have r: "align_nat (2 * ?c) (?n * (2 * ?c)) = ?n * (2 * ?c)"
  proof -
    have "(?n * (2 * ?c) + 2 * ?c - 1) div (2 * ?c) = ?n"
    proof -
      have "?n * (2 * ?c) + 2 * ?c - 1 = (2 * ?c - 1) + ?n * (2 * ?c)" using c by simp
      also have "\<dots> div (2 * ?c) = ?n + (2 * ?c - 1) div (2 * ?c)"
        by (rule div_mult_self1) (use c in simp)
      finally show ?thesis using c by simp
    qed
    then show ?thesis by (simp only: align_nat_def)
  qed
  have b: "align_nat (2 * ?c) (?n * ?c) = ((?n + 1) div 2) * (2 * ?c)"
  proof -
    have "(?n * ?c + 2 * ?c - 1) div (2 * ?c) = (?n + 1) div 2"
    proof -
      have e: "?n * ?c + 2 * ?c - 1 = (?c - 1) + (?n + 1) * ?c" using c by (simp add: algebra_simps)
      have "((?c - 1) + (?n + 1) * ?c) div (2 * ?c) = ((?c - 1) + (?n + 1) * ?c) div ?c div 2"
        by (simp add: div_mult2_eq mult.commute)
      also have "((?c - 1) + (?n + 1) * ?c) div ?c = ?n + 1 + (?c - 1) div ?c"
        by (rule div_mult_self1) (use c in simp)
      also have "?n + 1 + (?c - 1) div ?c = ?n + 1" using c by simp
      finally show ?thesis unfolding e .
    qed
    then show ?thesis by (simp only: align_nat_def)
  qed
  have "no_slack TYPE('w) (2 * ?c) i \<longleftrightarrow> ((?n + 1) div 2) * (2 * ?c) = ?n * (2 * ?c)"
    unfolding no_slack_def Let_def natives_bytes_def natives_reserved_def using r b
    by (simp add: image_counts_def)
  also have "\<dots> \<longleftrightarrow> (?n + 1) div 2 = ?n" using c by simp
  also have "\<dots> \<longleftrightarrow> ?n < 2" by auto
  finally show ?thesis .
qed

text \<open>Everything after the counting stage, in one equation.\<close>

definition finished ::
  "'f image \<Rightarrow> 'w::len word \<Rightarrow> 'w word \<Rightarrow> ('w, 'f, 'g, 'u, 'a) loader \<Rightarrow> ('w, 'f, 'g, 'u, 'a) loader"
where
  "finished i code_base data_base l =
    (let csz = of_nat (sizeof_cell TYPE('w)); top = (data_count l - 1) * csz
     in l\<lparr>COD := code_base, DAT := data_base, STK := top, STP := top,
          HEA := of_nat (im_data i) * csz\<rparr>)"

lemma load_image_result:
  fixes base block :: "'w::len word" and l0 :: "('w, 'f, 'g, 'u, 'a) loader"
  assumes im: "image_object base buf" and p: "parse_image TYPE('w) version buf ns = Inr i"
    and fits: "image_fits TYPE('w) (unat (mem_align k)) i"
    and alloc: "pool_alloc k (alloc_size (mem_align k) (image_counts i)) = Some block"
    and blk: "unat block + unat (alloc_size (mem_align k) (image_counts i)) < 2 ^ LENGTH('w)"
    and fixup: "fixup_inside TYPE('w) (unat (mem_align k)) i"
    and maps: "code_map ops (amx_state l0) block (of_nat (im_code i)) = Some (a1, cb)"
      "data_map ops a1 (block + of_nat (off_data (unat (mem_align k)) (image_counts i :: 'w counts)))
         (data_alloc_cells (im_header i) (im_data i)) = Some (a2, db)"
  shows "load_image ops k buf base ns (im_header i) (image_counts i) l0 =
    Some (if no_slack TYPE('w) (unat (mem_align k)) i
      then (LE_unknown, loaded (mem_align k) block buf i a2 l0)
      else (LE_success, finished i cb db (loaded (mem_align k) block buf i a2 l0)))"
proof -
  let ?a = "mem_align k" and ?c = "image_counts i :: 'w counts"
  let ?l = "place_regions ?a block (alloc_size ?a ?c) ?c l0"
  let ?l1 = "?l\<lparr>code_mem := segment_cells buf (h_cod (im_header i)) (h_dat (im_header i)) (im_code i),
       data_mem := segment_cells buf (h_dat (im_header i)) (h_hea (im_header i))
         (unat (data_alloc_cells (im_header i) (im_data i) :: 'w word))\<rparr>"
  have lf: "layout_fits (unat ?a) ?c" using fits by (simp add: image_fits_def)
  have cp: "copy_segments buf base (im_header i) ?l = Some ?l1"
    using copy_segments_image [OF im p fits, of block l0] fixup by simp
  have fields: "amx_state ?l1 = amx_state l0" "code_ptr ?l1 = block" "code_count ?l1 = of_nat (im_code i)"
    "data_ptr ?l1 = block + of_nat (off_data (unat ?a) ?c)"
    "data_count ?l1 = data_alloc_cells (im_header i) (im_data i)"
    unfolding place_regions_layout [OF lf] by (simp_all add: image_counts_def)
  let ?l2 = "?l1\<lparr>amx_state := a2\<rparr>"
  have sb: "str_base ?l2 = block + of_nat (off_strings (unat ?a) ?c)"
    by (simp add: place_regions_layout [OF lf])
  note ft = fill_tables_image [OF im p fits placed_regions [OF lf]]
  have full: "block + alloc_size ?a ?c \<le> str_base ?l2 + of_nat (length (packed (image_strings i)))
      \<longleftrightarrow> no_slack TYPE('w) (unat ?a) i"
    unfolding sb by (rule string_buffer_full [OF fits blk])
  have ab: "alloc_block ?l2 = Some (block, alloc_size ?a ?c)"
    by (simp add: place_regions_layout [OF lf])
  have ft2: "fill_tables buf base ns (im_header i) ?l2 =
      Some (str_base ?l2 + of_nat (length (packed (image_strings i))), loaded ?a block buf i a2 l0)"
    unfolding ft by (simp add: loaded_def Let_def)
  have ab2: "alloc_block (loaded ?a block buf i a2 l0) = Some (block, alloc_size ?a ?c)"
    using ab by (simp add: loaded_def Let_def)
  have nd: "n_data ?c = im_data i" by (simp add: image_counts_def)
  show ?thesis
    unfolding load_image_def Let_def alloc option.case cp Option.bind.bind_lunit fields maps prod.case
      ft2 finish_init_def ab2 full nd
    by (simp add: finished_def Let_def)
qed

lemma init_load:
  fixes base :: "'w::len word"
  assumes "image_object base buf"
    and "parse_image TYPE('w) (amx_version ops) buf (natives cbs) = Inr i"
  shows "init ops k buf base cbs l0 = load_image ops k buf base (natives cbs) (im_header i)
    (image_counts i) ((hooked cbs l0)\<lparr>main_fn := main_of (im_header i)\<rparr>)"
  by (simp add: init_parse [OF assms(1)] assms(2))

section \<open>What a loaded module offers\<close>

lemma loaded_lookups:
  fixes block :: "'w::len word"
  assumes p: "parse_image TYPE('w) version buf ns = Inr i"
    and fits: "image_fits TYPE('w) (unat a) i"
    and l: "l = loaded a block buf i st l0"
  shows "find_symbol (name_at l) (publics_mem l) v =
      Some (case map_of (im_publics i) v of None \<Rightarrow> 0 | Some x \<Rightarrow> ucast x)"
    and "find_symbol (name_at l) (pubvars_mem l) v =
      Some (case map_of (im_pubvars i) v of None \<Rightarrow> 0 | Some x \<Rightarrow> ucast x)"
proof -
  let ?c = "image_counts i :: 'w counts" and ?A = "unat a"
  let ?P = "packed (map fst (im_publics i))" and ?V = "packed (map fst (im_pubvars i))"
  have lf: "layout_fits ?A ?c" using fits by (simp add: image_fits_def)
  note tabs = parse_image_tables [OF p]
  have nul: "\<forall>e \<in> set t. 0 \<notin> set (fst e)" if "named_table buf h b e = Some t" for h b e t
    using named_table_entries(2,3) [OF that] entry_names_no_nul
    by (fastforce simp: named_entry_def)
  define z where "z = (replicate (total_bytes ?A ?c - off_strings ?A ?c - length (?P @ ?V)) 0 :: byte list)"
  have sp: "packed (image_strings i) = ?P @ ?V" by (simp add: image_strings_def packed_append)
  have n: "unat (n_strings ?c) = length (?P @ ?V)"
    using fits unfolding sp [symmetric] by (simp add: image_fits_def image_counts_def unat_of_nat_small)
  have A: "0 < ?A" using lf by (simp add: layout_fits_def)
  have "length ?P + length ?V \<le> total_bytes ?A ?c - off_strings ?A ?c"
    using layout_ordered(6) [OF A, of ?c] n by simp
  moreover have "length z = total_bytes ?A ?c - off_strings ?A ?c - (length ?P + length ?V)"
    by (simp add: z_def)
  ultimately have len: "length (?P @ ?V @ z) < 2 ^ LENGTH('w)"
    using lf unfolding layout_fits_def length_append by linarith
  have mem: "str_mem l = ?P @ ?V @ z" "publics_mem l = symtab (str_base l) 0 (im_publics i)"
    "pubvars_mem l = symtab (str_base l) (length ?P) (im_pubvars i)"
    by (simp_all add: l loaded_def Let_def place_regions_layout [OF lf] sp z_def)
  have nm: "name_at l = (\<lambda>p. c_string (?P @ ?V @ z) (unat (p - str_base l)))"
    by (rule ext) (simp add: name_at_def mem(1))
  show "find_symbol (name_at l) (publics_mem l) v =
      Some (case map_of (im_publics i) v of None \<Rightarrow> 0 | Some x \<Rightarrow> ucast x)"
    using find_symbol_symtab [OF nul [OF tabs(1)], of "[]" "?V @ z" "str_base l" v] len
    unfolding mem(2) nm by simp
  show "find_symbol (name_at l) (pubvars_mem l) v =
      Some (case map_of (im_pubvars i) v of None \<Rightarrow> 0 | Some x \<Rightarrow> ucast x)"
    using find_symbol_symtab [OF nul [OF tabs(4)], of ?P z "str_base l" v] len
    unfolding mem(3) nm by simp
qed

lemma length_segment_cells [simp]: "length (segment_cells buf b e n) = n"
  by (simp add: segment_cells_def)

lemma segment_cells_nth:
  assumes ok: "valarray_ok (length buf) (unat b) (unat e) (sizeof_cell TYPE('w::len))" and j: "j < n"
    and c: "0 < sizeof_cell TYPE('w)"
  shows "segment_cells buf b e n ! j =
    (if j < (unat e - unat b) div sizeof_cell TYPE('w)
     then le_at buf (unat b + j * sizeof_cell TYPE('w)) else (0 :: 'w word))"
proof -
  let ?c = "sizeof_cell TYPE('w)" and ?m = "unat e - unat b"
  have be: "unat b \<le> unat e" "unat e \<le> length buf" "?m mod ?c = 0"
    using ok by (auto simp: valarray_ok_def)
  have len: "LENGTH('w) div 8 = ?c" by (simp add: sizeof_cell_def)
  have nth: "segment_cells buf b e n ! j = (cell_at (segment_bytes buf b e) j :: 'w word)"
    using j by (simp add: segment_cells_def)
  show ?thesis
  proof (cases "j < ?m div ?c")
    case True
    then have "Suc j * ?c \<le> ?m div ?c * ?c" by (intro mult_le_mono1) simp
    also have "\<dots> \<le> ?m" by (rule div_times_less_eq_dividend)
    finally have "j * ?c + ?c \<le> ?m" by simp
    then have "take ?c (drop (j * ?c) (segment_bytes buf b e)) = take ?c (drop (unat b + j * ?c) buf)"
      by (simp add: segment_bytes_def drop_take min_def add.commute)
    then show ?thesis
      using True unfolding nth cell_at_def le_at_def len by simp
  next
    case False
    have "?m = ?m div ?c * ?c" using be(3) div_mult_mod_eq [of ?m ?c] by simp
    also have "\<dots> \<le> j * ?c" using False by (intro mult_le_mono1) simp
    finally have "drop (j * ?c) (segment_bytes buf b e) = []"
      by (simp add: segment_bytes_def)
    then show ?thesis
      using False unfolding nth cell_at_def le_at_def len by simp
  qed
qed

lemma segment_cells_split:
  assumes ok: "valarray_ok (length buf) (unat b) (unat e) (sizeof_cell TYPE('w::len))"
    and c: "0 < sizeof_cell TYPE('w)" and m: "m = (unat e - unat b) div sizeof_cell TYPE('w)" "m \<le> n"
  shows "take m (segment_cells buf b e n) =
      map (\<lambda>j. le_at buf (unat b + j * sizeof_cell TYPE('w)) :: 'w word) [0..<m]"
    and "\<forall>x \<in> set (drop m (segment_cells buf b e n)). x = (0 :: 'w word)"
proof -
  note nth = segment_cells_nth [OF ok _ c, folded m(1)]
  show "take m (segment_cells buf b e n) =
      map (\<lambda>j. le_at buf (unat b + j * sizeof_cell TYPE('w)) :: 'w word) [0..<m]"
    using m(2) by (intro nth_equalityI) (simp_all add: nth)
  show "\<forall>x \<in> set (drop m (segment_cells buf b e n)). x = (0 :: 'w word)"
    using m(2) by (auto simp: in_set_conv_nth nth)
qed

text \<open>
  The contract of a loaded module, over the file: which addresses its names have, which
  natives it calls, and what its code and data start as.
\<close>

definition represents ::
  "byte list \<Rightarrow> 'f image \<Rightarrow> ('w::len, 'f, 'g, 'u, 'a) loader \<Rightarrow> bool"
where
  "represents buf i l \<longleftrightarrow>
    (\<forall>v. get_public l v = Some (case map_of (im_publics i) v of None \<Rightarrow> 0 | Some x \<Rightarrow> ucast x))
    \<and> (\<forall>v. get_pubvar l v = Some (case map_of (im_pubvars i) v of None \<Rightarrow> 0 | Some x \<Rightarrow> ucast x))
    \<and> natives_mem l = map Some (im_natives i)
    \<and> get_main l = main_of (im_header i)
    \<and> code_mem l = map (\<lambda>j. le_at buf (unat (h_cod (im_header i)) + j * sizeof_cell TYPE('w)))
        [0..<im_code i]
    \<and> take (im_data i) (data_mem l) =
        map (\<lambda>j. le_at buf (unat (h_dat (im_header i)) + j * sizeof_cell TYPE('w))) [0..<im_data i]
    \<and> (\<forall>x \<in> set (drop (im_data i) (data_mem l)). x = 0)"

lemma loaded_represents:
  fixes block :: "'w::len word"
  assumes mw: "machine_word TYPE('w)" and p: "parse_image TYPE('w) version buf ns = Inr i"
    and fits: "image_fits TYPE('w) (unat a) i"
  shows "represents buf i (loaded a block buf i st (l0\<lparr>main_fn := main_of (im_header i)\<rparr>))"
proof -
  let ?c = "image_counts i :: 'w counts" and ?h = "im_header i" and ?csz = "sizeof_cell TYPE('w)"
  let ?l = "loaded a block buf i st (l0\<lparr>main_fn := main_of ?h\<rparr>)"
  have lf: "layout_fits (unat a) ?c" using fits by (simp add: image_fits_def)
  have c: "0 < ?csz" using mw by (rule sizeof_cell_pos)
  have h: "?h = header_of buf" by (rule parse_image_Inr(3) [OF p])
  note seg = parse_image_Inr(4,5) [OF p, folded h]
  note cnt = parse_image_Inr(6,7) [OF p, folded h]
  have mem: "code_mem ?l = segment_cells buf (h_cod ?h) (h_dat ?h) (im_code i)"
    "data_mem ?l = segment_cells buf (h_dat ?h) (h_hea ?h) (unat (data_alloc_cells ?h (im_data i) :: 'w word))"
    "natives_mem ?l = map Some (im_natives i)" "main_fn ?l = main_of ?h"
    by (simp_all add: loaded_def Let_def place_regions_layout [OF lf])
  have d: "im_data i \<le> unat (data_alloc_cells ?h (im_data i) :: 'w word)"
    using fits by (simp add: image_fits_def)
  have code: "code_mem ?l = map (\<lambda>j. le_at buf (unat (h_cod ?h) + j * ?csz)) [0..<im_code i]"
    using segment_cells_split(1) [OF seg(1) c cnt(1) le_refl] unfolding mem by simp
  note data = segment_cells_split [OF seg(2) c cnt(2) d, folded mem(2)]
  show ?thesis
    unfolding represents_def get_public_def get_pubvar_def get_main_def
    by (intro conjI allI) (rule loaded_lookups [OF p fits refl] code data mem(3,4))+
qed

lemma finished_represents [simp]: "represents buf i (finished i cb db l) = represents buf i l"
proof -
  have "name_at (finished i cb db l) = name_at l"
    by (rule ext) (simp add: name_at_def finished_def Let_def)
  then show ?thesis
    by (simp add: represents_def get_public_def get_pubvar_def get_main_def)
      (simp add: finished_def Let_def)
qed


section \<open>The results of init\<close>

lemma pool_alignment:
  assumes "machine_word TYPE('w::len)" and "a = of_nat (2 * sizeof_cell TYPE('w))"
  shows "unat (a :: 'w word) = 2 * sizeof_cell TYPE('w)"
  unfolding assms(2) using assms(1)
  by (intro unat_of_nat_small) (auto elim!: machine_word_cases)

lemma init_accepts:
  fixes base block :: "'w::len word" and l0 :: "('w, 'f, 'g, 'u, 'a) loader"
  assumes "image_object base buf"
    and "parse_image TYPE('w) (amx_version ops) buf (natives cbs) = Inr i"
    and "mem_align k = of_nat (2 * sizeof_cell TYPE('w))"
    and "image_fits TYPE('w) (2 * sizeof_cell TYPE('w)) i"
    and "fixup_inside TYPE('w) (2 * sizeof_cell TYPE('w)) i"
    and "2 \<le> length (im_natives i)"
    and "pool_alloc k (alloc_size (mem_align k) (image_counts i)) = Some block"
    and "unat block + unat (alloc_size (mem_align k) (image_counts i)) < 2 ^ LENGTH('w)"
    and "code_map ops (amx_state l0) block (of_nat (im_code i)) = Some (a1, cb)"
    and "data_map ops a1
      (block + of_nat (off_data (2 * sizeof_cell TYPE('w)) (image_counts i :: 'w counts)))
      (data_alloc_cells (im_header i) (im_data i)) = Some (a2, db)"
  shows "\<exists>l. init ops k buf base cbs l0 = Some (LE_success, l) \<and> represents buf i l
    \<and> amx_state l = a2 \<and> COD l = cb \<and> DAT l = db
    \<and> loader_frees l = [block]"
proof -
  have mw: "machine_word TYPE('w)" using assms(1) by (rule image_objectD(1))
  note al = pool_alignment [OF mw assms(3)]
  note fits = assms(4) [folded al]
  have lf: "layout_fits (unat (mem_align k)) (image_counts i :: 'w counts)"
    using fits by (simp add: image_fits_def)
  let ?l0 = "(hooked cbs l0)\<lparr>main_fn := main_of (im_header i)\<rparr>"
  have st: "amx_state ?l0 = amx_state l0" by (simp add: hooked_def)
  have ns: "\<not> no_slack TYPE('w) (unat (mem_align k)) i"
    using no_slack_natives [OF mw, of i] assms(6) by (simp add: al)
  note res = load_image_result [OF assms(1,2) fits assms(7,8) assms(5) [folded al],
    of ops ?l0, unfolded st, OF assms(9) assms(10) [folded al]]
  let ?l = "finished i cb db (loaded (mem_align k) block buf i a2 ?l0)"
  have "init ops k buf base cbs l0 = Some (LE_success, ?l)"
    unfolding init_load [of base buf ops cbs i, OF assms(1,2)] res using ns by simp
  moreover have "represents buf i ?l"
    using loaded_represents [OF mw assms(2) fits] by simp
  moreover have "amx_state ?l = a2 \<and> COD ?l = cb \<and> DAT ?l = db \<and> loader_frees ?l = [block]"
    by (simp add: finished_def loaded_def Let_def loader_frees_def place_regions_layout [OF lf])
  ultimately show ?thesis by blast
qed

text \<open>
  C2: \<open>init\<close> succeeds on every file the plain reading accepts, when it imports at least two
  natives, the pool has memory, the machine accepts both mappings and the fix-up loop of the
  data stays in the allocation; the loader then represents the file: lookups of publics and
  pubvars give the address of the first entry with that name and 0 for any other, the native
  table calls the driver's natives in import order, code and data are the cells of the file
  and the rest of the data (the stack) is zero.
\<close>

theorem init_loads:
  fixes base block :: "'w::len word" and l0 :: "('w, 'f, 'g, 'u, 'a) loader"
  assumes "image_object base buf"
    and "parse_image TYPE('w) (amx_version ops) buf (natives cbs) = Inr i"
    and "mem_align k = of_nat (2 * sizeof_cell TYPE('w))"
    and "image_fits TYPE('w) (2 * sizeof_cell TYPE('w)) i"
    and "fixup_inside TYPE('w) (2 * sizeof_cell TYPE('w)) i"
    and "2 \<le> length (im_natives i)"
    and "pool_alloc k (alloc_size (mem_align k) (image_counts i)) = Some block"
    and "unat block + unat (alloc_size (mem_align k) (image_counts i)) < 2 ^ LENGTH('w)"
    and "code_map ops (amx_state l0) block (of_nat (im_code i)) = Some (a1, cb)"
    and "data_map ops a1
      (block + of_nat (off_data (2 * sizeof_cell TYPE('w)) (image_counts i :: 'w counts)))
      (data_alloc_cells (im_header i) (im_data i)) = Some (a2, db)"
  shows "\<exists>l. init ops k buf base cbs l0 = Some (LE_success, l) \<and> represents buf i l
    \<and> amx_state l = a2 \<and> COD l = cb \<and> DAT l = db
    \<and> loader_frees l = [block]"
  by (rule init_accepts [OF assms])

text \<open>
  a file with fewer than two natives never loads: the natives are then the only region
  whose reserved size equals its size, \<open>string_buffer\<close> ends exactly at the end of the
  allocation, and the final check \<open>string_buffer >= alloc + alloc_size\<close> takes that for an
  overrun and returns \<open>unknown\<close>.
\<close>

theorem init_refuses_few_natives:
  fixes base block :: "'w::len word" and l0 :: "('w, 'f, 'g, 'u, 'a) loader"
  assumes "image_object base buf"
    and "parse_image TYPE('w) (amx_version ops) buf (natives cbs) = Inr i"
    and "mem_align k = of_nat (2 * sizeof_cell TYPE('w))"
    and "image_fits TYPE('w) (2 * sizeof_cell TYPE('w)) i"
    and "fixup_inside TYPE('w) (2 * sizeof_cell TYPE('w)) i"
    and "length (im_natives i) < 2"
    and "pool_alloc k (alloc_size (mem_align k) (image_counts i)) = Some block"
    and "unat block + unat (alloc_size (mem_align k) (image_counts i)) < 2 ^ LENGTH('w)"
    and "code_map ops (amx_state l0) block (of_nat (im_code i)) = Some (a1, cb)"
    and "data_map ops a1
      (block + of_nat (off_data (2 * sizeof_cell TYPE('w)) (image_counts i :: 'w counts)))
      (data_alloc_cells (im_header i) (im_data i)) = Some (a2, db)"
  shows "\<exists>l. init ops k buf base cbs l0 = Some (LE_unknown, l) \<and> represents buf i l"
proof -
  have mw: "machine_word TYPE('w)" using assms(1) by (rule image_objectD(1))
  note al = pool_alignment [OF mw assms(3)]
  note fits = assms(4) [folded al]
  let ?l0 = "(hooked cbs l0)\<lparr>main_fn := main_of (im_header i)\<rparr>"
  have st: "amx_state ?l0 = amx_state l0" by (simp add: hooked_def)
  have ns: "no_slack TYPE('w) (unat (mem_align k)) i"
    using no_slack_natives [OF mw, of i] assms(6) by (simp add: al)
  note res = load_image_result [OF assms(1,2) fits assms(7,8) assms(5) [folded al],
    of ops ?l0, unfolded st, OF assms(9) assms(10) [folded al]]
  show ?thesis
    unfolding init_load [of base buf ops cbs i, OF assms(1,2)] res
    using ns loaded_represents [OF mw assms(2) fits] by simp
qed

text \<open>
  when the code segment is larger than the data, the tables and the strings together,
  the loop that converts the data segment, which runs to \<open>_code_count\<close> instead of
  \<open>_data_count\<close>, leaves the allocation: the load of an accepted file has no defined result.
\<close>

theorem init_fixup_overrun:
  fixes base block :: "'w::len word" and l0 :: "('w, 'f, 'g, 'u, 'a) loader"
  assumes "image_object base buf"
    and "parse_image TYPE('w) (amx_version ops) buf (natives cbs) = Inr i"
    and "image_fits TYPE('w) (unat (mem_align k)) i"
    and "total_bytes (unat (mem_align k)) (image_counts i :: 'w counts)
      < off_data (unat (mem_align k)) (image_counts i :: 'w counts) + im_code i * sizeof_cell TYPE('w)"
    and "pool_alloc k (alloc_size (mem_align k) (image_counts i)) = Some block"
  shows "init ops k buf base cbs l0 = None"
proof -
  have A: "0 < unat (mem_align k)" using assms(3) by (simp add: image_fits_def layout_fits_def)
  have "im_code i \<noteq> 0"
  proof
    assume "im_code i = 0"
    then show False
      using assms(4) layout_ordered [OF A, of "image_counts i :: 'w counts"] by simp
  qed
  then have nf: "\<not> fixup_inside TYPE('w) (unat (mem_align k)) i"
    using assms(4) by (simp add: fixup_inside_def Let_def image_counts_def code_bytes_def)
  show ?thesis
    unfolding init_load [of base buf ops cbs i, OF assms(1,2)] load_image_def Let_def assms(5)
      option.case copy_segments_image [OF assms(1,2,3)] if_not_P [OF nf]
    by simp
qed


section \<open>Sample modules\<close>

text \<open>
  64-bit files with a public \<open>p\<close>, imports of the native \<open>n\<close> (two entries, or one with
  \<open>k = 1\<close>), one cell of code, one of data and one of stack.
\<close>

definition sample_module :: "byte \<Rightarrow> byte list" where
  "sample_module lib =
    [104, 0, 0, 0, 0xE1, 0xF1, 11, 0, 0, 0, 8, 0,
     88, 0, 0, 0, 96, 0, 0, 0, 104, 0, 0, 0, 112, 0, 0, 0, 8, 0, 0, 0,
     60, 0, 0, 0, 68, 0, 0, 0, lib, 0, 0, 0, lib, 0, 0, 0, lib, 0, 0, 0, 0, 0, 0, 0, 0, 0, 0, 0,
     16, 0, 0, 0, 84, 0, 0, 0,
     0, 0, 0, 0, 86, 0, 0, 0,
     0, 0, 0, 0, 86, 0, 0, 0,
     112, 0, 110, 0,
     1, 0, 0, 0, 0, 0, 0, 0,
     2, 0, 0, 0, 0, 0, 0, 0]"

definition sample_module_image :: "byte \<Rightarrow> nat list \<Rightarrow> nat image" where
  "sample_module_image lib ns =
    \<lparr>im_header = header_of (sample_module lib), im_code = 1, im_data = 1,
     im_publics = [([112], 16)], im_natives = ns, im_pubvars = []\<rparr>"

definition sample_cbs :: "(nat, unit, unit) callbacks_arg" where
  "sample_cbs = \<lparr>natives = [([110], 7)], on_single_step = None, on_break = None, user_data = ()\<rparr>"

definition sample_ops :: "('w::len, unit) amx_ops" where
  "sample_ops = \<lparr>amx_version = 11, code_map = (\<lambda>a p n. Some (a, 4096)),
     data_map = (\<lambda>a p n. Some (a, 8192))\<rparr>"

definition sample_kernel :: "64 kernel" where
  "sample_kernel = \<lparr>mem_align = 16, pool_alloc = (\<lambda>n. Some 65536)\<rparr>"

lemma parse_sample_module:
  "parse_image TYPE(64) (amx_version sample_ops) (sample_module 84) (natives sample_cbs) =
     Inr (sample_module_image 84 [7, 7])"
  "parse_image TYPE(64) (amx_version sample_ops) (sample_module 76) (natives sample_cbs) =
     Inr (sample_module_image 76 [7])"
  by (simp_all add: sample_module_def sample_module_image_def parse_eval sample_ops_def sample_cbs_def
      find_native_def strcmp_eq_def upt_conv_Cons)

lemma sample_module_object: "image_object (16384 :: 64 word) (sample_module lib)"
  by (simp add: image_object_def sample_module_def)

lemmas sample_eval =
  image_counts_def sample_module_image_def data_alloc_cells_def Let_def header_of_def
  sample_module_def le_at_def image_strings_def sample_kernel_def sample_ops_def sample_cbs_def
  sample_loader_def empty_loader_def

lemma sample_module_size:
  "alloc_size (mem_align sample_kernel) (image_counts (sample_module_image 84 [7, 7])) = 82"
  "alloc_size (mem_align sample_kernel) (image_counts (sample_module_image 76 [7])) = 66"
  by (simp_all add: alloc_size_def align_up_def sizeof_pair_def sample_eval)

lemma sample_module_fits:
  "image_fits TYPE(64) (2 * sizeof_cell TYPE(64)) (sample_module_image 84 [7, 7])"
  "image_fits TYPE(64) (2 * sizeof_cell TYPE(64)) (sample_module_image 76 [7])"
  using image_fits_64 [OF sample_module_object parse_sample_module(1), of 16]
    image_fits_64 [OF sample_module_object parse_sample_module(2), of 16] by simp_all

lemma sample_module_fixup:
  "fixup_inside TYPE(64) (2 * sizeof_cell TYPE(64)) (sample_module_image 84 [7, 7])"
  "fixup_inside TYPE(64) (2 * sizeof_cell TYPE(64)) (sample_module_image 76 [7])"
  by (simp_all add: fixup_inside_def layout_simps align_nat_def sample_eval)

text \<open>The module with two imports loads at address 65536.\<close>

theorem init_loads_witness:
  "\<exists>l. init sample_ops sample_kernel (sample_module 84) 16384 sample_cbs sample_loader = Some (LE_success, l)
     \<and> get_public l [112] = Some 16 \<and> get_public l [113] = Some 0 \<and> natives_mem l = [Some 7, Some 7]"
proof -
  have "\<exists>l. init sample_ops sample_kernel (sample_module 84) 16384 sample_cbs sample_loader
      = Some (LE_success, l) \<and> represents (sample_module 84) (sample_module_image 84 [7, 7]) l
    \<and> amx_state l = () \<and> COD l = 4096 \<and> DAT l = 8192 \<and> loader_frees l = [65536]"
    by (rule init_loads [OF sample_module_object parse_sample_module(1) _ sample_module_fits(1)
        sample_module_fixup(1)])
      (simp_all add: sample_module_size, simp_all add: sample_eval)
  then show ?thesis
    by (auto simp: represents_def) (auto simp: sample_module_image_def)
qed

text \<open>The same module with one import does not.\<close>

theorem init_refuses_few_natives_witness:
  "\<exists>l. init sample_ops sample_kernel (sample_module 76) 16384 sample_cbs sample_loader = Some (LE_unknown, l)"
proof -
  have "\<exists>l. init sample_ops sample_kernel (sample_module 76) 16384 sample_cbs sample_loader
      = Some (LE_unknown, l) \<and> represents (sample_module 76) (sample_module_image 76 [7]) l"
    by (rule init_refuses_few_natives [OF sample_module_object parse_sample_module(2) _ sample_module_fits(2)
        sample_module_fixup(2), where block = 65536 and ?a1.0 = "()" and ?a2.0 = "()"
        and cb = 4096 and db = 8192])
      (simp_all add: sample_module_size, simp_all add: sample_eval)
  then show ?thesis by blast
qed

text \<open>Two cells of code and nothing else: the loop reads past the end of the 16-byte block.\<close>

definition sample_code_file :: "byte list" where
  "sample_code_file =
    [76, 0, 0, 0, 0xE1, 0xF1, 11, 0, 0, 0, 8, 0,
     60, 0, 0, 0, 76, 0, 0, 0, 76, 0, 0, 0, 76, 0, 0, 0, 0, 0, 0, 0,
     76, 0, 0, 0, 76, 0, 0, 0, 76, 0, 0, 0, 76, 0, 0, 0, 76, 0, 0, 0, 0, 0, 0, 0, 0, 0, 0, 0,
     1, 0, 0, 0, 0, 0, 0, 0, 2, 0, 0, 0, 0, 0, 0, 0]"

definition sample_code_image :: "nat image" where
  "sample_code_image = \<lparr>im_header = header_of sample_code_file, im_code = 2, im_data = 0,
     im_publics = [], im_natives = [], im_pubvars = []\<rparr>"

theorem init_fixup_overrun_witness:
  "init sample_ops sample_kernel sample_code_file 16384 sample_cbs sample_loader = None"
proof -
  have im: "image_object (16384 :: 64 word) sample_code_file"
    by (simp add: image_object_def sample_code_file_def)
  have p: "parse_image TYPE(64) (amx_version sample_ops) sample_code_file (natives sample_cbs) =
      Inr sample_code_image"
    by (simp add: sample_code_file_def sample_code_image_def parse_eval sample_ops_def sample_cbs_def)
  have al: "unat (mem_align sample_kernel) = 16" by (simp add: sample_kernel_def)
  have fits: "image_fits TYPE(64) (unat (mem_align sample_kernel)) sample_code_image"
    unfolding al by (rule image_fits_64 [OF im p]) simp_all
  have over: "total_bytes (unat (mem_align sample_kernel)) (image_counts sample_code_image :: 64 counts)
      < off_data (unat (mem_align sample_kernel)) (image_counts sample_code_image :: 64 counts)
        + im_code sample_code_image * sizeof_cell TYPE(64)"
    unfolding al by (simp add: layout_simps align_nat_def image_counts_def sample_code_image_def
        data_alloc_cells_def Let_def header_of_def sample_code_file_def le_at_def image_strings_def)
  show ?thesis
    by (rule init_fixup_overrun [OF im p fits over, where block = 65536]) (simp add: sample_kernel_def)
qed

end
