(* ===== verification/Signature.thy ===== *)
theory Signature
  imports Cbytes
begin

text \<open>
  Module signatures: \<open>calculate_sha256\<close> and \<open>verify_sig\<close> of \<open>PawnIO/signature.cpp\<close> and
  \<open>check_signature\<close> of \<open>PawnIO/vm.cpp\<close>.

  The Windows cryptography API is a parameter, the record \<open>bcrypt\<close>: the status each call
  returns and the data it produces.  The functions return the handles they opened and closed
  as a trace, in order.
\<close>

section \<open>The cryptography API\<close>

record bcrypt =
  open_sha256 :: ntstatus
  object_length :: "ntstatus \<times> u32 \<times> u32"
  create_hash :: "u32 \<Rightarrow> ntstatus"
  hash_data :: "byte list \<Rightarrow> ntstatus"
  finish_hash :: "byte list \<Rightarrow> ntstatus \<times> byte list"
  open_rsa :: ntstatus
  import_key :: "byte list \<Rightarrow> ntstatus"
  verify_signature :: "byte list \<Rightarrow> byte list \<Rightarrow> byte list \<Rightarrow> ntstatus"
  key_blob_size :: nat
  rsa_public_magic :: u32

datatype bhandle = AlgHandle | HashHandle | KeyHandle

datatype bevent = Acquire bhandle | Release bhandle

section \<open>calculate\_sha256\<close>

text \<open>
  \<open>data\<close> is the memory at the data pointer, of which \<open>sz\<close> bytes are to be hashed; the
  API takes the size as a \<open>ULONG\<close>.  \<open>buf\<close> is the content of \<open>*sha256\<close>, before and after.
\<close>

definition calculate_sha256 ::
  "bcrypt \<Rightarrow> byte list \<Rightarrow> nat \<Rightarrow> byte list \<Rightarrow> ntstatus \<times> byte list \<times> bevent list"
where
  "calculate_sha256 bc data sz buf =
    (if \<not> NT_SUCCESS (open_sha256 bc) then (open_sha256 bc, buf, [])
     else let (status, len, rlen) = object_length bc
          in if NT_SUCCESS status \<and> rlen = 4
             then let status = create_hash bc len
                  in if \<not> NT_SUCCESS status
                     then (status, buf, [Acquire AlgHandle, Release AlgHandle])
                     else let input = take (sz mod 2 ^ 32) data; status = hash_data bc input;
                              (status, buf) =
                                (if NT_SUCCESS status then finish_hash bc input else (status, buf))
                          in (status, buf, [Acquire AlgHandle, Acquire HashHandle,
                               Release HashHandle, Release AlgHandle])
             else (status, buf, [Acquire AlgHandle, Release AlgHandle]))"

section \<open>verify\_sig\<close>

text \<open>\<open>key_blob.Magic\<close> is the first field of the key, a little-endian 32-bit integer.\<close>

definition key_magic :: "byte list \<Rightarrow> u32" where
  "key_magic key = le_at key 0"

definition verify_sig ::
  "bcrypt \<Rightarrow> byte list \<Rightarrow> byte list \<Rightarrow> byte list \<Rightarrow> ntstatus \<times> bevent list"
where
  "verify_sig bc sha256 sig pubkey =
    (if length pubkey < key_blob_size bc then (STATUS_INVALID_PARAMETER, [])
     else if key_magic pubkey \<noteq> rsa_public_magic bc then (STATUS_INVALID_PARAMETER, [])
     else if \<not> NT_SUCCESS (open_rsa bc) then (open_rsa bc, [])
     else let status = import_key bc pubkey
          in if \<not> NT_SUCCESS status then (status, [Acquire AlgHandle, Release AlgHandle])
             else (verify_signature bc pubkey sha256 sig,
                   [Acquire AlgHandle, Acquire KeyHandle, Release KeyHandle, Release AlgHandle]))"

section \<open>check\_signature\<close>

text \<open>
  The loop over \<open>k_trusted_keys\<close>, which ends at the entry with null data; the keys are the
  entries before it.
\<close>

fun verify_loop ::
  "bcrypt \<Rightarrow> byte list \<Rightarrow> byte list \<Rightarrow> byte list list \<Rightarrow> ntstatus \<Rightarrow> ntstatus \<times> bevent list"
where
  "verify_loop bc sha256 sig [] status = (status, [])"
| "verify_loop bc sha256 sig (key # keys) status =
     (let (status', tr) = verify_sig bc sha256 sig key
      in if NT_SUCCESS status' then (status', tr)
         else (let (st, tr') = verify_loop bc sha256 sig keys status' in (st, tr @ tr')))"

text \<open>\<open>garbage\<close> is what the local \<open>sha256_buf\<close> holds before the call.\<close>

definition check_signature ::
  "bcrypt \<Rightarrow> byte list list \<Rightarrow> byte list \<Rightarrow> byte list \<Rightarrow> nat \<Rightarrow> byte list \<Rightarrow> ntstatus \<times> bevent list"
where
  "check_signature bc keys garbage mem len sig =
    (let (status, sha256, tr) = calculate_sha256 bc mem len garbage
     in if \<not> NT_SUCCESS status then (status, tr)
        else (let (st, tr') = verify_loop bc sha256 sig keys status in (st, tr @ tr')))"

section \<open>Handles are closed\<close>

text \<open>Running a trace on the stack of open handles; \<open>None\<close> for a release out of order.\<close>

fun run_trace :: "bevent list \<Rightarrow> bhandle list \<Rightarrow> bhandle list option" where
  "run_trace [] hs = Some hs"
| "run_trace (Acquire h # tr) hs = run_trace tr (h # hs)"
| "run_trace (Release h # tr) hs =
     (case hs of [] \<Rightarrow> None | h' # hs' \<Rightarrow> if h = h' then run_trace tr hs' else None)"

interpretation handles: trace_runner run_trace
proof
  show "run_trace (e # es) hs = Option.bind (run_trace [e] hs) (run_trace es)" for e es hs
    by (cases e) (auto split: list.splits)
qed simp

lemma calculate_sha256_trace: "run_trace (snd (snd (calculate_sha256 bc data sz buf))) hs = Some hs"
  by (auto simp: calculate_sha256_def Let_def split: prod.splits)

lemma verify_sig_trace: "run_trace (snd (verify_sig bc sha256 sig key)) hs = Some hs"
  by (auto simp: verify_sig_def Let_def)

lemma verify_loop_trace: "run_trace (snd (verify_loop bc sha256 sig keys status)) hs = Some hs"
proof (induction keys arbitrary: status)
  case Nil
  then show ?case by simp
next
  case (Cons key keys)
  obtain st tr where v: "verify_sig bc sha256 sig key = (st, tr)" by (cases "verify_sig bc sha256 sig key")
  have "run_trace tr hs = Some hs" using verify_sig_trace [of bc sha256 sig key hs] v by simp
  then show ?case
    using Cons.IH [of st] by (auto simp: v handles.run_append split: prod.splits)
qed

text \<open>
  whatever the cryptography API answers, checking a signature closes every algorithm,
  hash and key handle it opened, the inner ones first.
\<close>

theorem check_signature_closes_handles:
  "run_trace (snd (check_signature bc keys garbage mem len sig)) [] = Some []"
proof -
  obtain st sha tr where c: "calculate_sha256 bc mem len garbage = (st, sha, tr)"
    by (cases "calculate_sha256 bc mem len garbage")
  have tr: "run_trace tr [] = Some []"
    using calculate_sha256_trace [of bc mem len garbage "[]"] by (simp add: c)
  show ?thesis
    using verify_loop_trace [of bc sha sig keys st "[]"] tr
    by (auto simp: check_signature_def Let_def c handles.run_append split: prod.splits)
qed

section \<open>What is accepted\<close>

text \<open>A key that verifies the signature of a digest, through every call of \<open>verify_sig\<close>.\<close>

definition verifies :: "bcrypt \<Rightarrow> byte list \<Rightarrow> byte list \<Rightarrow> byte list \<Rightarrow> bool" where
  "verifies bc sha256 sig key \<longleftrightarrow>
     key_blob_size bc \<le> length key \<and> key_magic key = rsa_public_magic bc
     \<and> NT_SUCCESS (open_rsa bc) \<and> NT_SUCCESS (import_key bc key)
     \<and> NT_SUCCESS (verify_signature bc key sha256 sig)"

lemma verify_sig_success: "NT_SUCCESS (fst (verify_sig bc sha256 sig key)) \<longleftrightarrow> verifies bc sha256 sig key"
  by (auto simp: verify_sig_def verifies_def Let_def)

lemma verify_loop_success:
  "keys \<noteq> [] \<Longrightarrow> NT_SUCCESS (fst (verify_loop bc sha256 sig keys status)) \<longleftrightarrow>
     (\<exists>key \<in> set keys. verifies bc sha256 sig key)"
proof (induction keys arbitrary: status)
  case Nil
  then show ?case by simp
next
  case (Cons key keys)
  obtain st tr where v: "verify_sig bc sha256 sig key = (st, tr)" by (cases "verify_sig bc sha256 sig key")
  have s: "NT_SUCCESS st \<longleftrightarrow> verifies bc sha256 sig key"
    using verify_sig_success [of bc sha256 sig key] v by simp
  show ?case
  proof (cases "keys = []")
    case True
    then show ?thesis using s by (auto simp: v split: prod.splits)
  next
    case False
    then show ?thesis using s Cons.IH [OF False, of st] by (auto simp: v split: prod.splits)
  qed
qed

text \<open>The calls of \<open>calculate_sha256\<close> all succeed and give the digest of \<open>input\<close>.\<close>

definition digests :: "bcrypt \<Rightarrow> byte list \<Rightarrow> byte list \<Rightarrow> bool" where
  "digests bc input sha256 \<longleftrightarrow>
     NT_SUCCESS (open_sha256 bc) \<and> NT_SUCCESS (fst (object_length bc))
     \<and> NT_SUCCESS (create_hash bc (fst (snd (object_length bc)))) \<and> NT_SUCCESS (hash_data bc input)
     \<and> NT_SUCCESS (fst (finish_hash bc input)) \<and> snd (finish_hash bc input) = sha256"

lemma calculate_sha256_success:
  assumes "NT_SUCCESS (fst (object_length bc)) \<Longrightarrow> snd (snd (object_length bc)) = 4"
  shows "NT_SUCCESS (fst (calculate_sha256 bc data sz buf)) \<longleftrightarrow>
      (\<exists>sha256. digests bc (take (sz mod 2 ^ 32) data) sha256)"
    and "digests bc (take (sz mod 2 ^ 32) data) sha256 \<Longrightarrow>
      fst (snd (calculate_sha256 bc data sz buf)) = sha256"
  using assms by (auto simp: calculate_sha256_def digests_def Let_def split: prod.splits if_splits)

lemma check_signature_success:
  assumes "NT_SUCCESS (fst (object_length bc)) \<longrightarrow> snd (snd (object_length bc)) = 4"
    and "keys \<noteq> []" and "length mem < 2 ^ 32"
  shows "NT_SUCCESS (fst (check_signature bc keys garbage mem (length mem) sig)) \<longleftrightarrow>
    (\<exists>sha256. digests bc mem sha256 \<and> (\<exists>key \<in> set keys. verifies bc sha256 sig key))"
proof -
  obtain st sha tr where c: "calculate_sha256 bc mem (length mem) garbage = (st, sha, tr)"
    by (cases "calculate_sha256 bc mem (length mem) garbage")
  have n: "take (length mem mod 2 ^ 32) mem = mem" using assms(3) by simp
  have s: "NT_SUCCESS st \<longleftrightarrow> (\<exists>sha256. digests bc mem sha256)"
    using calculate_sha256_success(1) [where bc = bc and data = mem and sz = "length mem" and buf = garbage] assms(1) by (simp only: c n fst_conv)
  have d: "digests bc mem sha256 \<Longrightarrow> sha = sha256" for sha256
    using calculate_sha256_success(2) [where bc = bc and data = mem and sz = "length mem" and buf = garbage and ?sha256.0 = sha256] assms(1)
    by (simp only: c n fst_conv snd_conv)
  have "NT_SUCCESS (fst (check_signature bc keys garbage mem (length mem) sig)) \<longleftrightarrow>
      NT_SUCCESS st \<and> (\<exists>key \<in> set keys. verifies bc sha sig key)"
    using verify_loop_success [OF assms(2), of bc sha sig st]
    by (auto simp: check_signature_def Let_def c split: prod.splits)
  then show ?thesis using s d by blast
qed

text \<open>
  C12: when the API reports the object length as four bytes, as documented, a module of less
  than 4 GiB is accepted exactly when one of the trusted keys verifies the signature of the
  digest of the module: no failure of an API call and no key is mistaken for a success.
\<close>

theorem check_signature_accepts:
  assumes "NT_SUCCESS (fst (object_length bc)) \<longrightarrow> snd (snd (object_length bc)) = 4"
    and "keys \<noteq> []" and "length mem < 2 ^ 32"
  shows "NT_SUCCESS (fst (check_signature bc keys garbage mem (length mem) sig)) \<longleftrightarrow>
    (\<exists>sha256. digests bc mem sha256 \<and> (\<exists>key \<in> set keys. verifies bc sha256 sig key))"
  by (rule check_signature_success [OF assms])

text \<open>
  when the API succeeds but reports another length, \<open>calculate_sha256\<close> returns that
  success without having hashed anything: what is then verified is the uninitialised content
  of the local digest.
\<close>

theorem check_signature_unhashed:
  assumes "NT_SUCCESS (open_sha256 bc)" and "object_length bc = (STATUS_SUCCESS, len, rlen)"
    and "rlen \<noteq> 4" and "keys \<noteq> []"
  shows "NT_SUCCESS (fst (check_signature bc keys garbage mem sz sig)) \<longleftrightarrow>
    (\<exists>key \<in> set keys. verifies bc garbage sig key)"
proof -
  have c: "calculate_sha256 bc mem sz garbage = (STATUS_SUCCESS, garbage, [Acquire AlgHandle, Release AlgHandle])"
    using assms(1-3) by (simp add: calculate_sha256_def Let_def)
  show ?thesis
    using verify_loop_success [OF assms(4), of bc garbage sig STATUS_SUCCESS]
    by (auto simp: check_signature_def Let_def c split: prod.splits)
qed

text \<open>
  An API whose digest of an input is its first byte, and whose key \<open>RSA1\<close> signs a digest
  with itself; \<open>rlen\<close> is what it reports as the size of the length.
\<close>

definition sample_bcrypt :: "u32 \<Rightarrow> bcrypt" where
  "sample_bcrypt rlen =
    \<lparr>open_sha256 = STATUS_SUCCESS, object_length = (STATUS_SUCCESS, 286, rlen),
     create_hash = (\<lambda>n. STATUS_SUCCESS), hash_data = (\<lambda>bs. STATUS_SUCCESS),
     finish_hash = (\<lambda>bs. (STATUS_SUCCESS, take 1 bs)), open_rsa = STATUS_SUCCESS,
     import_key = (\<lambda>k. STATUS_SUCCESS),
     verify_signature = (\<lambda>k d s. if d = s then STATUS_SUCCESS else STATUS_UNSUCCESSFUL),
     key_blob_size = 4, rsa_public_magic = 0x31415352\<rparr>"

definition sample_key :: "byte list" where
  "sample_key = [0x52, 0x53, 0x41, 0x31]"

lemma sample_key_magic: "key_magic sample_key = 0x31415352"
  by (simp add: key_magic_def sample_key_def le_at_def)

lemma length_sample_key: "length sample_key = 4"
  by (simp add: sample_key_def)

theorem check_signature_accepts_witness:
  "NT_SUCCESS (fst (check_signature (sample_bcrypt 4) [sample_key] [9] [7, 8] (length [7, 8 :: byte]) [7]))
   \<and> \<not> NT_SUCCESS (fst (check_signature (sample_bcrypt 4) [sample_key] [9] [7, 8] (length [7, 8 :: byte]) [9]))"
proof -
  have h: "NT_SUCCESS (fst (object_length (sample_bcrypt 4))) \<longrightarrow> snd (snd (object_length (sample_bcrypt 4))) = 4"
    by (simp add: sample_bcrypt_def)
  have l: "length [7, 8 :: byte] < 2 ^ 32" by simp
  show ?thesis
    unfolding check_signature_accepts [OF h list.discI [OF refl] l]
    by (simp add: sample_bcrypt_def digests_def verifies_def sample_key_magic length_sample_key)
qed

theorem check_signature_unhashed_witness:
  "NT_SUCCESS (fst (check_signature (sample_bcrypt 8) [sample_key] [9] [7, 8] 2 [9]))"
  by (subst check_signature_unhashed [where len = 286 and rlen = 8])
    (simp_all add: sample_bcrypt_def verifies_def sample_key_magic length_sample_key)

end
