(* ===== verification/Vm.thy ===== *)
theory Vm
  imports Callback_Slots Loader_Correct Signature
begin

text \<open>
  The life of a virtual machine (\<open>PawnIO/vm.cpp\<close>): loading a signed module, running one of
  its functions for a caller, and destroying it.  The handlers return what the code returns
  and the events of \<open>Vm_Env\<close> in order.

  A machine is named by the address of its \<open>context\<close>.  The state \<open>'x\<close> holds the memory of
  the machine and everything else.
\<close>

section \<open>Data\<close>

text \<open>
  \<open>context\<close>: its address, the loader in it, and the copy of the file (\<open>original_buf\<close>: the
  address; \<open>original_bytes\<close>: what is there).
\<close>

record (overloaded) ('w, 'f, 'g, 'a) vm_context =
  ctx_addr :: "'w::len word"
  ctx_loader :: "('w, 'f, 'g, 'w word, 'a) loader"
  original_buf :: "'w word"
  original_bytes :: "byte list"

text \<open>
  What loading depends on: the cryptography API and the trusted keys, the bytes a local digest
  happens to hold, the machine and the allocator of the loader, the native table, what the
  pool returns for the copy and for the context, and the build with \<open>PAWNIO_UNRESTRICTED\<close>.
\<close>

record (overloaded) ('w, 'f, 'a) load_env =
  le_bcrypt :: bcrypt
  le_keys :: "byte list list"
  le_garbage :: "byte list"
  le_ops :: "('w::len, 'a) amx_ops"
  le_kernel :: "'w kernel"
  le_natives :: "(cstring \<times> 'f) list"
  le_amx :: 'a
  le_copy :: "'w word option"
  le_ctx :: "'w word option"
  le_unrestricted :: bool

section \<open>Destruction\<close>

definition vm_destroy_internal :: "('w::len, 'f, 'g, 'a) vm_context \<Rightarrow> ('w word, 'cb, 'w word) vm_ev list" where
  "vm_destroy_internal c =
    DestroyLoader (ctx_addr c) # map PoolFree (loader_frees (ctx_loader c))
      @ [PoolFree (ctx_addr c), PoolFree (original_buf c)]"

section \<open>Loading\<close>

definition loader_allocs :: "('w::len, 'f, 'g, 'u, 'a) loader \<Rightarrow> ('w word, 'cb, 'w word) vm_ev list" where
  "loader_allocs l = (case alloc_block l of Some (block, _) \<Rightarrow> [PoolAlloc block] | None \<Rightarrow> [])"

text \<open>The signature and the module of a file that is long enough.\<close>

definition file_sig_len :: "byte list \<Rightarrow> u32" where
  "file_sig_len buffer = le_at buffer 0"

definition file_sig :: "byte list \<Rightarrow> byte list" where
  "file_sig buffer = take (unat (file_sig_len buffer)) (drop 4 buffer)"

definition file_module :: "byte list \<Rightarrow> byte list" where
  "file_module buffer = drop (4 + unat (file_sig_len buffer)) buffer"

definition load_callbacks :: "('w::len, 'f, 'a) load_env \<Rightarrow> 'w word \<Rightarrow> ('f, 'g, 'w word) callbacks_arg" where
  "load_callbacks le ctx =
    \<lparr>natives = le_natives le, on_single_step = None, on_break = None, user_data = ctx\<rparr>"

definition load_module ::
  "('w::len, 'f, 'a) load_env \<Rightarrow> 'w word \<Rightarrow> byte list \<Rightarrow> 'w word \<Rightarrow>
   (loader_error \<times> ('w, 'f, 'g, 'w word, 'a) loader) option"
where
  "load_module le base buffer ctx =
    init (le_ops le) (le_kernel le) (file_module buffer) (base + 4 + ucast (file_sig_len buffer))
      (load_callbacks le ctx) (empty_loader (le_amx le))"

text \<open>\<open>base\<close> is the address of the buffer; its size is the length of the list.\<close>

definition vm_load_binary_internal ::
  "('w::len, 'f, 'a) load_env \<Rightarrow> 'w word \<Rightarrow> byte list \<Rightarrow>
   (ntstatus \<times> ('w, 'f, 'g, 'a) vm_context option \<times> ('w word, 'cb, 'w word) vm_ev list) option"
where
  "vm_load_binary_internal le base buffer =
    (if length buffer < 4 then Some (STATUS_INVALID_PARAMETER, None, [])
     else if unat (file_sig_len buffer) > length buffer - 4 then Some (STATUS_INVALID_PARAMETER, None, [])
     else let mem = file_module buffer;
              checked = fst (check_signature (le_bcrypt le) (le_keys le) (le_garbage le)
                mem (length mem) (file_sig buffer));
              status = (if le_unrestricted le then STATUS_SUCCESS else checked)
          in if \<not> NT_SUCCESS status then Some (status, None, [])
             else case le_copy le of
               None \<Rightarrow> Some (STATUS_NO_MEMORY, None, [])
             | Some copy \<Rightarrow>
                (case le_ctx le of
                   None \<Rightarrow> Some (STATUS_NO_MEMORY, None, [PoolAlloc copy, PoolFree copy])
                 | Some ctx \<Rightarrow> do {
                     (result, l) \<leftarrow> load_module le base buffer ctx;
                     (let c = \<lparr>ctx_addr = ctx, ctx_loader = l, original_buf = copy, original_bytes = buffer\<rparr>;
                          tr = [PoolAlloc copy, PoolAlloc ctx] @ loader_allocs l
                      in if result \<noteq> LE_success
                         then Some (STATUS_UNSUCCESSFUL, None, tr @ vm_destroy_internal c)
                         else Some (STATUS_SUCCESS, Some c, tr)) }))"

text \<open>
  A call of a function of the machine, between the notifications: the status and whether the
  machine ran.  The handlers use it under the mutex of the machine.
\<close>

definition call_between ::
  "('w::len, 'w word, 'cb, 'p, 'x) vm_env \<Rightarrow> 'w word \<Rightarrow> 'w word \<Rightarrow> 'w word list \<Rightarrow> 'x \<Rightarrow>
   (ntstatus \<times> 'x \<times> ('w, 'w word, 'cb) vm_trace) option"
where
  "call_between env v fn args x = do {
     (st, x1, e1) \<leftarrow> notify_precall env v fn x;
     if \<not> NT_SUCCESS st then Some (st, x1, e1)
     else let (res, ret, x2) = amx_call env v fn args x1 in do {
       (x3, e3) \<leftarrow> notify_postcall env v x2;
       Some (if res \<noteq> AE_success then STATUS_UNSUCCESSFUL else ucast ret, x3,
             e1 @ [RunAmx v fn args] @ e3) } }"

text \<open>The \<open>main\<close> of a module that was accepted, when it has one.\<close>

definition run_main ::
  "('w::len, 'w word, 'cb, 'p, 'x) vm_env \<Rightarrow> 'w word \<Rightarrow> 'w word \<Rightarrow> ntstatus \<Rightarrow> 'x \<Rightarrow>
   (ntstatus \<times> 'x \<times> ('w, 'w word, 'cb) vm_trace) option"
where
  "run_main env v main status x =
    (if NT_SUCCESS status \<and> main \<noteq> 0
     then do {
       (st, x', e) \<leftarrow> call_between env v main [] x;
       Some (st, x', [LockVm v] @ e @ [UnlockVm v]) }
     else Some (status, x, []))"

definition vm_load_binary ::
  "('w::len, 'f, 'a) load_env \<Rightarrow> ('w, 'w word, 'cb, 'p, 'x) vm_env \<Rightarrow> 'w word \<Rightarrow> byte list \<Rightarrow> 'x \<Rightarrow>
   (ntstatus \<times> ('w, 'f, 'g, 'a) vm_context option \<times> 'x \<times> ('w, 'w word, 'cb) vm_trace) option"
where
  "vm_load_binary le env base buffer x = do {
     (st, my_ctx, tr) \<leftarrow> vm_load_binary_internal le base buffer;
     if \<not> NT_SUCCESS st then Some (st, None, x, tr)
     else do {
       c \<leftarrow> my_ctx;
       let v = ctx_addr c;
       (st1, x1, e1) \<leftarrow> notify_created env v x;
       (st2, x2, e2) \<leftarrow> run_main env v (get_main (ctx_loader c)) st1 x1;
       let tr2 = tr @ [LockVm v] @ e1 @ [UnlockVm v] @ e2;
       if \<not> NT_SUCCESS st2
       then do {
         (x3, e3) \<leftarrow> notify_destroyed env v x2;
         Some (st2, None, x3, tr2 @ [LockVm v] @ e3 @ [UnlockVm v] @ vm_destroy_internal c) }
       else Some (st2, Some c, x2, tr2) } }"

section \<open>Running a function\<close>

text \<open>
  \<open>vm_execute_function\<close>: the input starts with the name of the function in 32 bytes.  The
  cells after it and the output buffer are mapped into the machine and passed as address and
  count.  \<open>in_bytes\<close> and \<open>out_size\<close> are the buffers of the request.
\<close>

definition request_name :: "byte list \<Rightarrow> cstring" where
  "request_name in_bytes = takeWhile (\<lambda>b. b \<noteq> 0) (take 32 in_bytes)"

definition vm_execute_mapped ::
  "('w::len, 'w word, 'cb, 'p, 'x) vm_env \<Rightarrow> 'w word \<Rightarrow> 'w word \<Rightarrow> 'w word \<Rightarrow>
   'w word \<Rightarrow> 'w word \<Rightarrow> 'w word \<Rightarrow> 'w word \<Rightarrow> 'x \<Rightarrow> (ntstatus \<times> 'x \<times> ('w, 'w word, 'cb) vm_trace) option"
where
  "vm_execute_mapped env v dat fn in_buf in_count out_buf out_count x =
    (case amx_map env v in_buf in_count x of
       None \<Rightarrow> Some (STATUS_UNSUCCESSFUL, x, [LockVm v, UnlockVm v])
     | Some (in_va, x1) \<Rightarrow>
        (case amx_map env v out_buf out_count x1 of
           None \<Rightarrow> Some (STATUS_UNSUCCESSFUL, amx_unmap env v in_va in_count x1,
             [LockVm v, MapData v in_va in_count, UnmapData v in_va in_count, UnlockVm v])
         | Some (out_va, x2) \<Rightarrow> do {
             (st, x3, e) \<leftarrow> call_between env v fn [in_va - dat, in_count, out_va - dat, out_count] x2;
             Some (st, amx_unmap env v in_va in_count (amx_unmap env v out_va out_count x3),
               [LockVm v, MapData v in_va in_count, MapData v out_va out_count] @ e
                 @ [UnmapData v out_va out_count, UnmapData v in_va in_count, UnlockVm v]) }))"

definition vm_execute_function ::
  "('w::len, 'w word, 'cb, 'p, 'x) vm_env \<Rightarrow> ('w, 'f, 'g, 'a) vm_context option \<Rightarrow>
   'w word \<Rightarrow> byte list \<Rightarrow> 'w word \<Rightarrow> nat \<Rightarrow> 'x \<Rightarrow> (ntstatus \<times> 'x \<times> ('w, 'w word, 'cb) vm_trace) option"
where
  "vm_execute_function env ctx in_addr in_bytes out_addr out_size x =
    (if length in_bytes < 32 then Some (STATUS_INVALID_PARAMETER, x, [])
     else let arr = request_name in_bytes
          in if length arr = 32 then Some (STATUS_INVALID_PARAMETER, x, [])
             else if take 6 arr \<noteq> cstr ''ioctl_'' then Some (STATUS_INVALID_PARAMETER, x, [])
             else case ctx of
               None \<Rightarrow> Some (STATUS_DEVICE_NOT_READY, x, [])
             | Some c \<Rightarrow> do {
                 fn \<leftarrow> get_public (ctx_loader c) arr;
                 if fn = 0 then Some (STATUS_OBJECT_NAME_NOT_FOUND, x, [])
                 else vm_execute_mapped env (ctx_addr c) (DAT (ctx_loader c)) fn
                   (in_addr + 4 * csize TYPE('w)) (of_nat (length in_bytes) div csize TYPE('w) - 4)
                   out_addr (of_nat out_size div csize TYPE('w)) x })"

section \<open>Destroying a machine\<close>

definition vm_destroy ::
  "('w::len, 'w word, 'cb, 'p, 'x) vm_env \<Rightarrow> ('w, 'f, 'g, 'a) vm_context option \<Rightarrow> 'x \<Rightarrow>
   (ntstatus \<times> 'x \<times> ('w, 'w word, 'cb) vm_trace) option"
where
  "vm_destroy env ctx x =
    (case ctx of
       None \<Rightarrow> Some (STATUS_SUCCESS, x, [])
     | Some c \<Rightarrow> do {
         let v = ctx_addr c;
         fn \<leftarrow> get_public (ctx_loader c) (cstr ''unload'');
         (x1, tr1) \<leftarrow>
           (if fn \<noteq> 0
            then do { (_, x1, e) \<leftarrow> call_between env v fn [] x; Some (x1, [LockVm v] @ e @ [UnlockVm v]) }
            else Some (x, []));
         (x2, e2) \<leftarrow> notify_destroyed env v x1;
         Some (STATUS_SUCCESS, x2, tr1 @ [LockVm v] @ e2 @ [UnlockVm v] @ vm_destroy_internal c) })"

section \<open>Memory and mappings of a trace\<close>

text \<open>
  \<open>run_pool evs live\<close>: the pool blocks after \<open>evs\<close>, the newest first; \<open>None\<close> when a block is
  freed that is not allocated, or a machine is used whose context is not.
\<close>

fun run_pool :: "('c, 'cb, 'c) vm_ev list \<Rightarrow> 'c list \<Rightarrow> 'c list option" where
  "run_pool [] live = Some live"
| "run_pool (PoolAlloc p # evs) live = run_pool evs (p # live)"
| "run_pool (PoolFree p # evs) live = (if p \<in> set live then run_pool evs (remove1 p live) else None)"
| "run_pool (LockVm v # evs) live = (if v \<in> set live then run_pool evs live else None)"
| "run_pool (UnlockVm v # evs) live = (if v \<in> set live then run_pool evs live else None)"
| "run_pool (Notify k v e # evs) live = (if v \<in> set live then run_pool evs live else None)"
| "run_pool (RunAmx v c args # evs) live = (if v \<in> set live then run_pool evs live else None)"
| "run_pool (MapData v c n # evs) live = (if v \<in> set live then run_pool evs live else None)"
| "run_pool (UnmapData v c n # evs) live = (if v \<in> set live then run_pool evs live else None)"
| "run_pool (DestroyLoader v # evs) live = (if v \<in> set live then run_pool evs live else None)"

text \<open>The mappings in a machine, taken out in the reverse order.\<close>

fun run_maps :: "('v, 'cb, 'c) vm_ev list \<Rightarrow> ('v \<times> 'c \<times> 'c) list \<Rightarrow> ('v \<times> 'c \<times> 'c) list option" where
  "run_maps [] ms = Some ms"
| "run_maps (MapData v c n # evs) ms = run_maps evs ((v, c, n) # ms)"
| "run_maps (UnmapData v c n # evs) ms =
     (case ms of m # ms' \<Rightarrow> if m = (v, c, n) then run_maps evs ms' else None | [] \<Rightarrow> None)"
| "run_maps (_ # evs) ms = run_maps evs ms"

interpretation pool: trace_runner run_pool
proof
  show "run_pool (e # es) live = Option.bind (run_pool [e] live) (run_pool es)" for e es live
    by (cases e) simp_all
qed simp

interpretation maps: trace_runner run_maps
proof
  show "run_maps (e # es) ms = Option.bind (run_maps [e] ms) (run_maps es)" for e es ms
    by (cases e) (simp_all split: list.splits)
qed simp

text \<open>The blocks a machine owns.\<close>

definition vm_blocks :: "('w::len, 'f, 'g, 'a) vm_context \<Rightarrow> 'w word list" where
  "vm_blocks c = loader_frees (ctx_loader c) @ [ctx_addr c, original_buf c]"

lemma loader_frees_cases:
  obtains "loader_frees l = []" | b where "loader_frees l = [b]"
  by (cases "alloc_block l") (auto simp: loader_frees_def)

lemma destroy_internal_pool: "run_pool (vm_destroy_internal c) (vm_blocks c) = Some []"
  by (rule loader_frees_cases [of "ctx_loader c"]) (auto simp: vm_destroy_internal_def vm_blocks_def)

lemma destroy_internal_mutex: "run_mutex (vm_destroy_internal c) [] = Some []"
  by (rule loader_frees_cases [of "ctx_loader c"]) (auto simp: vm_destroy_internal_def)

lemma destroy_internal_phase: "run_phase (vm_destroy_internal c) Outside = Some Outside"
  by (rule loader_frees_cases [of "ctx_loader c"]) (auto simp: vm_destroy_internal_def)

text \<open>A trace is in order: mutexes, brackets and pool, from the blocks \<open>a\<close> to the blocks \<open>b\<close>.\<close>

definition in_order :: "('c, 'cb, 'c) vm_ev list \<Rightarrow> 'c list \<Rightarrow> 'c list \<Rightarrow> bool" where
  "in_order evs a b \<longleftrightarrow> run_mutex evs [] = Some [] \<and> bracketed evs \<and> run_pool evs a = Some b"

lemma in_order_append: "in_order t a b \<Longrightarrow> in_order t' b d \<Longrightarrow> in_order (t @ t') a d"
  by (simp add: in_order_def bracketed_def mutex.run_append phase.run_append pool.run_append)

lemma loader_allocs_in_order: "in_order (loader_allocs l) live (loader_frees l @ live)"
  by (cases "alloc_block l") (auto simp: in_order_def bracketed_def loader_allocs_def loader_frees_def)

lemma in_order_Nil: "in_order [] a a"
  by (simp add: in_order_def bracketed_def)

lemma in_order_destroy: "in_order (vm_destroy_internal c) (vm_blocks c) []"
  by (simp add: in_order_def bracketed_def destroy_internal_pool destroy_internal_mutex destroy_internal_phase)

lemma ctx_in_blocks: "ctx_addr c \<in> set (vm_blocks c)"
  by (simp add: vm_blocks_def)

lemma in_order_notify:
  assumes "v \<in> set live" and "k = Created \<or> k = Destroyed"
  shows "in_order [LockVm v, Notify k v e, UnlockVm v] live live"
  using assms by (auto simp: in_order_def bracketed_def)

text \<open>A call: the \<open>precall\<close> refuses it, or it runs between the notifications.\<close>

lemma call_between_runs:
  assumes "env_ok env"
  obtains (refused) st x' e where "call_between env v fn args x = Some (st, x', [Notify Precall v e])"
      "\<not> NT_SUCCESS st"
    | (ran) st x' e e' where "call_between env v fn args x =
        Some (st, x', [Notify Precall v e, RunAmx v fn args, Notify Postcall v e'])"
proof -
  obtain st x1 e where pre: "notify_precall env v fn x = Some (st, x1, [Notify Precall v e])"
    using notify_precall_runs [OF assms] by blast
  show thesis
  proof (cases "NT_SUCCESS st")
    case False
    then show ?thesis using pre by (intro refused [of st x1 e]) (simp_all add: call_between_def)
  next
    case True
    obtain res ret x2 where run: "amx_call env v fn args x1 = (res, ret, x2)" by (metis prod_cases3)
    obtain x3 e' where post: "notify_postcall env v x2 = Some (x3, [Notify Postcall v e'])"
      using notify_postcall_runs [OF assms] by blast
    show ?thesis
      using True pre run post by (intro ran) (simp add: call_between_def)
  qed
qed

lemma call_between_in_order:
  assumes "env_ok env" and "v \<in> set live"
  obtains st x' tr where "call_between env v fn args x = Some (st, x', tr)"
    and "in_order ([LockVm v] @ tr @ [UnlockVm v]) live live"
proof (cases rule: call_between_runs [OF assms(1), of v fn args x])
  case (1 st x' e)
  then show ?thesis using assms(2) by (intro that) (auto simp: in_order_def bracketed_def)
next
  case (2 st x' e e')
  then show ?thesis using assms(2) by (intro that) (auto simp: in_order_def bracketed_def)
qed

lemma run_main_in_order:
  assumes "env_ok env" and "v \<in> set live"
  obtains st x' evs where "run_main env v main status x = Some (st, x', evs)" and "in_order evs live live"
proof (cases "NT_SUCCESS status \<and> main \<noteq> 0")
  case True
  obtain st x' e where "call_between env v main [] x = Some (st, x', e)"
    "in_order ([LockVm v] @ e @ [UnlockVm v]) live live"
    using call_between_in_order [OF assms] by blast
  then show ?thesis using True by (intro that) (simp_all add: run_main_def)
next
  case False
  then have "run_main env v main status x = Some (status, x, [])" by (auto simp: run_main_def)
  then show ?thesis using that in_order_Nil by blast
qed

section \<open>Loading keeps order and leaks nothing\<close>

lemma load_internal_cases:
  fixes le :: "('w::len, 'f, 'a) load_env"
  assumes "\<And>ctx. (load_module le base buffer ctx :: (loader_error \<times> ('w, 'f, 'g, 'w word, 'a) loader) option) \<noteq> None"
  obtains (failed) st tr where
      "(vm_load_binary_internal le base buffer :: (_ \<times> ('w, 'f, 'g, 'a) vm_context option \<times> ('w word, 'cb, 'w word) vm_ev list) option) =
        Some (st, None, tr)" "\<not> NT_SUCCESS st" "in_order tr [] []"
    | (loaded) c tr where
      "(vm_load_binary_internal le base buffer :: (_ \<times> ('w, 'f, 'g, 'a) vm_context option \<times> ('w word, 'cb, 'w word) vm_ev list) option) =
        Some (STATUS_SUCCESS, Some c, tr)" "in_order tr [] (vm_blocks c)"
proof (cases "length buffer < 4 \<or> unat (file_sig_len buffer) > length buffer - 4")
  case True
  then show ?thesis by (intro failed [of STATUS_INVALID_PARAMETER "[]"]) (auto simp: vm_load_binary_internal_def in_order_Nil)
next
  case False
  define st where "st = (if le_unrestricted le then STATUS_SUCCESS
    else fst (check_signature (le_bcrypt le) (le_keys le) (le_garbage le) (file_module buffer)
      (length (file_module buffer)) (file_sig buffer)))"
  note d = vm_load_binary_internal_def Let_def st_def [symmetric]
  show ?thesis
  proof (cases "NT_SUCCESS st")
    case bad: False
    show ?thesis using False bad by (intro failed [of st "[]"]) (simp_all add: d in_order_Nil)
  next
    case good: True
    show ?thesis
    proof (cases "le_copy le")
      case None
      then show ?thesis using False good by (intro failed [of STATUS_NO_MEMORY "[]"]) (simp_all add: d in_order_Nil)
    next
      case copy: (Some copy)
      show ?thesis
      proof (cases "le_ctx le")
        case None
        then show ?thesis using False good copy
          by (intro failed [of STATUS_NO_MEMORY "[PoolAlloc copy, PoolFree copy]"])
            (simp_all add: d in_order_def bracketed_def)
      next
        case ctx: (Some ctx)
        obtain result and l :: "('w, 'f, 'g, 'w word, 'a) loader"
          where l: "load_module le base buffer ctx = Some (result, l)"
          using assms [of ctx] by fastforce
        define c where "c = \<lparr>ctx_addr = ctx, ctx_loader = l, original_buf = copy, original_bytes = buffer\<rparr>"
        have alloc: "in_order ([PoolAlloc copy, PoolAlloc ctx] @ loader_allocs l) [] (vm_blocks c)"
          using in_order_append [OF _ loader_allocs_in_order [of l], of "[PoolAlloc copy, PoolAlloc ctx]" "[]"]
          by (simp add: in_order_def bracketed_def vm_blocks_def c_def)
        show ?thesis
        proof (cases "result = LE_success")
          case True
          then show ?thesis using False good copy ctx l alloc
            by (intro loaded [of c]) (simp_all add: d c_def)
        next
          case fail: False
          then show ?thesis using False good copy ctx l in_order_append [OF alloc in_order_destroy]
            by (intro failed [of STATUS_UNSUCCESSFUL]) (simp_all add: d c_def)
        qed
      qed
    qed
  qed
qed

lemma vm_load_steps:
  fixes le :: "('w::len, 'f, 'a) load_env" and env :: "('w, 'w word, 'cb, 'p, 'x) vm_env"
  assumes "env_ok env"
    and "\<forall>ctx. (load_module le base buffer ctx :: (loader_error \<times> ('w, 'f, 'g, 'w word, 'a) loader) option) \<noteq> None"
  shows "\<exists>st ctx x' evs.
    vm_load_binary le env base buffer x = Some (st, ctx :: ('w, 'f, 'g, 'a) vm_context option, x', evs)
    \<and> (NT_SUCCESS st \<longleftrightarrow> ctx \<noteq> None)
    \<and> in_order evs [] (case ctx of None \<Rightarrow> [] | Some c \<Rightarrow> vm_blocks c)"
proof (rule load_internal_cases [where le = le and base = base and buffer = buffer])
  show "load_module le base buffer ctx \<noteq> (None :: (loader_error \<times> ('w, 'f, 'g, 'w word, 'a) loader) option)" for ctx
    using assms(2) by blast
next
  fix st and evs :: "('w, 'w word, 'cb) vm_trace"
  assume "vm_load_binary_internal le base buffer = Some (st, None :: ('w, 'f, 'g, 'a) vm_context option, evs)"
    "\<not> NT_SUCCESS st" "in_order evs [] []"
  then show ?thesis by (simp add: vm_load_binary_def)
next
  fix c :: "('w, 'f, 'g, 'a) vm_context" and evs :: "('w, 'w word, 'cb) vm_trace"
  assume i: "vm_load_binary_internal le base buffer = Some (STATUS_SUCCESS, Some c, evs)"
    "in_order evs [] (vm_blocks c)"
  let ?v = "ctx_addr c"
  obtain st1 x1 e1 where created: "notify_created env ?v x = Some (st1, x1, [Notify Created ?v e1])"
    using notify_created_runs [OF assms(1)] by blast
  have o1: "in_order (evs @ [LockVm ?v, Notify Created ?v e1, UnlockVm ?v]) [] (vm_blocks c)"
    by (rule in_order_append [OF i(2) in_order_notify]) (simp_all add: ctx_in_blocks)
  obtain st2 x2 evs2 where main: "run_main env ?v (get_main (ctx_loader c)) st1 x1 = Some (st2, x2, evs2)"
    "in_order evs2 (vm_blocks c) (vm_blocks c)"
    using run_main_in_order [OF assms(1) ctx_in_blocks] by blast
  obtain x3 e3 where destroyed: "notify_destroyed env ?v x2 = Some (x3, [Notify Destroyed ?v e3])"
    using notify_destroyed_runs [OF assms(1)] by blast
  have "in_order [LockVm ?v, Notify Destroyed ?v e3, UnlockVm ?v] (vm_blocks c) (vm_blocks c)"
    by (intro in_order_notify) (simp_all add: ctx_in_blocks)
  from in_order_append [OF this in_order_destroy]
  have o3: "in_order ([LockVm ?v, Notify Destroyed ?v e3, UnlockVm ?v] @ vm_destroy_internal c) (vm_blocks c) []" .
  note o2 = in_order_append [OF o1 main(2)]
  show ?thesis
  proof (cases "NT_SUCCESS st2")
    case True
    then show ?thesis using i(1) created main(1) o2 by (simp add: vm_load_binary_def Let_def)
  next
    case False
    then show ?thesis using i(1) created main(1) destroyed in_order_append [OF o2 o3]
      by (simp add: vm_load_binary_def Let_def)
  qed
qed

text \<open>
  loading always returns, whatever the file, the notifications and the module do, when the
  loader does.  It gives a machine exactly when the status is a success; the mutex is free,
  every call of the module was announced and reported, and the pool blocks left are those of
  the machine: none after a failure.
\<close>

theorem vm_load_in_order:
  fixes le :: "('w::len, 'f, 'a) load_env" and env :: "('w, 'w word, 'cb, 'p, 'x) vm_env"
  assumes "env_ok env"
    and "\<forall>ctx. (load_module le base buffer ctx :: (loader_error \<times> ('w, 'f, 'g, 'w word, 'a) loader) option) \<noteq> None"
  shows "\<exists>st ctx x' evs.
    vm_load_binary le env base buffer x = Some (st, ctx :: ('w, 'f, 'g, 'a) vm_context option, x', evs)
    \<and> (NT_SUCCESS st \<longleftrightarrow> ctx \<noteq> None)
    \<and> run_mutex evs [] = Some [] \<and> bracketed evs
    \<and> run_pool evs [] = Some (case ctx of None \<Rightarrow> [] | Some c \<Rightarrow> vm_blocks c)"
  using vm_load_steps [OF assms] unfolding in_order_def by blast

lemma vm_load_some_ctx:
  fixes env :: "('w::len, 'w word, 'cb, 'p, 'x) vm_env"
  assumes "vm_load_binary le env base buffer x = Some (st, Some c, x', evs)"
  shows "\<exists>st0 (evs0 :: ('w, 'w word, 'cb) vm_trace).
    vm_load_binary_internal le base buffer = Some (st0, Some c, evs0) \<and> NT_SUCCESS st0"
  using assms by (auto simp: vm_load_binary_def Let_def split: bind_splits if_splits)

lemma vm_load_signed:
  fixes le :: "('w::len, 'f, 'a) load_env" and env :: "('w, 'w word, 'cb, 'p, 'x) vm_env"
  assumes "vm_load_binary le env base buffer x = Some (st, Some c, x', evs)"
    and "\<not> le_unrestricted le" and "le_keys le \<noteq> []" and "length buffer < 2 ^ 32"
    and "NT_SUCCESS (fst (object_length (le_bcrypt le))) \<longrightarrow> snd (snd (object_length (le_bcrypt le))) = 4"
  shows "buffer = take 4 buffer @ file_sig buffer @ file_module buffer
    \<and> load_module le base buffer (ctx_addr c) = Some (LE_success, ctx_loader c)
    \<and> original_bytes c = buffer
    \<and> (\<exists>sha256. digests (le_bcrypt le) (file_module buffer) sha256
        \<and> (\<exists>key \<in> set (le_keys le). verifies (le_bcrypt le) sha256 (file_sig buffer) key))"
proof -
  obtain st0 and evs0 :: "('w, 'w word, 'cb) vm_trace"
    where i: "vm_load_binary_internal le base buffer = Some (st0, Some c, evs0)" "NT_SUCCESS st0"
    using vm_load_some_ctx [OF assms(1)] by blast
  let ?st = "fst (check_signature (le_bcrypt le) (le_keys le) (le_garbage le) (file_module buffer)
      (length (file_module buffer)) (file_sig buffer))"
  have len: "\<not> length buffer < 4" "\<not> unat (file_sig_len buffer) > length buffer - 4"
    and sig: "NT_SUCCESS ?st"
    and load: "load_module le base buffer (ctx_addr c) = Some (LE_success, ctx_loader c)" "original_bytes c = buffer"
    using i assms(2)
    by (auto simp: vm_load_binary_internal_def Let_def split: if_splits option.splits bind_splits)
  have "length (file_module buffer) < 2 ^ 32" using assms(4) by (simp add: file_module_def)
  from check_signature_success [OF assms(5,3) this]
  have "\<exists>sha256. digests (le_bcrypt le) (file_module buffer) sha256
      \<and> (\<exists>key \<in> set (le_keys le). verifies (le_bcrypt le) sha256 (file_sig buffer) key)"
    using sig by blast
  moreover have "buffer = take 4 buffer @ file_sig buffer @ file_module buffer"
    by (simp add: file_sig_def file_module_def add.commute flip: drop_drop)
  ultimately show ?thesis using load by blast
qed

text \<open>
  C1: a machine exists only for a module that a trusted key signed: what the loader was
  initialised with is the file without its signature, and a trusted key verifies that
  signature over the digest of exactly these bytes.
\<close>

theorem vm_load_trusted:
  fixes le :: "('w::len, 'f, 'a) load_env" and env :: "('w, 'w word, 'cb, 'p, 'x) vm_env"
  assumes "vm_load_binary le env base buffer x = Some (st, Some c, x', evs)"
    and "\<not> le_unrestricted le" and "le_keys le \<noteq> []" and "length buffer < 2 ^ 32"
    and "NT_SUCCESS (fst (object_length (le_bcrypt le))) \<longrightarrow> snd (snd (object_length (le_bcrypt le))) = 4"
  shows "buffer = take 4 buffer @ file_sig buffer @ file_module buffer
    \<and> load_module le base buffer (ctx_addr c) = Some (LE_success, ctx_loader c)
    \<and> original_bytes c = buffer
    \<and> (\<exists>sha256. digests (le_bcrypt le) (file_module buffer) sha256
        \<and> (\<exists>key \<in> set (le_keys le). verifies (le_bcrypt le) sha256 (file_sig buffer) key))"
  by (rule vm_load_signed [OF assms])

end
