(* ===== verification/Vm_Run.thy ===== *)
theory Vm_Run
  imports Vm
begin

text \<open>
  A loaded machine at work: what \<open>vm_execute_function\<close> and \<open>vm_destroy\<close> of
  \<open>Vm\<close> guarantee for every request, and the whole life of a machine.
\<close>

section \<open>Requests\<close>

text \<open>Lookups in the loader always end, as they do in every module \<open>init\<close> accepts.\<close>

definition lookups_end :: "('w::len, 'f, 'g, 'u, 'a) loader \<Rightarrow> bool" where
  "lookups_end l \<longleftrightarrow> (\<forall>v. get_public l v \<noteq> None)"

lemma represents_lookups_end: "represents buf i l \<Longrightarrow> lookups_end l"
  by (simp add: represents_def lookups_end_def)

lemma vm_execute_mapped_in_order:
  fixes env :: "('w::len, 'w word, 'cb, 'p, 'x) vm_env"
  assumes "env_ok env" and "v \<in> set live"
  shows "\<exists>st x' evs. vm_execute_mapped env v dat fn ib ic ob oc x = Some (st, x', evs)
    \<and> in_order evs live live \<and> run_maps evs [] = Some []
    \<and> (\<forall>u cip args. RunAmx u cip args \<in> set evs \<longrightarrow> u = v \<and> cip = fn)"
proof (cases "amx_map env v ib ic x")
  case None
  then show ?thesis using assms(2) by (auto simp: vm_execute_mapped_def in_order_def bracketed_def)
next
  case in_map: (Some m)
  obtain in_va x1 where m: "m = (in_va, x1)" by (cases m)
  show ?thesis
  proof (cases "amx_map env v ob oc x1")
    case None
    then show ?thesis using assms(2) in_map m by (auto simp: vm_execute_mapped_def in_order_def bracketed_def)
  next
    case out_map: (Some n)
    obtain out_va x2 where n: "n = (out_va, x2)" by (cases n)
    show ?thesis
    proof (cases rule: call_between_runs [OF assms(1), of v fn "[in_va - dat, ic, out_va - dat, oc]" x2])
      case (1 st x' e)
      then show ?thesis using assms(2) in_map m out_map n
        by (auto simp: vm_execute_mapped_def in_order_def bracketed_def)
    next
      case (2 st x' e e')
      then show ?thesis using assms(2) in_map m out_map n
        by (auto simp: vm_execute_mapped_def in_order_def bracketed_def)
    qed
  qed
qed

lemma vm_execute_cases:
  fixes env :: "('w::len, 'w word, 'cb, 'p, 'x) vm_env"
  assumes "env_ok env" and "lookups_end (ctx_loader c)"
  shows "\<exists>st x' evs. vm_execute_function env (Some c) in_addr in_bytes out_addr out_size x = Some (st, x', evs)
    \<and> in_order evs (vm_blocks c) (vm_blocks c) \<and> run_maps evs [] = Some []
    \<and> (\<forall>v fn args. RunAmx v fn args \<in> set evs \<longrightarrow>
        v = ctx_addr c \<and> fn \<noteq> 0 \<and> get_public (ctx_loader c) (request_name in_bytes) = Some fn
        \<and> take 6 (request_name in_bytes) = cstr ''ioctl_'' \<and> length (request_name in_bytes) < 32)"
proof (cases "length in_bytes < 32 \<or> length (request_name in_bytes) = 32
    \<or> take 6 (request_name in_bytes) \<noteq> cstr ''ioctl_''")
  case True
  then show ?thesis by (auto simp: vm_execute_function_def in_order_Nil Let_def)
next
  case False
  have "length (request_name in_bytes) \<le> 32"
    unfolding request_name_def by (rule order.trans [OF length_takeWhile_le]) simp
  then have name: "length (request_name in_bytes) < 32" using False by simp
  obtain fn where fn: "get_public (ctx_loader c) (request_name in_bytes) = Some fn"
    using assms(2) unfolding lookups_end_def by (metis option.exhaust)
  show ?thesis
  proof (cases "fn = 0")
    case True
    then show ?thesis using False fn by (auto simp: vm_execute_function_def in_order_Nil Let_def)
  next
    case nz: False
    have e: "vm_execute_function env (Some c) in_addr in_bytes out_addr out_size x =
        vm_execute_mapped env (ctx_addr c) (DAT (ctx_loader c)) fn
          (in_addr + 4 * csize TYPE('w)) (of_nat (length in_bytes) div csize TYPE('w) - 4)
          out_addr (of_nat out_size div csize TYPE('w)) x"
      using False fn nz by (simp add: vm_execute_function_def Let_def)
    show ?thesis
      unfolding e
      using vm_execute_mapped_in_order [OF assms(1) ctx_in_blocks, of c "DAT (ctx_loader c)" fn
          "in_addr + 4 * csize TYPE('w)" "of_nat (length in_bytes) div csize TYPE('w) - 4" out_addr
          "of_nat out_size div csize TYPE('w)" x] False fn nz name
      by fastforce
  qed
qed

lemma vm_execute_steps:
  fixes env :: "('w::len, 'w word, 'cb, 'p, 'x) vm_env"
  assumes "env_ok env" and "lookups_end (ctx_loader c)"
  obtains st x' evs where
    "vm_execute_function env (Some c) in_addr in_bytes out_addr out_size x = Some (st, x', evs)"
    and "in_order evs (vm_blocks c) (vm_blocks c)"
  using vm_execute_cases [OF assms] by blast


text \<open>
  the result of a request that is mapped and not refused is the cell the function returns,
  cut to a status; a failure of the machine is reported as such.  The function gets the
  addresses of both buffers relative to its data and their counts.
\<close>

theorem vm_execute_result:
  fixes env :: "('w::len, 'w word, 'cb, 'p, 'x) vm_env"
  assumes "env_ok env"
    and "32 \<le> length in_bytes" and "length (request_name in_bytes) < 32"
    and "take 6 (request_name in_bytes) = cstr ''ioctl_''"
    and "get_public (ctx_loader c) (request_name in_bytes) = Some fn" and "fn \<noteq> 0"
    and "amx_map env (ctx_addr c) (in_addr + 4 * csize TYPE('w)) in_count x = Some (in_va, x1)"
    and "amx_map env (ctx_addr c) out_addr out_count x1 = Some (out_va, x2)"
    and "notify_precall env (ctx_addr c) fn x2 = Some (st, x3, e)" and "NT_SUCCESS st"
    and "amx_call env (ctx_addr c) fn
      [in_va - DAT (ctx_loader c), in_count, out_va - DAT (ctx_loader c), out_count] x3 = (res, ret, x4)"
    and "in_count = of_nat (length in_bytes) div csize TYPE('w) - 4"
    and "out_count = of_nat out_size div csize TYPE('w)"
  shows "\<exists>x' evs. vm_execute_function env (Some c) in_addr in_bytes out_addr out_size x =
    Some (if res = AE_success then ucast ret else STATUS_UNSUCCESSFUL, x', evs)"
proof -
  obtain x5 e5 where post: "notify_postcall env (ctx_addr c) x4 = Some (x5, [Notify Postcall (ctx_addr c) e5])"
    using notify_postcall_runs [OF assms(1)] by blast
  have call: "call_between env (ctx_addr c) fn
      [in_va - DAT (ctx_loader c), in_count, out_va - DAT (ctx_loader c), out_count] x2 =
    Some (if res = AE_success then ucast ret else STATUS_UNSUCCESSFUL, x5,
      e @ [RunAmx (ctx_addr c) fn [in_va - DAT (ctx_loader c), in_count, out_va - DAT (ctx_loader c), out_count]]
        @ [Notify Postcall (ctx_addr c) e5])"
    using assms(9-11) post by (simp add: call_between_def)
  show ?thesis
    using assms(2-8) call
    by (simp add: vm_execute_function_def vm_execute_mapped_def Let_def flip: assms(12,13))
qed

text \<open>
  the name takes 32 bytes, but the cells mapped as input start after four cells.  On a
  64-bit build this is the end of the name; on x86 it is the middle of it, so that what the
  function gets as its first four cells is the second half of its name field.
\<close>

theorem vm_execute_input_offset:
  fixes env :: "('w::len, 'w word, 'cb, 'p, 'x) vm_env"
  assumes "machine_word TYPE('w)"
    and "32 \<le> length in_bytes" and "length (request_name in_bytes) < 32"
    and "take 6 (request_name in_bytes) = cstr ''ioctl_''"
    and "get_public (ctx_loader c) (request_name in_bytes) = Some fn" and "fn \<noteq> 0"
  shows "vm_execute_function env (Some c) in_addr in_bytes out_addr out_size x =
    (if LENGTH('w) = 64
     then vm_execute_mapped env (ctx_addr c) (DAT (ctx_loader c)) fn (in_addr + 32)
       (of_nat (length in_bytes) div 8 - 4) out_addr (of_nat out_size div 8) x
     else vm_execute_mapped env (ctx_addr c) (DAT (ctx_loader c)) fn (in_addr + 16)
       (of_nat (length in_bytes) div 4 - 4) out_addr (of_nat out_size div 4) x)"
  using assms(1)
proof (cases rule: machine_word_cases)
  case w32
  then show ?thesis using assms(2-) by (simp add: vm_execute_function_def Let_def csize_def)
next
  case w64
  then show ?thesis using assms(2-) by (simp add: vm_execute_function_def Let_def csize_def)
qed

section \<open>The end of a machine\<close>

lemma vm_destroy_cases:
  fixes env :: "('w::len, 'w word, 'cb, 'p, 'x) vm_env"
  assumes "env_ok env" and "lookups_end (ctx_loader c)"
  shows "\<exists>x' evs. vm_destroy env (Some c) x = Some (STATUS_SUCCESS, x', evs)
    \<and> in_order evs (vm_blocks c) []
    \<and> length (filter (\<lambda>e. \<exists>d. e = Notify Destroyed (ctx_addr c) d) evs) = 1"
proof -
  let ?v = "ctx_addr c"
  let ?told = "\<lambda>e. \<exists>d. e = Notify Destroyed ?v d"
  obtain fn where fn: "get_public (ctx_loader c) (cstr ''unload'') = Some fn"
    using assms(2) unfolding lookups_end_def by (metis option.exhaust)
  obtain x1 tr1 where unload:
    "(if fn \<noteq> 0 then Option.bind (call_between env ?v fn [] x) (\<lambda>(_, x1, e). Some (x1, [LockVm ?v] @ e @ [UnlockVm ?v]))
      else Some (x, [])) = Some (x1, tr1)"
    "in_order tr1 (vm_blocks c) (vm_blocks c)" "filter ?told tr1 = []"
  proof (cases "fn = 0")
    case True
    then show ?thesis by (intro that [of x "[]"]) (simp_all add: in_order_Nil)
  next
    case False
    show ?thesis
    proof (cases rule: call_between_runs [OF assms(1), of ?v fn "[]" x])
      case (1 st x' e)
      then show ?thesis using False ctx_in_blocks [of c]
        by (intro that) (auto simp: in_order_def bracketed_def)
    next
      case (2 st x' e e')
      then show ?thesis using False ctx_in_blocks [of c]
        by (intro that) (auto simp: in_order_def bracketed_def)
    qed
  qed
  obtain x2 e2 where gone: "notify_destroyed env ?v x1 = Some (x2, [Notify Destroyed ?v e2])"
    using notify_destroyed_runs [OF assms(1)] by blast
  let ?evs = "tr1 @ [LockVm ?v, Notify Destroyed ?v e2, UnlockVm ?v] @ vm_destroy_internal c"
  have "in_order [LockVm ?v, Notify Destroyed ?v e2, UnlockVm ?v] (vm_blocks c) (vm_blocks c)"
    by (intro in_order_notify) (simp_all add: ctx_in_blocks)
  from in_order_append [OF unload(2) in_order_append [OF this in_order_destroy]]
  have o: "in_order ?evs (vm_blocks c) []" .
  have "filter ?told (vm_destroy_internal c) = []"
    by (auto simp: vm_destroy_internal_def filter_empty_conv)
  then have "length (filter ?told ?evs) = 1" using unload(3) by simp
  moreover have "vm_destroy env (Some c) x = Some (STATUS_SUCCESS, x2, ?evs)"
    using fn unload(1) gone by (auto simp: vm_destroy_def Let_def)
  ultimately show ?thesis using o by blast
qed

lemma vm_destroy_steps:
  fixes env :: "('w::len, 'w word, 'cb, 'p, 'x) vm_env"
  assumes "env_ok env" and "lookups_end (ctx_loader c)"
  obtains x' evs where "vm_destroy env (Some c) x = Some (STATUS_SUCCESS, x', evs)"
    and "in_order evs (vm_blocks c) []"
  using vm_destroy_cases [OF assms] by blast

text \<open>
  destroying a machine always succeeds, whether or not the notifications let \<open>unload\<close> run:
  the lists are told once that the machine is gone, the mutex is free and every pool block of
  the machine is given back.
\<close>

theorem vm_destroy_in_order:
  fixes env :: "('w::len, 'w word, 'cb, 'p, 'x) vm_env"
  assumes "env_ok env" and "lookups_end (ctx_loader c)"
  shows "\<exists>x' evs. vm_destroy env (Some c) x = Some (STATUS_SUCCESS, x', evs)
    \<and> run_mutex evs [] = Some [] \<and> bracketed evs \<and> run_pool evs (vm_blocks c) = Some []
    \<and> length (filter (\<lambda>e. \<exists>d. e = Notify Destroyed (ctx_addr c) d) evs) = 1"
  using vm_destroy_cases [OF assms] unfolding in_order_def by blast

text \<open>
  destroying a machine leaves its callback slots as they are.  A trampoline of the machine
  that the system calls afterwards locks a mutex in freed memory.
\<close>

theorem vm_destroy_dangling_slot:
  fixes env :: "('w::len, 'w word, 'cb, 'p, 'x) vm_env"
  assumes "env_ok env" and "lookups_end (ctx_loader c)"
    and "vm_destroy env (Some c) x = Some (st, x', evs)"
    and "slot_ctx (t ! i) = Some (ctx_addr c)"
    and "to_amx_callback_dispatch env t t' i args x' = Some (r, x'', evs')"
  shows "run_pool evs (vm_blocks c) = Some [] \<and> run_pool (evs @ evs') (vm_blocks c) = None"
proof -
  have freed: "run_pool evs (vm_blocks c) = Some []"
    using vm_destroy_steps [OF assms(1,2), of x] assms(3) by (auto simp: in_order_def)
  obtain rest where "evs' = LockVm (ctx_addr c) # rest"
    using assms(4,5) by (auto simp: to_amx_callback_dispatch_def Let_def split: if_splits bind_splits prod.splits)
  then show ?thesis using freed by (simp add: pool.run_through)
qed

section \<open>The whole life of a machine\<close>

text \<open>
  The requests of a machine: address and bytes of the input, address and size of the output.
  \<open>serve\<close> runs them in order.
\<close>

record (overloaded) ('w) request =
  req_in :: "'w::len word"
  req_bytes :: "byte list"
  req_out :: "'w word"
  req_out_size :: nat

fun serve ::
  "('w::len, 'w word, 'cb, 'p, 'x) vm_env \<Rightarrow> ('w, 'f, 'g, 'a) vm_context \<Rightarrow> 'w request list \<Rightarrow> 'x \<Rightarrow>
   (ntstatus list \<times> 'x \<times> ('w, 'w word, 'cb) vm_trace) option"
where
  "serve env c [] x = Some ([], x, [])"
| "serve env c (r # rs) x = do {
     (st, x1, e1) \<leftarrow> vm_execute_function env (Some c) (req_in r) (req_bytes r) (req_out r) (req_out_size r) x;
     (sts, x2, e2) \<leftarrow> serve env c rs x1;
     Some (st # sts, x2, e1 @ e2) }"

lemma serve_in_order:
  assumes "env_ok env" and "lookups_end (ctx_loader c)"
  obtains sts x' evs where "serve env c rs x = Some (sts, x', evs)" and "length sts = length rs"
    and "in_order evs (vm_blocks c) (vm_blocks c)"
proof -
  have "\<exists>sts x' evs. serve env c rs x = Some (sts, x', evs) \<and> length sts = length rs
      \<and> in_order evs (vm_blocks c) (vm_blocks c)"
  proof (induction rs arbitrary: x)
    case Nil
    then show ?case by (simp add: in_order_Nil)
  next
    case (Cons r rs)
    obtain st x1 e1 where r: "vm_execute_function env (Some c) (req_in r) (req_bytes r) (req_out r) (req_out_size r) x
        = Some (st, x1, e1)" "in_order e1 (vm_blocks c) (vm_blocks c)"
      using vm_execute_steps [OF assms] by blast
    obtain sts x2 e2 where "serve env c rs x1 = Some (sts, x2, e2)" "length sts = length rs"
      "in_order e2 (vm_blocks c) (vm_blocks c)"
      using Cons.IH [of x1] by blast
    then show ?case using r in_order_append by auto
  qed
  then show ?thesis using that by blast
qed

text \<open>
  from the load of a module to the destruction of its machine, whatever requests it serves
  in between, the mutex is never taken twice or left locked, every call of the module is
  announced and reported, and at the end no pool block is left.
\<close>

theorem vm_life_in_order:
  fixes env :: "('w::len, 'w word, 'cb, 'p, 'x) vm_env" and c :: "('w, 'f, 'g, 'a) vm_context"
  assumes "env_ok env"
    and "vm_load_binary le env base buffer x = Some (st, Some c, x1, e1)"
    and "\<forall>ctx. (load_module le base buffer ctx :: (loader_error \<times> ('w, 'f, 'g, 'w word, 'a) loader) option) \<noteq> None"
    and "lookups_end (ctx_loader c)"
  shows "\<exists>sts x2 e2 x3 e3. serve env c rs x1 = Some (sts, x2, e2) \<and> length sts = length rs
    \<and> vm_destroy env (Some c) x2 = Some (STATUS_SUCCESS, x3, e3)
    \<and> run_mutex (e1 @ e2 @ e3) [] = Some [] \<and> bracketed (e1 @ e2 @ e3)
    \<and> run_pool (e1 @ e2 @ e3) [] = Some []"
proof -
  obtain sts x2 e2 where s: "serve env c rs x1 = Some (sts, x2, e2)" "length sts = length rs"
    "in_order e2 (vm_blocks c) (vm_blocks c)"
    using serve_in_order [OF assms(1,4)] by blast
  obtain x3 e3 where d: "vm_destroy env (Some c) x2 = Some (STATUS_SUCCESS, x3, e3)" "in_order e3 (vm_blocks c) []"
    using vm_destroy_steps [OF assms(1,4)] by blast
  have "in_order e1 [] (vm_blocks c)" using vm_load_steps [OF assms(1,3), of x] assms(2) by auto
  from in_order_append [OF this in_order_append [OF s(3) d(2)]] show ?thesis
    using s d unfolding in_order_def by blast
qed

section \<open>Examples\<close>

definition vm_sample_env :: "(64, 64 word, nat, nat, nat) vm_env" where
  "vm_sample_env = \<lparr>amx_call = \<lambda>v cip args x. (AE_success, 5, x + 1),
     amx_map = \<lambda>v p n x. Some (0x100, x), amx_unmap = \<lambda>v p n x. x,
     cb_call = \<lambda>k v cip cb x. (STATUS_SUCCESS, x),
     cb_heads = \<lambda>_. 0, cb_heap = sample_heap\<rparr>"

lemma vm_sample_env_ok: "env_ok vm_sample_env"
  by (rule env_ok_rings) (use sample_ring(3) in \<open>auto simp: vm_sample_env_def\<close>)

text \<open>A file: the length of the signature, the signature, the module of \<open>Loader_Correct\<close>.\<close>

definition sample_file :: "byte list" where
  "sample_file = [1, 0, 0, 0] @ [104] @ sample_module 84"

definition sample_load :: "(64, nat, unit) load_env" where
  "sample_load =
    \<lparr>le_bcrypt = sample_bcrypt 4, le_keys = [sample_key], le_garbage = [0], le_ops = sample_ops,
     le_kernel = sample_kernel, le_natives = [([110], 7)], le_amx = (), le_copy = Some 0x20000,
     le_ctx = Some 0x30000, le_unrestricted = False\<rparr>"

lemma sample_file_parts:
  "file_sig_len sample_file = 1" "file_sig sample_file = [104]" "file_module sample_file = sample_module 84"
  by (simp_all add: file_sig_len_def file_sig_def file_module_def sample_file_def le_at_def)

lemma sample_load_module:
  "\<exists>l :: (64, nat, 'g, 64 word, unit) loader.
     load_module sample_load 16379 sample_file ctx = Some (LE_success, l) \<and> lookups_end l
     \<and> get_main l = 8 \<and> loader_frees l = [65536]"
proof -
  let ?cbs = "load_callbacks sample_load ctx :: (nat, 'g, 64 word) callbacks_arg"
  let ?l0 = "empty_loader () :: (64, nat, 'g, 64 word, unit) loader"
  have n: "natives ?cbs = natives sample_cbs"
    by (simp add: load_callbacks_def sample_load_def sample_cbs_def)
  have "\<exists>l. init sample_ops sample_kernel (sample_module 84) 16384 ?cbs ?l0
      = Some (LE_success, l) \<and> represents (sample_module 84) (sample_module_image 84 [7, 7]) l
    \<and> amx_state l = () \<and> COD l = 4096 \<and> DAT l = 8192 \<and> loader_frees l = [65536]"
    by (rule init_accepts [OF sample_module_object _ _ sample_module_fits(1) sample_module_fixup(1)],
        unfold n, rule parse_sample_module(1))
      (simp_all add: sample_module_size, simp_all add: sample_eval)
  then obtain l where l: "init sample_ops sample_kernel (sample_module 84) 16384 ?cbs ?l0 = Some (LE_success, l)"
    "represents (sample_module 84) (sample_module_image 84 [7, 7]) l" "loader_frees l = [65536]"
    by blast
  have "get_main l = 8"
    using l(2) by (simp add: represents_def main_of_def sample_eval)
  moreover have "load_module sample_load 16379 sample_file ctx = Some (LE_success, l)"
    using l(1) by (simp add: load_module_def sample_file_parts) (simp add: sample_load_def load_callbacks_def)
  ultimately show ?thesis using l represents_lookups_end by blast
qed

lemma sample_load_defined:
  "\<forall>ctx. (load_module sample_load 16379 sample_file ctx :: (loader_error \<times> (64, nat, 'g, 64 word, unit) loader) option) \<noteq> None"
  using sample_load_module by (metis option.distinct(1))

theorem vm_load_in_order_witness:
  "\<exists>st (ctx :: (64, nat, unit, unit) vm_context option) x' evs.
     vm_load_binary sample_load vm_sample_env 16379 sample_file 0 = Some (st, ctx, x', evs)
     \<and> (NT_SUCCESS st \<longleftrightarrow> ctx \<noteq> None) \<and> run_mutex evs [] = Some []"
  using vm_load_in_order [OF vm_sample_env_ok sample_load_defined, where x = 0] by blast

text \<open>The file is accepted: its signature is the sample digest of its module.\<close>

lemma sample_signature:
  "NT_SUCCESS (fst (check_signature (sample_bcrypt 4) [sample_key] [0] (sample_module 84) (length (sample_module 84)) [104]))"
  by (simp add: check_signature_def calculate_sha256_def verify_sig_def sample_bcrypt_def sample_key_magic
      length_sample_key, simp add: sample_module_def)

lemma sample_values: "klist_values 0 sample_heap = Some [10, 20]"
  using klist_values_ring [OF sample_ring(3)] by (simp add: values_of_def sample_heap_def)

lemma sample_notify:
  "\<exists>e. notify_created vm_sample_env v x = Some (STATUS_SUCCESS, x, e)"
  "\<exists>e. notify_precall vm_sample_env v cip x = Some (STATUS_SUCCESS, x, e)"
  "\<exists>e. notify_postcall vm_sample_env v x = Some (x, e)"
  "\<exists>e. notify_destroyed vm_sample_env v x = Some (x, e)"
  by (simp_all add: notify_created_def notify_precall_def notify_postcall_def notify_destroyed_def
      vm_callback_created_def vm_callback_precall_def vm_callback_postcall_def vm_callback_destroyed_def
      cl_call_status_def cl_call_void_def s_list_def vm_sample_env_def sample_values)

lemma sample_call_between: "\<exists>e. call_between vm_sample_env v fn args x = Some (5, x + 1, e)"
proof -
  obtain e where "notify_precall vm_sample_env v fn x = Some (STATUS_SUCCESS, x, e)"
    using sample_notify(2) by blast
  moreover obtain e' where "notify_postcall vm_sample_env v (x + 1) = Some (x + 1, e')"
    using sample_notify(3) by blast
  moreover have "amx_call vm_sample_env v fn args x = (AE_success, 5, x + 1)" by (simp add: vm_sample_env_def)
  ultimately show ?thesis by (simp add: call_between_def)
qed

lemma success_5: "NT_SUCCESS 5"
  by (simp add: NT_SUCCESS_def word_sle_eq)

lemma sample_load_runs:
  "\<exists>(c :: (64, nat, 'g, unit) vm_context) evs.
     vm_load_binary sample_load vm_sample_env 16379 sample_file 0 = Some (5, Some c, 1, evs)
     \<and> lookups_end (ctx_loader c)"
proof -
  obtain l :: "(64, nat, 'g, 64 word, unit) loader"
    where l: "load_module sample_load 16379 sample_file 0x30000 = Some (LE_success, l)" "lookups_end l" "get_main l = 8"
    using sample_load_module by blast
  let ?c = "\<lparr>ctx_addr = 0x30000, ctx_loader = l, original_buf = 0x20000, original_bytes = sample_file\<rparr>"
  have size: "length sample_file = 109" by (simp add: sample_file_def sample_module_def)
  have i: "\<exists>evs. vm_load_binary_internal sample_load 16379 sample_file =
      Some (STATUS_SUCCESS, Some ?c, evs :: (64, 64 word, nat) vm_trace)"
    using l(1) sample_signature
    by (simp add: vm_load_binary_internal_def sample_file_parts size)
      (simp add: sample_load_def)
  then obtain evs where i: "vm_load_binary_internal sample_load 16379 sample_file =
      Some (STATUS_SUCCESS, Some ?c, evs :: (64, 64 word, nat) vm_trace)" by blast
  obtain e1 where e1: "notify_created vm_sample_env 0x30000 0 = Some (STATUS_SUCCESS, 0, e1)"
    using sample_notify(1) by blast
  obtain e2 where e2: "call_between vm_sample_env 0x30000 8 [] 0 = Some (5, 1, e2)"
    using sample_call_between [of "0x30000" 8 "[]" 0] by auto
  show ?thesis
    using i e1 e2 l(2,3) success_5 by (simp add: vm_load_binary_def run_main_def Let_def)
qed

theorem vm_load_trusted_witness:
  "\<exists>(c :: (64, nat, unit, unit) vm_context) evs sha256.
     vm_load_binary sample_load vm_sample_env 16379 sample_file 0 = Some (5, Some c, 1, evs)
     \<and> original_bytes c = sample_file
     \<and> digests (sample_bcrypt 4) (sample_module 84) sha256 \<and> verifies (sample_bcrypt 4) sha256 [104] sample_key"
proof -
  obtain c :: "(64, nat, unit, unit) vm_context" and evs
    where v: "vm_load_binary sample_load vm_sample_env 16379 sample_file 0 = Some (5, Some c, 1, evs)"
    using sample_load_runs by blast
  have h: "\<not> le_unrestricted sample_load" "le_keys sample_load \<noteq> []" "length sample_file < 2 ^ 32"
    "NT_SUCCESS (fst (object_length (le_bcrypt sample_load))) \<longrightarrow> snd (snd (object_length (le_bcrypt sample_load))) = 4"
    by (simp_all add: sample_load_def sample_file_def sample_module_def sample_bcrypt_def)
  have "le_bcrypt sample_load = sample_bcrypt 4" "le_keys sample_load = [sample_key]"
    by (simp_all add: sample_load_def)
  with vm_load_trusted [OF v h] v show ?thesis by (auto simp: sample_file_parts)
qed

text \<open>A request for a function the module does not have, and its destruction.\<close>

theorem vm_life_in_order_witness:
  "\<exists>(c :: (64, nat, unit, unit) vm_context) x1 e1 sts x2 e2 x3 e3.
     vm_load_binary sample_load vm_sample_env 16379 sample_file 0 = Some (5, Some c, x1, e1)
     \<and> serve vm_sample_env c [\<lparr>req_in = 0x100, req_bytes = replicate 40 65, req_out = 0x200, req_out_size = 8\<rparr>] x1
        = Some (sts, x2, e2)
     \<and> vm_destroy vm_sample_env (Some c) x2 = Some (STATUS_SUCCESS, x3, e3)
     \<and> run_pool (e1 @ e2 @ e3) [] = Some []"
proof -
  obtain c :: "(64, nat, unit, unit) vm_context" and evs
    where v: "vm_load_binary sample_load vm_sample_env 16379 sample_file 0 = Some (5, Some c, 1, evs)"
      "lookups_end (ctx_loader c)"
    using sample_load_runs by blast
  from vm_life_in_order [OF vm_sample_env_ok v(1) sample_load_defined v(2)] v(1)
  show ?thesis by blast
qed

text \<open>A machine with one function \<open>ioctl_a\<close>.\<close>

definition sample_ctx :: "(64, nat, unit, unit) vm_context" where
  "sample_ctx =
    \<lparr>ctx_addr = 0x30000,
     ctx_loader = (empty_loader ())\<lparr>publics_mem := [(0x1000, 0x40)], str_base := 0x1000,
       str_mem := cstr ''ioctl_a'' @ [0]\<rparr>,
     original_buf = 0x20000, original_bytes = []\<rparr>"

definition sample_request :: "byte list" where
  "sample_request = cstr ''ioctl_a'' @ replicate 33 0"

lemma sample_ctx_public:
  "get_public (ctx_loader sample_ctx) v = Some (if v = cstr ''ioctl_a'' then 0x40 else 0)"
  by (simp add: get_public_def name_at_def sample_ctx_def empty_loader_def c_string_def cstr_def
      of_char_eq_iff strcmp_eq_def Let_def)

lemma sample_ctx_lookups: "lookups_end (ctx_loader sample_ctx)"
  by (simp add: lookups_end_def sample_ctx_public)

lemma sample_request_name: "request_name sample_request = cstr ''ioctl_a''"
  by (simp add: request_name_def sample_request_def cstr_def)

lemma sample_request_prefix [simp]:
  "take 6 (cstr ''ioctl_a'') = cstr ''ioctl_''" "length (cstr ''ioctl_a'') = 7"
  by (simp_all add: cstr_def)

lemma sample_request_size: "length sample_request = 40"
  by (simp add: sample_request_def cstr_def)


lemma sample_maps:
  "amx_map vm_sample_env v p n x = Some (0x100, x)" by (simp add: vm_sample_env_def)

theorem vm_execute_result_witness:
  "\<exists>x' evs. vm_execute_function vm_sample_env (Some sample_ctx) 0x5000 sample_request 0x6000 16 0 = Some (5, x', evs)"
proof -
  obtain e where e: "notify_precall vm_sample_env 0x30000 0x40 0 = Some (STATUS_SUCCESS, 0, e)"
    using sample_notify(2) by blast
  have c: "ctx_addr sample_ctx = 0x30000" by (simp add: sample_ctx_def)
  have "\<exists>x' evs. vm_execute_function vm_sample_env (Some sample_ctx) 0x5000 sample_request 0x6000 16 0 =
      Some (if AE_success = AE_success then ucast (5 :: 64 word) else STATUS_UNSUCCESSFUL, x', evs)"
    by (rule vm_execute_result [OF vm_sample_env_ok _ _ _ _ _ sample_maps sample_maps, where fn = "0x40"
        and st = STATUS_SUCCESS and ?x3.0 = 0 and e = e])
      (simp_all add: sample_request_size sample_request_name sample_ctx_public e c, simp_all add: vm_sample_env_def)
  then show ?thesis by simp
qed

theorem vm_execute_input_offset_witness:
  "vm_execute_function vm_sample_env (Some sample_ctx) 0x5000 sample_request 0x6000 16 0 =
     vm_execute_mapped vm_sample_env 0x30000 0 0x40 0x5020 1 0x6000 2 0"
proof -
  have "vm_execute_function vm_sample_env (Some sample_ctx) 0x5000 sample_request 0x6000 16 0 =
    (if LENGTH(64) = 64
     then vm_execute_mapped vm_sample_env (ctx_addr sample_ctx) (DAT (ctx_loader sample_ctx)) 0x40 (0x5000 + 32)
       (of_nat (length sample_request) div 8 - 4) 0x6000 (of_nat 16 div 8) 0
     else vm_execute_mapped vm_sample_env (ctx_addr sample_ctx) (DAT (ctx_loader sample_ctx)) 0x40 (0x5000 + 16)
       (of_nat (length sample_request) div 4 - 4) 0x6000 (of_nat 16 div 4) 0)"
    by (rule vm_execute_input_offset) (simp_all add: sample_request_size sample_request_name sample_ctx_public)
  then show ?thesis by (simp add: sample_request_size) (simp add: sample_ctx_def empty_loader_def)
qed

theorem vm_destroy_in_order_witness:
  "\<exists>x' evs. vm_destroy vm_sample_env (Some sample_ctx) 0 = Some (STATUS_SUCCESS, x', evs)
    \<and> run_pool evs [0x30000, 0x20000] = Some []"
proof -
  have "vm_blocks sample_ctx = [0x30000, 0x20000]"
    by (simp add: vm_blocks_def sample_ctx_def loader_frees_def empty_loader_def)
  with vm_destroy_in_order [OF vm_sample_env_ok sample_ctx_lookups, of 0] show ?thesis by auto
qed

theorem vm_destroy_dangling_slot_witness:
  "\<exists>x' evs r x'' evs'. vm_destroy vm_sample_env (Some sample_ctx) 0 = Some (STATUS_SUCCESS, x', evs)
    \<and> to_amx_callback_dispatch vm_sample_env [\<lparr>slot_cip = 0x40, slot_ctx = Some 0x30000\<rparr>]
        [\<lparr>slot_cip = 0x40, slot_ctx = Some 0x30000\<rparr>] 0 7 x' = Some (r, x'', evs')
    \<and> run_pool (evs @ evs') (vm_blocks sample_ctx) = None"
proof -
  let ?t = "[\<lparr>slot_cip = 0x40 :: 64 word, slot_ctx = Some (0x30000 :: 64 word)\<rparr>]"
  obtain x' evs where d: "vm_destroy vm_sample_env (Some sample_ctx) 0 = Some (STATUS_SUCCESS, x', evs)"
    using vm_destroy_steps [OF vm_sample_env_ok sample_ctx_lookups] by blast
  obtain e where "notify_precall vm_sample_env 0x30000 0x40 x' = Some (STATUS_SUCCESS, x', e)"
    using sample_notify(2) by blast
  then have "\<exists>r x'' evs'. to_amx_callback_dispatch vm_sample_env ?t ?t 0 7 x' = Some (r, x'', evs')"
    by (simp add: to_amx_callback_dispatch_def Let_def) (simp add: vm_sample_env_def)
  then obtain r x'' evs' where r: "to_amx_callback_dispatch vm_sample_env ?t ?t 0 7 x' = Some (r, x'', evs')" by blast
  have "slot_ctx (?t ! 0) = Some (ctx_addr sample_ctx)" by (simp add: sample_ctx_def)
  from vm_destroy_dangling_slot [OF vm_sample_env_ok sample_ctx_lookups d this r] d r show ?thesis by blast
qed

end
