(* ===== verification/Driver.thy ===== *)
theory Driver
  imports Vm_Run
begin

text \<open>
  The entry points of the driver (\<open>PawnIO/driver.cpp\<close>) and its control codes
  (\<open>PawnIO/ioctl.h\<close>): start, stop, and the dispatch of requests of one file object.

  \<open>CTL_CODE\<close> is a macro of the Windows headers and a parameter, as are the routines the kernel
  exports by name and what loading, the machine and the notifications depend on.
\<close>

section \<open>Version and control codes\<close>

definition PAWNIO_MAJOR :: u32 where "PAWNIO_MAJOR = 2"
definition PAWNIO_MINOR :: u32 where "PAWNIO_MINOR = 1"
definition PAWNIO_PATCH :: u32 where "PAWNIO_PATCH = 0"

definition pawnio_version :: u32 where
  "pawnio_version = (push_bit 16 PAWNIO_MAJOR OR push_bit 8 PAWNIO_MINOR OR PAWNIO_PATCH)"

definition k_device_type :: u32 where "k_device_type = 41394"

text \<open>\<open>ctl type function method access\<close>; \<open>METHOD_BUFFERED\<close> and \<open>FILE_ANY_ACCESS\<close> are 0.\<close>

type_synonym ctl_code = "u32 \<Rightarrow> u32 \<Rightarrow> u32 \<Rightarrow> u32 \<Rightarrow> u32"

definition IOCTL_PIO_LOAD_BINARY :: "ctl_code \<Rightarrow> u32" where
  "IOCTL_PIO_LOAD_BINARY ctl = ctl k_device_type 0x821 0 0"

definition IOCTL_PIO_EXECUTE_FN :: "ctl_code \<Rightarrow> u32" where
  "IOCTL_PIO_EXECUTE_FN ctl = ctl k_device_type 0x841 0 0"

definition IOCTL_PIO_VERSION :: "ctl_code \<Rightarrow> u32" where
  "IOCTL_PIO_VERSION ctl = ctl k_device_type 0x861 0 0"

text \<open>The documented value of the macro.\<close>

definition doc_ctl_code :: ctl_code where
  "doc_ctl_code t f m a = (push_bit 16 t OR push_bit 14 a OR push_bit 2 f OR m)"

definition ctl_ok :: "ctl_code \<Rightarrow> bool" where
  "ctl_ok ctl \<longleftrightarrow> (\<forall>t f m a. ctl t f m a = doc_ctl_code t f m a)"

section \<open>Requests\<close>

datatype major = IRP_MJ_CREATE | IRP_MJ_CLOSE | IRP_MJ_DEVICE_CONTROL | IRP_MJ_other

text \<open>
  A request: \<open>sys_addr\<close> and \<open>sys_in\<close> are the address and the input bytes of the system
  buffer, which is also the output buffer, of \<open>out_len\<close> bytes.
\<close>

record (overloaded) ('w) irp =
  irp_major :: major
  io_control_code :: u32
  sys_addr :: "'w::len word"
  sys_in :: "byte list"
  out_len :: u32

text \<open>
  What a request leaves: the status and \<open>Information\<close> it is completed with, the number the
  driver wrote to the buffer itself, and \<open>FsContext\<close>.
\<close>

record 'c irp_result =
  irp_status :: ntstatus
  information :: u32
  written :: "u32 option"
  fs_context :: "'c option"

definition completed :: "ntstatus \<Rightarrow> u32 \<Rightarrow> u32 option \<Rightarrow> 'c option \<Rightarrow> 'c irp_result" where
  "completed st info wr c = \<lparr>irp_status = st, information = info, written = wr, fs_context = c\<rparr>"

text \<open>
  The compare-exchange of \<open>FsContext\<close> with null: the value after it, and whether the new
  context went in.
\<close>

definition install_ctx :: "'c option \<Rightarrow> 'c \<Rightarrow> 'c option \<times> bool" where
  "install_ctx fs c = (case fs of None \<Rightarrow> (Some c, True) | Some d \<Rightarrow> (Some d, False))"

text \<open>
  \<open>dispatch_irp\<close>.  \<open>fs\<close> is \<open>FsContext\<close> when the request is examined, \<open>fs_now\<close> when the
  compare-exchange runs: requests of one file object may run at the same time.
\<close>

definition load_request ::
  "('w::len, 'f, 'a) load_env \<Rightarrow> ('w, 'w word, 'cb, 'p, 'x) vm_env \<Rightarrow>
   ('w, 'f, 'g, 'a) vm_context option \<Rightarrow> ('w, 'f, 'g, 'a) vm_context option \<Rightarrow> 'w irp \<Rightarrow> 'x \<Rightarrow>
   (('w, 'f, 'g, 'a) vm_context irp_result \<times> 'x \<times> ('w, 'w word, 'cb) vm_trace) option"
where
  "load_request le env fs fs_now irp x =
    (if fs \<noteq> None then Some (completed STATUS_ALREADY_INITIALIZED 0 None fs_now, x, [])
     else do {
       (st, new_ctx, x1, e1) \<leftarrow> vm_load_binary le env (sys_addr irp) (sys_in irp) x;
       if \<not> NT_SUCCESS st then Some (completed st 0 None fs_now, x1, e1)
       else do {
         c \<leftarrow> new_ctx;
         (let (fs', ok) = install_ctx fs_now c
          in if ok then Some (completed st 0 None fs', x1, e1)
             else do {
               (_, x2, e2) \<leftarrow> vm_destroy env (Some c) x1;
               Some (completed STATUS_UNSUCCESSFUL 0 None fs', x2, e1 @ e2) }) } })"

definition execute_request ::
  "('w::len, 'w word, 'cb, 'p, 'x) vm_env \<Rightarrow> ('w, 'f, 'g, 'a) vm_context option \<Rightarrow> 'w irp \<Rightarrow> 'x \<Rightarrow>
   (('w, 'f, 'g, 'a) vm_context irp_result \<times> 'x \<times> ('w, 'w word, 'cb) vm_trace) option"
where
  "execute_request env fs irp x =
    (if fs = None then Some (completed STATUS_INVALID_PARAMETER 0 None fs, x, [])
     else do {
       (st, x1, e1) \<leftarrow> vm_execute_function env fs (sys_addr irp) (sys_in irp) (sys_addr irp) (unat (out_len irp)) x;
       Some (completed st (if NT_SUCCESS st then out_len irp else 0) None fs, x1, e1) })"

definition version_request :: "'c option \<Rightarrow> 'w::len irp \<Rightarrow> 'c irp_result" where
  "version_request fs irp =
    (if out_len irp \<noteq> 4 then completed STATUS_INVALID_PARAMETER 0 None fs
     else completed STATUS_SUCCESS 4 (Some pawnio_version) fs)"

definition dispatch_irp ::
  "ctl_code \<Rightarrow> ('w::len, 'f, 'a) load_env \<Rightarrow> ('w, 'w word, 'cb, 'p, 'x) vm_env \<Rightarrow>
   ('w, 'f, 'g, 'a) vm_context option \<Rightarrow> ('w, 'f, 'g, 'a) vm_context option \<Rightarrow> 'w irp \<Rightarrow> 'x \<Rightarrow>
   (('w, 'f, 'g, 'a) vm_context irp_result \<times> 'x \<times> ('w, 'w word, 'cb) vm_trace) option"
where
  "dispatch_irp ctl le env fs fs_now irp x =
    (case irp_major irp of
       IRP_MJ_CREATE \<Rightarrow> Some (completed STATUS_SUCCESS 0 None fs, x, [])
     | IRP_MJ_CLOSE \<Rightarrow>
        (if fs \<noteq> None
         then do { (_, x1, e1) \<leftarrow> vm_destroy env fs x; Some (completed STATUS_SUCCESS 0 None fs, x1, e1) }
         else Some (completed STATUS_SUCCESS 0 None fs, x, []))
     | IRP_MJ_DEVICE_CONTROL \<Rightarrow>
        (if io_control_code irp = IOCTL_PIO_LOAD_BINARY ctl then load_request le env fs fs_now irp x
         else if io_control_code irp = IOCTL_PIO_EXECUTE_FN ctl then execute_request env fs irp x
         else if io_control_code irp = IOCTL_PIO_VERSION ctl then Some (version_request fs irp, x, [])
         else Some (completed STATUS_NOT_IMPLEMENTED 0 None fs, x, []))
     | IRP_MJ_other \<Rightarrow> Some (completed STATUS_NOT_IMPLEMENTED 0 None fs, x, []))"

section \<open>Start and stop\<close>

text \<open>The arguments of \<open>IoCreateDeviceSecure\<close> but for the driver object and the result.\<close>

record device_request =
  extension_size :: u32
  device_name :: string
  device_type :: u32
  characteristics :: u32
  exclusive_device :: bool
  sddl :: string
  class_guid :: "u32 \<times> u16 \<times> u16 \<times> byte list"

definition k_device_path :: string where
  "k_device_path = CHR 0x5C # ''Device'' @ CHR 0x5C # ''PawnIO''"

definition k_device_class :: "u32 \<times> u16 \<times> u16 \<times> byte list" where
  "k_device_class = (0x7c619961, 0xf266, 0x4c1b, [0x84, 0x72, 0x8d, 0x00, 0x47, 0xd6, 0xd4, 0x7a])"

text \<open>The device of the driver: only the system and the administrators can open it.\<close>

definition pawnio_device :: device_request where
  "pawnio_device =
    \<lparr>extension_size = 0, device_name = k_device_path, device_type = k_device_type, characteristics = 0,
     exclusive_device = False, sddl = ''D:P(A;;GA;;;SY)(A;;GA;;;BA)'', class_guid = k_device_class\<rparr>"

text \<open>
  \<open>lookup\<close> is \<open>MmGetSystemRoutineAddress\<close>, with what the routine does.  The code calls what it
  looked up without a test: \<open>None\<close> is the call of a null pointer.
\<close>

definition IoCreateDeviceSecure :: "(string \<Rightarrow> (device_request \<Rightarrow> ntstatus) option) \<Rightarrow> device_request \<Rightarrow> ntstatus option" where
  "IoCreateDeviceSecure lookup args = do { p \<leftarrow> lookup ''IoCreateDeviceSecure''; Some (p args) }"

text \<open>The driver object: which entry points are set, whether it has a device.\<close>

record driver_object =
  driver_unload_set :: bool
  major_functions :: "major list"
  has_device :: bool

definition DriverEntry ::
  "('p, 'cb) list_prims \<Rightarrow> (vm_event \<Rightarrow> 'p) \<Rightarrow> (vm_event \<Rightarrow> ntstatus) \<Rightarrow>
   (string \<Rightarrow> (device_request \<Rightarrow> ntstatus) option) \<Rightarrow> driver_object \<Rightarrow> ('p, 'cb) lheap \<Rightarrow>
   (ntstatus \<times> driver_object \<times> ('p, 'cb) lheap \<times> ('cb, vm_event) cb_event list) option"
where
  "DriverEntry w heads res lookup drv h = do {
     (status, h1, e1) \<leftarrow> vm_callback_init w heads res h;
     if \<not> NT_SUCCESS status then Some (status, drv, h1, e1)
     else do {
       status' \<leftarrow> IoCreateDeviceSecure lookup pawnio_device;
       if NT_SUCCESS status'
       then Some (status', \<lparr>driver_unload_set = True,
           major_functions = [IRP_MJ_CREATE, IRP_MJ_CLOSE, IRP_MJ_DEVICE_CONTROL], has_device = True\<rparr>, h1, e1)
       else do {
         (h2, e2) \<leftarrow> vm_callback_destroy w heads h1;
         Some (status', drv, h2, e1 @ e2) } } }"

definition driver_unload ::
  "('p, 'cb) list_prims \<Rightarrow> (vm_event \<Rightarrow> 'p) \<Rightarrow> driver_object \<Rightarrow> ('p, 'cb) lheap \<Rightarrow>
   (driver_object \<times> ('p, 'cb) lheap \<times> ('cb, vm_event) cb_event list) option"
where
  "driver_unload w heads drv h = do {
     (h', e) \<leftarrow> vm_callback_destroy w heads h;
     Some (if has_device drv then drv\<lparr>has_device := False\<rparr> else drv, h', e) }"

section \<open>Control codes\<close>

lemma ioctl_values:
  assumes "ctl_ok ctl"
  shows "IOCTL_PIO_LOAD_BINARY ctl = 0xA1B22084" and "IOCTL_PIO_EXECUTE_FN ctl = 0xA1B22104"
    and "IOCTL_PIO_VERSION ctl = 0xA1B22184"
  using assms by (simp_all add: ctl_ok_def IOCTL_PIO_LOAD_BINARY_def IOCTL_PIO_EXECUTE_FN_def
      IOCTL_PIO_VERSION_def doc_ctl_code_def k_device_type_def)

lemma pawnio_version_value: "pawnio_version = 0x20100"
  by (simp add: pawnio_version_def PAWNIO_MAJOR_def PAWNIO_MINOR_def PAWNIO_PATCH_def)

section \<open>Every request is answered in order\<close>

definition ctx_blocks :: "('w::len, 'f, 'g, 'a) vm_context option \<Rightarrow> 'w word list" where
  "ctx_blocks c = (case c of None \<Rightarrow> [] | Some c \<Rightarrow> vm_blocks c)"

text \<open>
  What the requests need of the loader: it returns on the file at hand, and what it accepts
  has lookups that end.
\<close>

definition loader_ok ::
  "('w::len, 'f, 'a) load_env \<Rightarrow> 'w word \<Rightarrow> byte list \<Rightarrow> ('w, 'f, 'g, 'a) vm_context itself \<Rightarrow> bool"
where
  "loader_ok le base buffer T \<longleftrightarrow>
    (\<forall>ctx. \<exists>e l. load_module le base buffer ctx = Some (e, l :: ('w, 'f, 'g, 'w word, 'a) loader)
       \<and> (e = LE_success \<longrightarrow> lookups_end l))"

lemma loader_ok_defined:
  "loader_ok le base buffer (T :: ('w::len, 'f, 'g, 'a) vm_context itself) \<Longrightarrow>
   \<forall>ctx. (load_module le base buffer ctx :: (loader_error \<times> ('w, 'f, 'g, 'w word, 'a) loader) option) \<noteq> None"
  unfolding loader_ok_def by (metis option.distinct(1))

lemma vm_load_lookups:
  fixes env :: "('w::len, 'w word, 'cb, 'p, 'x) vm_env" and c :: "('w, 'f, 'g, 'a) vm_context"
  assumes "vm_load_binary le env base buffer x = Some (st, Some c, x', evs)"
    and "loader_ok le base buffer (T :: ('w, 'f, 'g, 'a) vm_context itself)"
  shows "lookups_end (ctx_loader c)"
proof -
  obtain st0 and evs0 :: "('w, 'w word, 'cb) vm_trace"
    where i: "vm_load_binary_internal le base buffer = Some (st0, Some c, evs0)"
    using vm_load_some_ctx [OF assms(1)] by blast
  then have "load_module le base buffer (ctx_addr c) = Some (LE_success, ctx_loader c)"
    by (auto simp: vm_load_binary_internal_def Let_def split: if_splits option.splits bind_splits)
  moreover obtain e and l :: "('w, 'f, 'g, 'w word, 'a) loader"
    where "load_module le base buffer (ctx_addr c) = Some (e, l)" "e = LE_success \<longrightarrow> lookups_end l"
    using assms(2) unfolding loader_ok_def by blast
  ultimately show ?thesis by simp
qed

lemma load_request_in_order:
  fixes env :: "('w::len, 'w word, 'cb, 'p, 'x) vm_env" and fs :: "('w, 'f, 'g, 'a) vm_context option"
  assumes "env_ok env" and "loader_ok le (sys_addr irp) (sys_in irp) (T :: ('w, 'f, 'g, 'a) vm_context itself)"
    and "\<forall>c. fs = Some c \<longrightarrow> lookups_end (ctx_loader c)"
  shows "\<exists>r x' evs. load_request le env fs fs irp x = Some (r, x', evs)
    \<and> in_order evs (ctx_blocks fs) (ctx_blocks (fs_context r)) \<and> information r = 0
    \<and> (fs \<noteq> None \<longrightarrow> fs_context r = fs)
    \<and> (\<forall>c. fs_context r = Some c \<longrightarrow> lookups_end (ctx_loader c))"
proof (cases fs)
  case (Some c)
  then show ?thesis using assms(3) by (simp add: load_request_def completed_def in_order_Nil)
next
  case None
  obtain st and ctx :: "('w, 'f, 'g, 'a) vm_context option" and x' evs
    where l: "vm_load_binary le env (sys_addr irp) (sys_in irp) x = Some (st, ctx, x', evs)"
      "NT_SUCCESS st \<longleftrightarrow> ctx \<noteq> None" "in_order evs [] (case ctx of None \<Rightarrow> [] | Some c \<Rightarrow> vm_blocks c)"
    using vm_load_steps [OF assms(1) loader_ok_defined [OF assms(2)]] by blast
  moreover have "lookups_end (ctx_loader c)" if "ctx = Some c" for c
    by (rule vm_load_lookups [OF l(1) [unfolded that] assms(2)])
  ultimately show ?thesis using None
    by (cases ctx) (auto simp: load_request_def install_ctx_def completed_def ctx_blocks_def)
qed

lemma dispatch_steps:
  fixes env :: "('w::len, 'w word, 'cb, 'p, 'x) vm_env" and fs :: "('w, 'f, 'g, 'a) vm_context option"
  assumes "env_ok env" and "loader_ok le (sys_addr irp) (sys_in irp) TYPE(('w, 'f, 'g, 'a) vm_context)"
    and "\<forall>c. fs = Some c \<longrightarrow> lookups_end (ctx_loader c)"
  shows "\<exists>r x' evs. dispatch_irp ctl le env fs fs irp x = Some (r, x', evs)
    \<and> in_order evs (ctx_blocks fs) (if irp_major irp = IRP_MJ_CLOSE then [] else ctx_blocks (fs_context r))
    \<and> (fs \<noteq> None \<longrightarrow> fs_context r = fs)
    \<and> (\<forall>c. fs_context r = Some c \<longrightarrow> lookups_end (ctx_loader c))
    \<and> (information r = 0 \<or> NT_SUCCESS (irp_status r) \<and> information r = out_len irp)"
proof (cases "irp_major irp")
  case IRP_MJ_CLOSE
  show ?thesis
  proof (cases fs)
    case None
    then show ?thesis using IRP_MJ_CLOSE by (simp add: dispatch_irp_def completed_def in_order_Nil ctx_blocks_def)
  next
    case (Some c)
    obtain x' evs where "vm_destroy env (Some c) x = Some (STATUS_SUCCESS, x', evs)" "in_order evs (vm_blocks c) []"
      using vm_destroy_steps [OF assms(1)] assms(3) Some by blast
    then show ?thesis using Some IRP_MJ_CLOSE assms(3) by (simp add: dispatch_irp_def completed_def ctx_blocks_def)
  qed
next
  case IRP_MJ_DEVICE_CONTROL
  consider (load) "io_control_code irp = IOCTL_PIO_LOAD_BINARY ctl"
    | (exec) "io_control_code irp \<noteq> IOCTL_PIO_LOAD_BINARY ctl" "io_control_code irp = IOCTL_PIO_EXECUTE_FN ctl"
    | (rest) "io_control_code irp \<noteq> IOCTL_PIO_LOAD_BINARY ctl" "io_control_code irp \<noteq> IOCTL_PIO_EXECUTE_FN ctl"
    by blast
  then show ?thesis
  proof cases
    case load
    obtain r x' evs where "load_request le env fs fs irp x = Some (r, x', evs)"
      "in_order evs (ctx_blocks fs) (ctx_blocks (fs_context r))" "information r = 0" "fs \<noteq> None \<longrightarrow> fs_context r = fs"
        "\<forall>c. fs_context r = Some c \<longrightarrow> lookups_end (ctx_loader c)"
      using load_request_in_order [OF assms(1,2,3), of x] by auto
    then show ?thesis using load IRP_MJ_DEVICE_CONTROL by (auto simp: dispatch_irp_def)
  next
    case exec
    show ?thesis
    proof (cases fs)
      case None
      then show ?thesis using exec IRP_MJ_DEVICE_CONTROL
        by (simp add: dispatch_irp_def execute_request_def completed_def in_order_Nil)
    next
      case (Some c)
      obtain st x' evs where "vm_execute_function env (Some c) (sys_addr irp) (sys_in irp) (sys_addr irp)
          (unat (out_len irp)) x = Some (st, x', evs)" "in_order evs (vm_blocks c) (vm_blocks c)"
        using vm_execute_steps [OF assms(1)] assms(3) Some by blast
      then show ?thesis using Some exec IRP_MJ_DEVICE_CONTROL assms(3)
        by (simp add: dispatch_irp_def execute_request_def completed_def ctx_blocks_def)
    qed
  next
    case rest
    then show ?thesis using IRP_MJ_DEVICE_CONTROL assms(3)
      by (auto simp: dispatch_irp_def version_request_def completed_def in_order_Nil)
  qed
qed (use assms(3) in \<open>simp_all add: dispatch_irp_def completed_def in_order_Nil\<close>)

text \<open>
  every request of a file object is answered, and in order: the mutex of the machine is
  free afterwards, calls are bracketed, and the pool blocks left are those of the context that
  is then installed (none after a close).  A context, once installed, stays.  The output that
  is reported is nothing, or on success the whole buffer.
\<close>

theorem dispatch_irp_in_order:
  fixes env :: "('w::len, 'w word, 'cb, 'p, 'x) vm_env" and fs :: "('w, 'f, 'g, 'a) vm_context option"
  assumes "env_ok env" and "loader_ok le (sys_addr irp) (sys_in irp) TYPE(('w, 'f, 'g, 'a) vm_context)"
    and "\<forall>c. fs = Some c \<longrightarrow> lookups_end (ctx_loader c)"
  shows "\<exists>r x' evs. dispatch_irp ctl le env fs fs irp x = Some (r, x', evs)
    \<and> run_mutex evs [] = Some [] \<and> bracketed evs
    \<and> run_pool evs (ctx_blocks fs) =
        Some (if irp_major irp = IRP_MJ_CLOSE then [] else ctx_blocks (fs_context r))
    \<and> (fs \<noteq> None \<longrightarrow> fs_context r = fs)
    \<and> (\<forall>c. fs_context r = Some c \<longrightarrow> lookups_end (ctx_loader c))
    \<and> (information r = 0 \<or> NT_SUCCESS (irp_status r) \<and> information r = out_len irp)"
  using dispatch_steps [OF assms] unfolding in_order_def by blast

text \<open>
  with the documented control codes, a version request gives 2.1.0 in a buffer of exactly
  four bytes and is refused otherwise, and an unknown code is not implemented; neither touches
  the machine.
\<close>

theorem dispatch_version:
  assumes "ctl_ok ctl" and "irp_major irp = IRP_MJ_DEVICE_CONTROL"
  shows "(io_control_code irp = 0xA1B22184 \<longrightarrow> dispatch_irp ctl le env fs fs_now irp x =
      Some (if out_len irp = 4 then completed STATUS_SUCCESS 4 (Some 0x20100) fs
        else completed STATUS_INVALID_PARAMETER 0 None fs, x, []))
    \<and> (io_control_code irp \<notin> {0xA1B22084, 0xA1B22104, 0xA1B22184} \<longrightarrow>
        dispatch_irp ctl le env fs fs_now irp x = Some (completed STATUS_NOT_IMPLEMENTED 0 None fs, x, []))"
  using assms(2) by (simp add: dispatch_irp_def ioctl_values [OF assms(1)] version_request_def pawnio_version_value)

section \<open>Requests that race\<close>

text \<open>
  Load requests of one file object on several threads.  A request reads \<open>FsContext\<close>, loads,
  and tries to install what it loaded; \<open>live_ctxs\<close> are the contexts that exist.
\<close>

datatype 'c load_pc = Waiting | Loading | Loaded 'c ntstatus | Finished ntstatus

record ('r, 'c) file_state =
  fs_ctx :: "'c option"
  live_ctxs :: "'c set"
  load_pcs :: "'r \<Rightarrow> 'c load_pc"

inductive load_step :: "('r, 'c) file_state \<Rightarrow> ('r, 'c) file_state \<Rightarrow> bool" where
  refused: "load_pcs s r = Waiting \<Longrightarrow> fs_ctx s \<noteq> None \<Longrightarrow>
    load_step s (s\<lparr>load_pcs := (load_pcs s)(r := Finished STATUS_ALREADY_INITIALIZED)\<rparr>)"
| begun: "load_pcs s r = Waiting \<Longrightarrow> fs_ctx s = None \<Longrightarrow>
    load_step s (s\<lparr>load_pcs := (load_pcs s)(r := Loading)\<rparr>)"
| failed: "load_pcs s r = Loading \<Longrightarrow> \<not> NT_SUCCESS st \<Longrightarrow>
    load_step s (s\<lparr>load_pcs := (load_pcs s)(r := Finished st)\<rparr>)"
| loaded: "load_pcs s r = Loading \<Longrightarrow> NT_SUCCESS st \<Longrightarrow> c \<notin> live_ctxs s \<Longrightarrow>
    load_step s (s\<lparr>live_ctxs := insert c (live_ctxs s), load_pcs := (load_pcs s)(r := Loaded c st)\<rparr>)"
| installed: "load_pcs s r = Loaded c st \<Longrightarrow> install_ctx (fs_ctx s) c = (fs', ok) \<Longrightarrow>
    load_step s (s\<lparr>fs_ctx := fs', live_ctxs := (if ok then live_ctxs s else live_ctxs s - {c}),
      load_pcs := (load_pcs s)(r := Finished (if ok then st else STATUS_UNSUCCESSFUL))\<rparr>)"

inductive load_reachable :: "('r, 'c) file_state \<Rightarrow> bool" where
  start: "load_reachable \<lparr>fs_ctx = None, live_ctxs = {}, load_pcs = \<lambda>_. Waiting\<rparr>"
| step: "load_reachable s \<Longrightarrow> load_step s s' \<Longrightarrow> load_reachable s'"

text \<open>A request that succeeded.\<close>

fun succeeded :: "'c load_pc \<Rightarrow> bool" where
  "succeeded (Finished st) \<longleftrightarrow> NT_SUCCESS st"
| "succeeded _ \<longleftrightarrow> False"

text \<open>The context a request has loaded and not yet tried to install.\<close>

fun holding :: "'c load_pc \<Rightarrow> 'c option" where
  "holding (Loaded c st) = Some c"
| "holding _ = None"

text \<open>
  The invariant: every context that exists is installed or held by exactly one request, and
  there is an installed one exactly when one request succeeded.
\<close>

definition ctxs_inv :: "'c option \<Rightarrow> 'c set \<Rightarrow> ('r \<Rightarrow> 'c option) \<Rightarrow> ('r \<Rightarrow> bool) \<Rightarrow> bool" where
  "ctxs_inv fs live held won \<longleftrightarrow>
    (\<forall>r c. held r = Some c \<longrightarrow> c \<in> live \<and> fs \<noteq> Some c)
    \<and> (\<forall>r r' c. held r = Some c \<longrightarrow> held r' = Some c \<longrightarrow> r = r')
    \<and> (\<forall>c \<in> live. fs = Some c \<or> (\<exists>r. held r = Some c))
    \<and> (\<forall>c. fs = Some c \<longrightarrow> c \<in> live)
    \<and> (\<forall>r r'. won r \<longrightarrow> won r' \<longrightarrow> r = r')
    \<and> (fs = None \<longleftrightarrow> (\<forall>r. \<not> won r))"

definition held_of :: "('r \<Rightarrow> 'c load_pc) \<Rightarrow> 'r \<Rightarrow> 'c option" where
  "held_of ps r = holding (ps r)"

definition won_of :: "('r \<Rightarrow> 'c load_pc) \<Rightarrow> 'r \<Rightarrow> bool" where
  "won_of ps r = succeeded (ps r)"

definition load_inv :: "('r, 'c) file_state \<Rightarrow> bool" where
  "load_inv s \<longleftrightarrow>
    ctxs_inv (fs_ctx s) (live_ctxs s) (held_of (load_pcs s)) (won_of (load_pcs s))
    \<and> (\<forall>r c st. load_pcs s r = Loaded c st \<longrightarrow> NT_SUCCESS st)"

lemma pcs_update:
  "held_of (ps(r := p)) = (held_of ps)(r := holding p)"
  "won_of (ps(r := p)) = (won_of ps)(r := succeeded p)"
  by (auto simp: fun_eq_iff held_of_def won_of_def)

lemma pcs_unchanged:
  "\<not> succeeded (ps r) \<Longrightarrow> (won_of ps)(r := False) = won_of ps"
  "holding (ps r) = None \<Longrightarrow> (held_of ps)(r := None) = held_of ps"
  by (auto simp: fun_eq_iff held_of_def won_of_def)

lemma ctxs_invD:
  assumes "ctxs_inv fs live held won"
  shows "held r = Some c \<Longrightarrow> c \<in> live" and "held r = Some c \<Longrightarrow> fs \<noteq> Some c"
    and "held r = Some c \<Longrightarrow> held r' = Some c \<Longrightarrow> r = r'"
    and "c \<in> live \<Longrightarrow> fs \<noteq> Some c \<Longrightarrow> \<exists>r. held r = Some c" and "fs = Some c \<Longrightarrow> c \<in> live"
    and "won r \<Longrightarrow> won r' \<Longrightarrow> r = r'" and "fs = None \<longleftrightarrow> (\<forall>r. \<not> won r)"
  using assms unfolding ctxs_inv_def by blast+

lemma ctxs_invI:
  assumes "\<And>r c. held r = Some c \<Longrightarrow> c \<in> live \<and> fs \<noteq> Some c"
    and "\<And>r r' c. held r = Some c \<Longrightarrow> held r' = Some c \<Longrightarrow> r = r'"
    and "\<And>c. c \<in> live \<Longrightarrow> fs \<noteq> Some c \<Longrightarrow> \<exists>r. held r = Some c" and "\<And>c. fs = Some c \<Longrightarrow> c \<in> live"
    and "\<And>r r'. won r \<Longrightarrow> won r' \<Longrightarrow> r = r'" and "fs = None \<longleftrightarrow> (\<forall>r. \<not> won r)"
  shows "ctxs_inv fs live held won"
  using assms unfolding ctxs_inv_def by blast

lemma ctxs_inv_hold:
  assumes "ctxs_inv fs live held won" and "c \<notin> live" and "held r = None"
  shows "ctxs_inv fs (insert c live) (held(r := Some c)) won"
proof (rule ctxs_invI)
  note inv = ctxs_invD [OF assms(1)]
  show "d \<in> insert c live \<and> fs \<noteq> Some d" if "(held(r := Some c)) q = Some d" for q d
    using that inv(1,2) [of q d] inv(5) [of d] assms(2) by (auto split: if_splits)
  show "q = q'" if "(held(r := Some c)) q = Some d" "(held(r := Some c)) q' = Some d" for q q' d
    using that inv(1) [of q d] inv(1) [of q' d] inv(3) [of q d q'] assms(2) by (auto split: if_splits)
  show "\<exists>q. (held(r := Some c)) q = Some d" if d: "d \<in> insert c live" "fs \<noteq> Some d" for d
  proof (cases "d = c")
    case False
    then obtain q where "held q = Some d" using inv(4) [of d] d by blast
    then have "(held(r := Some c)) q = Some d" using assms(3) by auto
    then show ?thesis by blast
  qed (auto intro: exI [of _ r])
qed (use ctxs_invD [OF assms(1)] in blast)+

lemma ctxs_inv_install:
  assumes "ctxs_inv None live held won" and "held r = Some c"
  shows "ctxs_inv (Some c) live (held(r := None)) (won(r := True))"
proof (rule ctxs_invI)
  note inv = ctxs_invD [OF assms(1)]
  show "d \<in> live \<and> Some c \<noteq> Some d" if "(held(r := None)) q = Some d" for q d
    using that inv(1) [of q d] inv(3) [of q d r] assms(2) by (auto split: if_splits)
  show "q = q'" if "(held(r := None)) q = Some d" "(held(r := None)) q' = Some d" for q q' d
    using that inv(3) [of q d q'] by (auto split: if_splits)
  show "\<exists>q. (held(r := None)) q = Some d" if d: "d \<in> live" "Some c \<noteq> Some d" for d
  proof -
    obtain q where "held q = Some d" using inv(4) [of d] d by blast
    then have "(held(r := None)) q = Some d" using assms(2) d(2) by auto
    then show ?thesis by blast
  qed
  show "d \<in> live" if "Some c = Some d" for d using that inv(1) [OF assms(2)] by simp
  show "q = q'" if "(won(r := True)) q" "(won(r := True)) q'" for q q'
    using that inv(7) by (auto split: if_splits)
  show "Some c = None \<longleftrightarrow> (\<forall>q. \<not> (won(r := True)) q)" by auto
qed

lemma ctxs_inv_discard:
  assumes "ctxs_inv (Some e) live held won" and "held r = Some c"
  shows "ctxs_inv (Some e) (live - {c}) (held(r := None)) won"
proof (rule ctxs_invI)
  note inv = ctxs_invD [OF assms(1)]
  show "d \<in> live - {c} \<and> Some e \<noteq> Some d" if "(held(r := None)) q = Some d" for q d
    using that inv(1,2) [of q d] inv(3) [of q d r] assms(2) by (auto split: if_splits)
  show "q = q'" if "(held(r := None)) q = Some d" "(held(r := None)) q' = Some d" for q q' d
    using that inv(3) [of q d q'] by (auto split: if_splits)
  show "\<exists>q. (held(r := None)) q = Some d" if d: "d \<in> live - {c}" "Some e \<noteq> Some d" for d
  proof -
    obtain q where "held q = Some d" using inv(4) [of d] d by blast
    then have "(held(r := None)) q = Some d" using assms(2) d(1) by auto
    then show ?thesis by blast
  qed
  show "d \<in> live - {c}" if "Some e = Some d" for d
    using that inv(5) [of d] inv(2) [OF assms(2)] by simp
qed (use ctxs_invD [OF assms(1)] in blast)+

lemma load_inv_step: "load_step s s' \<Longrightarrow> load_inv s \<Longrightarrow> load_inv s'"
proof (induction rule: load_step.induct)
  case (refused s r)
  then show ?case by (auto simp: load_inv_def pcs_update pcs_unchanged)
next
  case (begun s r)
  then show ?case by (auto simp: load_inv_def pcs_update pcs_unchanged)
next
  case (failed s r st)
  then show ?case by (auto simp: load_inv_def pcs_update pcs_unchanged)
next
  case (loaded s r st c)
  then show ?case by (auto simp: load_inv_def pcs_update pcs_unchanged ctxs_inv_hold held_of_def)
next
  case (installed s r c st fs' ok)
  have st: "NT_SUCCESS st"
    and inv: "ctxs_inv (fs_ctx s) (live_ctxs s) (held_of (load_pcs s)) (won_of (load_pcs s))"
    and others: "\<forall>q d st'. load_pcs s q = Loaded d st' \<longrightarrow> NT_SUCCESS st'"
    using installed.prems installed.hyps(1) by (auto simp: load_inv_def)
  have h: "held_of (load_pcs s) r = Some c" and w: "(won_of (load_pcs s))(r := False) = won_of (load_pcs s)"
    using installed.hyps(1) by (simp_all add: held_of_def pcs_unchanged)
  show ?case
  proof (cases "fs_ctx s")
    case None
    then have "fs' = Some c" "ok" using installed.hyps(2) by (simp_all add: install_ctx_def)
    then show ?thesis
      using ctxs_inv_install [OF inv [unfolded None] h] st others
      by (simp add: load_inv_def pcs_update)
  next
    case (Some d)
    then have "fs' = Some d" "\<not> ok" using installed.hyps(2) by (simp_all add: install_ctx_def)
    then show ?thesis
      using ctxs_inv_discard [OF inv [unfolded Some] h] w others
      by (simp add: load_inv_def pcs_update)
  qed
qed

lemma load_inv_reachable: "load_reachable s \<Longrightarrow> load_inv s"
proof (induction rule: load_reachable.induct)
  case start
  then show ?case by (simp add: load_inv_def ctxs_inv_def held_of_def won_of_def)
next
  case (step s s')
  then show ?case by (simp add: load_inv_step)
qed

text \<open>
  C10: however load requests of one file object race, at most one succeeds; when none is
  underway any more, the only context that exists is the installed one, and there is one
  exactly when a request succeeded.
\<close>

theorem load_race:
  assumes "load_reachable s" and "\<forall>r c st. load_pcs s r \<noteq> Loaded c st"
  shows "live_ctxs s = set_option (fs_ctx s)
    \<and> (fs_ctx s \<noteq> None \<longleftrightarrow> (\<exists>r. succeeded (load_pcs s r)))
    \<and> (\<forall>r r'. succeeded (load_pcs s r) \<longrightarrow> succeeded (load_pcs s r') \<longrightarrow> r = r')"
proof -
  have "ctxs_inv (fs_ctx s) (live_ctxs s) (held_of (load_pcs s)) (won_of (load_pcs s))"
    using load_inv_reachable [OF assms(1)] by (simp add: load_inv_def)
  note inv = ctxs_invD [OF this]
  have n: "held_of (load_pcs s) r = None" for r using assms(2) by (cases "load_pcs s r") (auto simp: held_of_def)
  have "c \<in> live_ctxs s \<longleftrightarrow> fs_ctx s = Some c" for c using inv(4,5) [of c] n by auto
  moreover have "fs_ctx s \<noteq> None \<longleftrightarrow> (\<exists>r. succeeded (load_pcs s r))" using inv(7) by (auto simp: won_of_def)
  moreover have "r = r'" if "succeeded (load_pcs s r)" "succeeded (load_pcs s r')" for r r'
    using inv(6) [of r r'] that by (simp add: won_of_def)
  ultimately show ?thesis by (auto simp: set_eq_iff)
qed

text \<open>Two requests both load; the second to install gives its context back.\<close>

definition race_state :: "nat option \<Rightarrow> nat set \<Rightarrow> nat load_pc \<Rightarrow> nat load_pc \<Rightarrow> (bool, nat) file_state" where
  "race_state fs live p q = \<lparr>fs_ctx = fs, live_ctxs = live, load_pcs = (\<lambda>r. if r then p else q)\<rparr>"

lemma race_update:
  "load_pcs (race_state fs live p q) True = p" "load_pcs (race_state fs live p q) False = q"
  "fs_ctx (race_state fs live p q) = fs" "live_ctxs (race_state fs live p q) = live"
  "(race_state fs live p q)\<lparr>load_pcs := (load_pcs (race_state fs live p q))(True := p')\<rparr> = race_state fs live p' q"
  "(race_state fs live p q)\<lparr>load_pcs := (load_pcs (race_state fs live p q))(False := q')\<rparr> = race_state fs live p q'"
  "(race_state fs live p q)\<lparr>live_ctxs := l, load_pcs := (load_pcs (race_state fs live p q))(True := p')\<rparr> = race_state fs l p' q"
  "(race_state fs live p q)\<lparr>live_ctxs := l, load_pcs := (load_pcs (race_state fs live p q))(False := q')\<rparr> = race_state fs l p q'"
  "(race_state fs live p q)\<lparr>fs_ctx := f, live_ctxs := l, load_pcs := (load_pcs (race_state fs live p q))(True := p')\<rparr> = race_state f l p' q"
  "(race_state fs live p q)\<lparr>fs_ctx := f, live_ctxs := l, load_pcs := (load_pcs (race_state fs live p q))(False := q')\<rparr> = race_state f l p q'"
  by (auto simp: race_state_def fun_eq_iff)

lemma race_run:
  "load_reachable (race_state (Some 7) {7} (Finished STATUS_SUCCESS) (Finished STATUS_UNSUCCESSFUL))"
proof -
  have "load_reachable (race_state None {} Waiting Waiting)"
    using load_reachable.start by (simp add: race_state_def)
  from load_reachable.step [OF this load_step.begun [where r = True]]
  have "load_reachable (race_state None {} Loading Waiting)" by (simp add: race_update)
  from load_reachable.step [OF this load_step.begun [where r = False]]
  have "load_reachable (race_state None {} Loading Loading)" by (simp add: race_update)
  from load_reachable.step [OF this load_step.loaded [where r = True and c = 7 and st = STATUS_SUCCESS]]
  have "load_reachable (race_state None {7} (Loaded 7 STATUS_SUCCESS) Loading)" by (simp add: race_update)
  from load_reachable.step [OF this load_step.loaded [where r = False and c = 8 and st = STATUS_SUCCESS]]
  have "load_reachable (race_state None {8, 7} (Loaded 7 STATUS_SUCCESS) (Loaded 8 STATUS_SUCCESS))"
    by (simp add: race_update)
  from load_reachable.step [OF this load_step.installed [where r = True and c = 7 and st = STATUS_SUCCESS and fs' = "Some 7" and ok = True]]
  have "load_reachable (race_state (Some 7) {8, 7} (Finished STATUS_SUCCESS) (Loaded 8 STATUS_SUCCESS))"
    by (simp add: race_update install_ctx_def)
  from load_reachable.step [OF this load_step.installed [where r = False and c = 8 and st = STATUS_SUCCESS and fs' = "Some 7" and ok = False]]
  show ?thesis by (simp add: race_update install_ctx_def insert_Diff_if)
qed

theorem load_race_witness:
  "live_ctxs (race_state (Some 7) {7} (Finished STATUS_SUCCESS) (Finished STATUS_UNSUCCESSFUL)) = {7}"
proof -
  have "\<forall>r c st. load_pcs (race_state (Some 7) {7} (Finished STATUS_SUCCESS) (Finished STATUS_UNSUCCESSFUL)) r \<noteq> Loaded c st"
    by (simp add: race_state_def)
  from load_race [OF race_run this] show ?thesis by (simp add: race_state_def)
qed

section \<open>The driver gives back what it takes\<close>

lemma live_resources_append: "live_resources (a @ b) ks = live_resources b (live_resources a ks)"
  by (induction a ks rule: live_resources.induct) auto

text \<open>The four lists do not share entries.\<close>

definition lists_apart :: "(vm_event \<Rightarrow> 'p) \<Rightarrow> (vm_event \<Rightarrow> 'p list) \<Rightarrow> bool" where
  "lists_apart heads es \<longleftrightarrow>
    (\<forall>k k'. k \<noteq> k' \<longrightarrow> set (heads k # es k) \<inter> set (heads k' # es k') = {})"

lemma destroy_next:
  assumes "prims_ok w" and "lists_apart heads es" and "\<forall>k \<in> insert j ks. ring (heads k) h (es k)" and "j \<notin> ks"
  obtains h' where "cl_destroy w (s_list heads j) h = Some (h', [DeleteResource j])"
    and "\<forall>k \<in> ks. ring (heads k) h' (es k)"
proof -
  have c: "list_head (s_list heads j) = heads j" "list_name (s_list heads j) = j" by (simp_all add: s_list_def)
  obtain h' where h': "cl_destroy w (s_list heads j) h = Some (h', [DeleteResource j])"
    "\<forall>l fs. l \<notin> set (heads j # es j) \<longrightarrow> set fs \<inter> set (heads j # es j) = {} \<longrightarrow> ring l h fs \<longrightarrow> ring l h' fs"
    using cl_destroy_ring [OF assms(1), of "s_list heads j" h "es j"] assms(3) by (auto simp: c)
  have "ring (heads k) h' (es k)" if "k \<in> ks" for k
  proof -
    have "k \<noteq> j" using that assms(4) by blast
    then have "set (heads k # es k) \<inter> set (heads j # es j) = {}" using assms(2) unfolding lists_apart_def by blast
    then show ?thesis using h'(2) assms(3) that by auto
  qed
  then show ?thesis using h'(1) that by blast
qed

lemma vm_callback_destroy_result:
  assumes "prims_ok w" and "lists_apart heads es" and "\<forall>k. ring (heads k) h (es k)"
  shows "\<exists>h'. vm_callback_destroy w heads h = Some (h', map DeleteResource [Created, Precall, Postcall, Destroyed])"
proof -
  note step = destroy_next [OF assms(1,2)]
  have all: "\<forall>k \<in> insert Created {Precall, Postcall, Destroyed}. ring (heads k) h (es k)" using assms(3) by blast
  obtain h1 where h1: "cl_destroy w (s_list heads Created) h = Some (h1, [DeleteResource Created])"
    "\<forall>k \<in> insert Precall {Postcall, Destroyed}. ring (heads k) h1 (es k)"
    by (rule step [OF all]) auto
  obtain h2 where h2: "cl_destroy w (s_list heads Precall) h1 = Some (h2, [DeleteResource Precall])"
    "\<forall>k \<in> insert Postcall {Destroyed}. ring (heads k) h2 (es k)"
    by (rule step [OF h1(2)]) auto
  obtain h3 where h3: "cl_destroy w (s_list heads Postcall) h2 = Some (h3, [DeleteResource Postcall])"
    "\<forall>k \<in> insert Destroyed {}. ring (heads k) h3 (es k)"
    by (rule step [OF h2(2)]) auto
  obtain h4 where h4: "cl_destroy w (s_list heads Destroyed) h3 = Some (h4, [DeleteResource Destroyed])"
    by (rule step [OF h3(2)]) auto
  show ?thesis using h1(1) h2(1) h3(1) h4 by (simp add: vm_callback_destroy_def)
qed

text \<open>
  C29: starting the driver succeeds with four usable lists, the three entry points, the unload
  routine and the device, which only the system and the administrators can open, or leaves the
  driver object alone and holds no resource.  Unloading
  it later, whatever is registered then, deletes the device and releases every resource.
\<close>

theorem driver_start_stop:
  assumes "prims_ok w" and "inj heads" and "lookup ''IoCreateDeviceSecure'' = Some create"
  shows "\<exists>st drv' h' ev. DriverEntry w heads res lookup drv h = Some (st, drv', h', ev)
    \<and> (if NT_SUCCESS st
       then drv' = \<lparr>driver_unload_set = True,
           major_functions = [IRP_MJ_CREATE, IRP_MJ_CLOSE, IRP_MJ_DEVICE_CONTROL], has_device = True\<rparr>
         \<and> (\<forall>k. ring (heads k) h' [])
         \<and> create pawnio_device = st \<and> sddl pawnio_device = ''D:P(A;;GA;;;SY)(A;;GA;;;BA)''
         \<and> (\<forall>h2 es. (\<forall>k. ring (heads k) h2 (es k)) \<longrightarrow> lists_apart heads es \<longrightarrow>
             (\<exists>h3 ev'. driver_unload w heads drv' h2 = Some (drv'\<lparr>has_device := False\<rparr>, h3, ev')
               \<and> live_resources (ev @ ev') [] = []))
       else drv' = drv \<and> live_resources ev [] = [])"
proof -
  obtain st h1 e1 where i: "vm_callback_init w heads res h = Some (st, h1, e1)"
    and r: "if \<forall>k. NT_SUCCESS (res k)
       then st = STATUS_SUCCESS \<and> live_resources e1 [] = [Destroyed, Postcall, Precall, Created]
         \<and> (\<forall>k. ring (heads k) h1 [])
       else \<not> NT_SUCCESS st \<and> live_resources e1 [] = []"
    using vm_callback_init_steps [OF assms(1,2), of res h] by blast
  obtain st' where st': "IoCreateDeviceSecure lookup pawnio_device = Some st'" "create pawnio_device = st'"
    using assms(3) by (simp add: IoCreateDeviceSecure_def)
  show ?thesis
  proof (cases "\<forall>k. NT_SUCCESS (res k)")
    case False
    then show ?thesis using i r by (auto simp: DriverEntry_def)
  next
    case True
    then have r: "st = STATUS_SUCCESS" "live_resources e1 [] = [Destroyed, Postcall, Precall, Created]"
      "\<forall>k. ring (heads k) h1 []" using r by simp_all
    have gone: "live_resources (map DeleteResource [Created, Precall, Postcall, Destroyed])
        [Destroyed, Postcall, Precall, Created] = []" by simp
    show ?thesis
    proof (cases "NT_SUCCESS st'")
      case True
      have "\<exists>h3 ev'. driver_unload w heads \<lparr>driver_unload_set = True,
             major_functions = [IRP_MJ_CREATE, IRP_MJ_CLOSE, IRP_MJ_DEVICE_CONTROL], has_device = True\<rparr> h2 =
           Some (\<lparr>driver_unload_set = True,
             major_functions = [IRP_MJ_CREATE, IRP_MJ_CLOSE, IRP_MJ_DEVICE_CONTROL], has_device = False\<rparr>, h3, ev')
         \<and> live_resources (e1 @ ev') [] = []"
        if "\<forall>k. ring (heads k) h2 (es k)" "lists_apart heads es" for h2 es
        using vm_callback_destroy_result [OF assms(1) that(2,1)] r(2)
        by (auto simp: driver_unload_def live_resources_append)
      then show ?thesis using i r(1,3) st' True by (simp add: DriverEntry_def pawnio_device_def)
    next
      case False
      have "lists_apart heads (\<lambda>_. [])" using assms(2) by (auto simp: lists_apart_def inj_def)
      then obtain h2 where "vm_callback_destroy w heads h1 =
          Some (h2, map DeleteResource [Created, Precall, Postcall, Destroyed])"
        using vm_callback_destroy_result [OF assms(1), of heads "\<lambda>_. []" h1] r(3) by blast
      then show ?thesis using i r(1,2) st' False by (simp add: DriverEntry_def live_resources_append)
    qed
  qed
qed

text \<open>The device cannot be created: nothing is left.\<close>

theorem driver_start_stop_witness:
  "\<exists>st drv' h' ev. DriverEntry doc_prims (case_vm_event (1 :: nat) 2 3 4) (\<lambda>k. STATUS_SUCCESS)
      [''IoCreateDeviceSecure'' \<mapsto> \<lambda>_. STATUS_UNSUCCESSFUL] \<lparr>driver_unload_set = False, major_functions = [], has_device = False\<rparr> sample_heap
        = Some (st, drv', h', ev)
    \<and> (\<not> NT_SUCCESS st \<longrightarrow> live_resources ev [] = [])"
proof -
  have "inj (case_vm_event (1 :: nat) 2 3 4)" by (auto simp: inj_def split: vm_event.splits)
  from driver_start_stop [OF doc_prims_ok this, of "[''IoCreateDeviceSecure'' \<mapsto> \<lambda>_. STATUS_UNSUCCESSFUL]" _ "\<lambda>k. STATUS_SUCCESS"
      "\<lparr>driver_unload_set = False, major_functions = [], has_device = False\<rparr>" sample_heap]
  show ?thesis by (auto split: if_splits)
qed

section \<open>A file object\<close>

text \<open>The requests of one file object, in order.\<close>

fun file_session ::
  "ctl_code \<Rightarrow> ('w::len, 'f, 'a) load_env \<Rightarrow> ('w, 'w word, 'cb, 'p, 'x) vm_env \<Rightarrow>
   ('w, 'f, 'g, 'a) vm_context option \<Rightarrow> 'w irp list \<Rightarrow> 'x \<Rightarrow>
   (('w, 'f, 'g, 'a) vm_context option \<times> 'x \<times> ('w, 'w word, 'cb) vm_trace) option"
where
  "file_session ctl le env fs [] x = Some (fs, x, [])"
| "file_session ctl le env fs (irp # irps) x = do {
     (r, x1, e1) \<leftarrow> dispatch_irp ctl le env fs fs irp x;
     (fs', x2, e2) \<leftarrow> file_session ctl le env (fs_context r) irps x1;
     Some (fs', x2, e1 @ e2) }"

lemma file_session_in_order:
  fixes env :: "('w::len, 'w word, 'cb, 'p, 'x) vm_env"
  assumes "env_ok env"
  shows "\<forall>irp \<in> set irps. irp_major irp \<noteq> IRP_MJ_CLOSE
      \<and> loader_ok le (sys_addr irp) (sys_in irp) TYPE(('w, 'f, 'g, 'a) vm_context) \<Longrightarrow>
    \<forall>c. fs = Some c \<longrightarrow> lookups_end (ctx_loader c) \<Longrightarrow>
    \<exists>(fs' :: ('w, 'f, 'g, 'a) vm_context option) x' evs.
      file_session ctl le env fs irps x = Some (fs', x', evs)
      \<and> in_order evs (ctx_blocks fs) (ctx_blocks fs')
      \<and> (\<forall>c. fs' = Some c \<longrightarrow> lookups_end (ctx_loader c))"
proof (induction irps arbitrary: fs x)
  case Nil
  then show ?case by (simp add: in_order_Nil)
next
  case (Cons irp irps)
  have ok: "loader_ok le (sys_addr irp) (sys_in irp) TYPE(('w, 'f, 'g, 'a) vm_context)"
    and m: "irp_major irp \<noteq> IRP_MJ_CLOSE" using Cons.prems(1) by simp_all
  obtain r x1 e1 where d: "dispatch_irp ctl le env fs fs irp x = Some (r, x1, e1)"
    "in_order e1 (ctx_blocks fs) (ctx_blocks (fs_context r))"
    "\<forall>c. fs_context r = Some c \<longrightarrow> lookups_end (ctx_loader c)"
    using dispatch_steps [OF assms ok Cons.prems(2), of ctl x] m by auto
  obtain fs' x2 e2 where "file_session ctl le env (fs_context r) irps x1 = Some (fs', x2, e2)"
    "in_order e2 (ctx_blocks (fs_context r)) (ctx_blocks fs')"
    "\<forall>c. fs' = Some c \<longrightarrow> lookups_end (ctx_loader c)"
    using Cons.IH [OF _ d(3), of x1] Cons.prems(1) by fastforce
  then show ?case using d in_order_append by auto
qed

text \<open>
  a file object from open to close: whatever requests it gets, when it is closed every
  pool block is given back, the mutex was never taken twice, and every call of a module was
  announced and reported.
\<close>

theorem file_object_in_order:
  fixes env :: "('w::len, 'w word, 'cb, 'p, 'x) vm_env"
  assumes "env_ok env"
    and "\<forall>irp \<in> set irps. irp_major irp \<noteq> IRP_MJ_CLOSE
      \<and> loader_ok le (sys_addr irp) (sys_in irp) TYPE(('w, 'f, 'g, 'a) vm_context)"
    and "irp_major close = IRP_MJ_CLOSE"
  shows "\<exists>(fs :: ('w, 'f, 'g, 'a) vm_context option) x1 e1 r x2 e2.
    file_session ctl le env None irps x = Some (fs, x1, e1)
    \<and> dispatch_irp ctl le env fs fs close x1 = Some (r, x2, e2) \<and> irp_status r = STATUS_SUCCESS
    \<and> run_mutex (e1 @ e2) [] = Some [] \<and> bracketed (e1 @ e2) \<and> run_pool (e1 @ e2) [] = Some []"
proof -
  obtain fs :: "('w, 'f, 'g, 'a) vm_context option" and x1 e1
    where s: "file_session ctl le env None irps x = Some (fs, x1, e1)"
      "in_order e1 [] (ctx_blocks fs)" "\<forall>c. fs = Some c \<longrightarrow> lookups_end (ctx_loader c)"
    using file_session_in_order [OF assms(1,2), of None ctl x] by (auto simp: ctx_blocks_def)
  have "\<exists>r x2 e2. dispatch_irp ctl le env fs fs close x1 = Some (r, x2, e2) \<and> irp_status r = STATUS_SUCCESS
      \<and> in_order e2 (ctx_blocks fs) []"
  proof (cases fs)
    case None
    then show ?thesis using assms(3) by (simp add: dispatch_irp_def completed_def in_order_Nil ctx_blocks_def)
  next
    case (Some c)
    obtain x2 e2 where "vm_destroy env (Some c) x1 = Some (STATUS_SUCCESS, x2, e2)" "in_order e2 (vm_blocks c) []"
      using vm_destroy_steps [OF assms(1)] s(3) Some by blast
    then show ?thesis using Some assms(3) by (simp add: dispatch_irp_def completed_def ctx_blocks_def)
  qed
  then show ?thesis using s in_order_append [OF s(2)] unfolding in_order_def by blast
qed

section \<open>Examples\<close>

definition sample_irp :: "major \<Rightarrow> u32 \<Rightarrow> byte list \<Rightarrow> 64 irp" where
  "sample_irp m code bytes =
    \<lparr>irp_major = m, io_control_code = code, sys_addr = 16379, sys_in = bytes, out_len = 4\<rparr>"

lemma sample_loader_ok: "loader_ok sample_load 16379 sample_file TYPE((64, nat, 'g, unit) vm_context)"
  unfolding loader_ok_def using sample_load_module by metis

lemma doc_ctl_code_ok: "ctl_ok doc_ctl_code"
  by (simp add: ctl_ok_def)

text \<open>The sample file is loaded, a version asked for, the file object closed.\<close>

theorem file_object_in_order_witness:
  "\<exists>(fs :: (64, nat, unit, unit) vm_context option) x1 e1 r x2 e2.
    file_session doc_ctl_code sample_load vm_sample_env None
      [sample_irp IRP_MJ_CREATE 0 sample_file, sample_irp IRP_MJ_DEVICE_CONTROL 0xA1B22084 sample_file,
       sample_irp IRP_MJ_DEVICE_CONTROL 0xA1B22184 sample_file] 0 = Some (fs, x1, e1)
    \<and> dispatch_irp doc_ctl_code sample_load vm_sample_env fs fs (sample_irp IRP_MJ_CLOSE 0 []) x1 = Some (r, x2, e2)
    \<and> run_pool (e1 @ e2) [] = Some []"
proof -
  have "\<forall>irp \<in> set [sample_irp IRP_MJ_CREATE 0 sample_file, sample_irp IRP_MJ_DEVICE_CONTROL 0xA1B22084 sample_file,
       sample_irp IRP_MJ_DEVICE_CONTROL 0xA1B22184 sample_file]. irp_major irp \<noteq> IRP_MJ_CLOSE
      \<and> loader_ok sample_load (sys_addr irp) (sys_in irp) TYPE((64, nat, unit, unit) vm_context)"
    using sample_loader_ok by (simp add: sample_irp_def)
  from file_object_in_order [OF vm_sample_env_ok this, of "sample_irp IRP_MJ_CLOSE 0 []" doc_ctl_code 0]
  show ?thesis by (auto simp: sample_irp_def)
qed

theorem dispatch_irp_in_order_witness:
  "\<exists>(r :: (64, nat, unit, unit) vm_context irp_result) x' evs.
     dispatch_irp doc_ctl_code sample_load vm_sample_env None None
       (sample_irp IRP_MJ_DEVICE_CONTROL 0xA1B22084 sample_file) 0 = Some (r, x', evs)
     \<and> run_pool evs [] = Some (ctx_blocks (fs_context r))"
proof -
  let ?irp = "sample_irp IRP_MJ_DEVICE_CONTROL 0xA1B22084 sample_file"
  have "loader_ok sample_load (sys_addr ?irp) (sys_in ?irp) TYPE((64, nat, unit, unit) vm_context)"
    using sample_loader_ok by (simp add: sample_irp_def)
  from dispatch_irp_in_order [OF vm_sample_env_ok this, of None doc_ctl_code 0]
  show ?thesis by (auto simp: ctx_blocks_def sample_irp_def)
qed

theorem dispatch_version_witness:
  "dispatch_irp doc_ctl_code sample_load vm_sample_env (None :: (64, nat, unit, unit) vm_context option) None
     (sample_irp IRP_MJ_DEVICE_CONTROL 0xA1B22184 []) 0 =
   Some (completed STATUS_SUCCESS 4 (Some 0x20100) None, 0, [])"
  using dispatch_version [OF doc_ctl_code_ok, of "sample_irp IRP_MJ_DEVICE_CONTROL 0xA1B22184 []"]
  by (simp add: sample_irp_def)

end
