(* ===== verification/Loader_Total.thy ===== *)
theory Loader_Total
  imports Loader_Correct
begin

text \<open>
  \<open>init\<close> on any file: the cases of \<open>Loader_Parse\<close> (a file that is refused) and
  \<open>Loader_Correct\<close> (a file that is accepted) together, with every failure of the pool and of
  the machine in between.
\<close>

section \<open>The pool\<close>

text \<open>
  What the loader relies on: blocks are aligned to two machine words and lie inside the
  address space.
\<close>

definition pool_sane :: "'w::len kernel \<Rightarrow> bool" where
  "pool_sane k \<longleftrightarrow> mem_align k = of_nat (2 * sizeof_cell TYPE('w))
     \<and> (\<forall>n block. pool_alloc k n = Some block \<longrightarrow> unat block + unat n < 2 ^ LENGTH('w))"

text \<open>The sizes do not wrap and the fix-up loop of the data stays in the allocation.\<close>

definition image_safe :: "'w::len itself \<Rightarrow> 'f image \<Rightarrow> bool" where
  "image_safe T i \<longleftrightarrow> image_fits T (2 * sizeof_cell T) i \<and> fixup_inside T (2 * sizeof_cell T) i"

definition file_safe :: "'w::len word \<Rightarrow> nat \<Rightarrow> byte list \<Rightarrow> (cstring \<times> 'f) list \<Rightarrow> bool" where
  "file_safe base version buf ns \<longleftrightarrow> image_object base buf
     \<and> (\<forall>i. parse_image TYPE('w) version buf ns = Inr i \<longrightarrow> image_safe TYPE('w) i)"

section \<open>init on any file\<close>

lemma parse_image_not_success:
  assumes "parse_image w version buf ns = Inl e"
  shows "e \<noteq> LE_success"
proof -
  have r: "resolve_natives buf ns offs = Inl e' \<Longrightarrow> e' \<noteq> LE_success" for offs e'
    by (auto simp: resolve_natives_eq split: list.splits if_splits option.splits)
  have "parse_tables buf ns h c d = Inl e' \<Longrightarrow> e' \<noteq> LE_success" for h c d e'
    by (auto simp: parse_tables_def dest: r split: if_splits option.splits sum.splits)
  then show ?thesis using assms by (auto simp: parse_image_def Let_def split: if_splits)
qed

lemma load_image_total:
  fixes base :: "'w::len word" and l0 :: "('w, 'f, 'g, 'u, 'a) loader"
  assumes im: "image_object base buf" and p: "parse_image TYPE('w) version buf ns = Inr i"
    and k: "pool_sane k" and i: "image_safe TYPE('w) i"
  shows "\<exists>e l. load_image ops k buf base ns (im_header i) (image_counts i) l0 = Some (e, l)
    \<and> (e = LE_success \<longrightarrow> (\<exists>a2 cb db block. l = finished i cb db (loaded (mem_align k) block buf i a2 l0)))"
proof -
  have al: "unat (mem_align k) = 2 * sizeof_cell TYPE('w)"
    by (rule pool_alignment [OF image_objectD(1) [OF im]]) (use k in \<open>simp add: pool_sane_def\<close>)
  have fits: "image_fits TYPE('w) (unat (mem_align k)) i" and fix_ok: "fixup_inside TYPE('w) (unat (mem_align k)) i"
    using i by (simp_all add: image_safe_def al)
  have lf: "layout_fits (unat (mem_align k)) (image_counts i :: 'w counts)" using fits by (simp add: image_fits_def)
  let ?asize = "alloc_size (mem_align k) (image_counts i)"
  show ?thesis
  proof (cases "pool_alloc k ?asize")
    case None
    then show ?thesis by (simp add: load_image_def)
  next
    case (Some block)
    then have blk: "unat block + unat ?asize < 2 ^ LENGTH('w)" using k by (simp add: pool_sane_def)
    let ?l = "place_regions (mem_align k) block ?asize (image_counts i) l0"
    let ?l1 = "?l\<lparr>code_mem := segment_cells buf (h_cod (im_header i)) (h_dat (im_header i)) (im_code i),
       data_mem := segment_cells buf (h_dat (im_header i)) (h_hea (im_header i))
         (unat (data_alloc_cells (im_header i) (im_data i) :: 'w word))\<rparr>"
    have cp: "copy_segments buf base (im_header i) ?l = Some ?l1"
      using copy_segments_image [OF im p fits, of block l0] fix_ok by simp
    have f: "amx_state ?l1 = amx_state l0" "code_ptr ?l1 = block" "code_count ?l1 = of_nat (im_code i)"
      "data_ptr ?l1 = block + of_nat (off_data (unat (mem_align k)) (image_counts i :: 'w counts))"
      "data_count ?l1 = data_alloc_cells (im_header i) (im_data i)"
      unfolding place_regions_layout [OF lf] by (simp_all add: image_counts_def)
    note start = load_image_def Let_def Some option.case cp Option.bind.bind_lunit f
    show ?thesis
    proof (cases "code_map ops (amx_state l0) block (of_nat (im_code i))")
      case None
      then show ?thesis unfolding start by simp
    next
      case cm: (Some r)
      obtain a1 cb where r: "r = (a1, cb)" by (cases r)
      let ?dp = "block + of_nat (off_data (unat (mem_align k)) (image_counts i :: 'w counts))"
      show ?thesis
      proof (cases "data_map ops a1 ?dp (data_alloc_cells (im_header i) (im_data i))")
        case None
        then show ?thesis using cm unfolding start r by simp
      next
        case dm: (Some q)
        obtain a2 db where q: "q = (a2, db)" by (cases q)
        show ?thesis
          unfolding load_image_result [OF im p fits Some blk fix_ok cm [unfolded r] dm [unfolded q]]
          by (auto split: if_splits)
      qed
    qed
  qed
qed

text \<open>
  \<open>init\<close> returns on every file that is safe; when it returns success, the file was accepted
  and the loader represents it.
\<close>

lemma init_total:
  fixes base :: "'w::len word" and l0 :: "('w, 'f, 'g, 'u, 'a) loader"
  assumes "file_safe base (amx_version ops) buf (natives cbs)" and "pool_sane k"
  shows "\<exists>e l. init ops k buf base cbs l0 = Some (e, l) \<and> (e = LE_success \<longrightarrow>
    (\<exists>i a2 cb db block. parse_image TYPE('w) (amx_version ops) buf (natives cbs) = Inr i \<and> image_safe TYPE('w) i
      \<and> l = finished i cb db (loaded (mem_align k) block buf i a2 ((hooked cbs l0)\<lparr>main_fn := main_of (im_header i)\<rparr>))))"
proof -
  have im: "image_object base buf" using assms(1) by (simp add: file_safe_def)
  show ?thesis
  proof (cases "parse_image TYPE('w) (amx_version ops) buf (natives cbs)")
    case (Inl e)
    have "e \<noteq> LE_success" by (rule parse_image_not_success [OF Inl])
    then show ?thesis using Inl init_parse [OF im, of ops k cbs l0] by auto
  next
    case (Inr i)
    then have i: "image_safe TYPE('w) i" using assms(1) by (simp add: file_safe_def)
    show ?thesis
      using load_image_total [OF im Inr assms(2) i, of ops "(hooked cbs l0)\<lparr>main_fn := main_of (im_header i)\<rparr>"] Inr i
      unfolding init_load [OF im Inr] by blast
  qed
qed

text \<open>What a loader that succeeded holds.\<close>

lemma init_success:
  fixes base :: "'w::len word" and l0 :: "('w, 'f, 'g, 'u, 'a) loader"
  assumes "init ops k buf base cbs l0 = Some (LE_success, l)"
    and "file_safe base (amx_version ops) buf (natives cbs)" and "pool_sane k"
  obtains i where "parse_image TYPE('w) (amx_version ops) buf (natives cbs) = Inr i" and "represents buf i l"
    and "natives_count l = of_nat (length (im_natives i))"
    and "l_single_step l = on_single_step cbs" and "l_break l = on_break cbs"
    and "l_user_data l = Some (user_data cbs)"
proof -
  obtain i a2 cb db block where i: "parse_image TYPE('w) (amx_version ops) buf (natives cbs) = Inr i"
      "image_safe TYPE('w) i"
      "l = finished i cb db (loaded (mem_align k) block buf i a2 ((hooked cbs l0)\<lparr>main_fn := main_of (im_header i)\<rparr>))"
    using init_total [OF assms(2,3), of l0] assms(1) by auto
  have mw: "machine_word TYPE('w)" using assms(2) by (simp add: file_safe_def image_object_def)
  have al: "unat (mem_align k) = 2 * sizeof_cell TYPE('w)"
    by (rule pool_alignment [OF mw]) (use assms(3) in \<open>simp add: pool_sane_def\<close>)
  have fits: "image_fits TYPE('w) (unat (mem_align k)) i" using i(2) by (simp add: image_safe_def al)
  have lf: "layout_fits (unat (mem_align k)) (image_counts i :: 'w counts)" using fits by (simp add: image_fits_def)
  have n: "n_natives (image_counts i :: 'w counts) = length (im_natives i)" by (simp add: image_counts_def)
  show ?thesis
  proof
    show "parse_image TYPE('w) (amx_version ops) buf (natives cbs) = Inr i" by (rule i(1))
    show "represents buf i l" unfolding i(3) by (simp add: loaded_represents [OF mw i(1) fits])
  qed (simp_all add: i(3) finished_def loaded_def Let_def place_regions_layout [OF lf] n hooked_def)
qed

text \<open>On a 64-bit build the sizes never wrap.\<close>

lemma file_safe_64:
  fixes base :: "64 word"
  assumes "image_object base buf"
    and "\<And>i. parse_image TYPE(64) version buf ns = Inr i \<Longrightarrow> fixup_inside TYPE(64) 16 i"
  shows "file_safe base version buf ns"
  using assms(2) image_fits_64 [OF assms(1), of version ns _ 16] assms(1)
  by (simp add: file_safe_def image_safe_def sizeof_cell_def)

text \<open>A pool that has one block of 64 KiB, for examples.\<close>

definition small_pool :: "64 kernel" where
  "small_pool = \<lparr>mem_align = 16, pool_alloc = (\<lambda>n. if n < 0x10000 then Some 65536 else None)\<rparr>"

lemma small_pool_sane: "pool_sane small_pool"
proof -
  have "unat n < 65536" if "n < 0x10000" for n :: u64
    using that by (simp add: word_less_nat_alt)
  then have "65536 + unat n < 2 ^ 64" if "n < 0x10000" for n :: u64 using that by (fastforce intro: less_trans)
  then show ?thesis by (simp add: pool_sane_def small_pool_def sizeof_cell_def)
qed

end
