(* ===== verification/Protocol.thy ===== *)
theory Protocol
  imports Driver Loader_Total
begin

text \<open>
  The protocol of a file object (\<open>PawnIO/driver.cpp\<close>): what a client sees of it, as an automaton
  over the file that is loaded, and the simulation of the automaton by \<open>dispatch_irp\<close> with the
  loader, the signature check and the life of a machine behind it.
\<close>

section \<open>Simulation\<close>

text \<open>A machine that answers requests, and an automaton whose steps relate request and answer.\<close>

fun run_steps :: "('q \<Rightarrow> 's \<Rightarrow> ('r \<times> 's) option) \<Rightarrow> 'q list \<Rightarrow> 's \<Rightarrow> ('r list \<times> 's) option" where
  "run_steps step [] s = Some ([], s)"
| "run_steps step (q # qs) s = do {
     (r, s1) \<leftarrow> step q s; (rs, s2) \<leftarrow> run_steps step qs s1; Some (r # rs, s2) }"

fun spec_run :: "('a \<Rightarrow> 'q \<Rightarrow> 'r \<Rightarrow> 'a \<Rightarrow> bool) \<Rightarrow> 'a \<Rightarrow> 'q list \<Rightarrow> 'r list \<Rightarrow> 'a \<Rightarrow> bool" where
  "spec_run spec a [] [] b \<longleftrightarrow> a = b"
| "spec_run spec a (q # qs) (r # rs) b \<longleftrightarrow> (\<exists>c. spec a q r c \<and> spec_run spec c qs rs b)"
| "spec_run spec a _ _ b \<longleftrightarrow> False"

locale simulated =
  fixes step :: "'q \<Rightarrow> 's \<Rightarrow> ('r \<times> 's) option" and ok :: "'q \<Rightarrow> bool" and inv :: "'s \<Rightarrow> bool"
    and abs :: "'s \<Rightarrow> 'a" and spec :: "'a \<Rightarrow> 'q \<Rightarrow> 'r \<Rightarrow> 'a \<Rightarrow> bool"
  assumes step_simulates:
    "ok q \<Longrightarrow> inv s \<Longrightarrow> \<exists>r s'. step q s = Some (r, s') \<and> inv s' \<and> spec (abs s) q r (abs s')"
begin

lemma run_simulates:
  "\<forall>q \<in> set qs. ok q \<Longrightarrow> inv s \<Longrightarrow>
   \<exists>rs s'. run_steps step qs s = Some (rs, s') \<and> inv s' \<and> spec_run spec (abs s) qs rs (abs s')"
proof (induction qs arbitrary: s)
  case (Cons q qs)
  then obtain r s1 where q: "step q s = Some (r, s1)" "inv s1" "spec (abs s) q r (abs s1)"
    using step_simulates [of q s] by auto
  then obtain rs s2 where "run_steps step qs s1 = Some (rs, s2)" "inv s2" "spec_run spec (abs s1) qs rs (abs s2)"
    using Cons.IH [of s1] Cons.prems(1) by auto
  then show ?case using q by auto
qed simp

end

lemma spec_run_length: "spec_run spec a qs rs b \<Longrightarrow> length rs = length qs"
  by (induction spec a qs rs b rule: spec_run.induct) auto

lemma spec_run_append:
  "spec_run spec a (qs @ qs') rs b \<Longrightarrow>
   \<exists>r1 r2 c. rs = r1 @ r2 \<and> spec_run spec a qs r1 c \<and> spec_run spec c qs' r2 b"
proof (induction qs arbitrary: a rs)
  case (Cons q qs)
  then obtain r rs' d where rs: "rs = r # rs'" "spec a q r d" "spec_run spec d (qs @ qs') rs' b"
    by (cases rs) auto
  then obtain r1 r2 c where "rs' = r1 @ r2" "spec_run spec d qs r1 c" "spec_run spec c qs' r2 b"
    using Cons.IH by blast
  then show ?case using rs by (intro exI [of _ "r # r1"] exI [of _ r2] exI [of _ c]) auto
next
  case Nil
  then show ?case by (intro exI [of _ "[]"] exI [of _ rs] exI [of _ a]) simp
qed

section \<open>The automaton\<close>

text \<open>A trusted key verifies the signature of the file over the digest of its module.\<close>

definition trusted :: "('w::len, 'f, 'a) load_env \<Rightarrow> byte list \<Rightarrow> bool" where
  "trusted le file \<longleftrightarrow> (\<exists>sha256. digests (le_bcrypt le) (file_module file) sha256
     \<and> (\<exists>key \<in> set (le_keys le). verifies (le_bcrypt le) sha256 (file_sig file) key))"

text \<open>The plain reading of the module of a file.\<close>

definition file_image :: "('w::len, 'f, 'a) load_env \<Rightarrow> byte list \<Rightarrow> loader_error + 'f image" where
  "file_image le file = parse_image TYPE('w) (amx_version (le_ops le)) (file_module file) (le_natives le)"

definition exports :: "('w::len, 'f, 'a) load_env \<Rightarrow> byte list \<Rightarrow> cstring \<Rightarrow> bool" where
  "exports le file name \<longleftrightarrow> (\<exists>i x. file_image le file = Inr i \<and> map_of (im_publics i) name = Some x
     \<and> (ucast x :: 'w word) \<noteq> 0)"

text \<open>
  The state: the file that is loaded, if any.  A step: the request, the status and the
  \<open>Information\<close> of its answer.
\<close>

definition is_load :: "ctl_code \<Rightarrow> 'w::len irp \<Rightarrow> bool" where
  "is_load ctl irp \<longleftrightarrow> irp_major irp = IRP_MJ_DEVICE_CONTROL \<and> io_control_code irp = IOCTL_PIO_LOAD_BINARY ctl"

definition is_execute :: "ctl_code \<Rightarrow> 'w::len irp \<Rightarrow> bool" where
  "is_execute ctl irp \<longleftrightarrow> irp_major irp = IRP_MJ_DEVICE_CONTROL \<and> io_control_code irp = IOCTL_PIO_EXECUTE_FN ctl"

definition is_version :: "ctl_code \<Rightarrow> 'w::len irp \<Rightarrow> bool" where
  "is_version ctl irp \<longleftrightarrow> irp_major irp = IRP_MJ_DEVICE_CONTROL \<and> io_control_code irp = IOCTL_PIO_VERSION ctl"

inductive file_step ::
  "ctl_code \<Rightarrow> ('w::len, 'f, 'a) load_env \<Rightarrow> byte list option \<Rightarrow> 'w irp \<Rightarrow> ntstatus \<times> u32 \<Rightarrow> byte list option \<Rightarrow> bool"
  for ctl le
where
  create: "irp_major irp = IRP_MJ_CREATE \<Longrightarrow> file_step ctl le s irp (STATUS_SUCCESS, 0) s"
| load: "is_load ctl irp \<Longrightarrow> NT_SUCCESS st \<Longrightarrow> trusted le (sys_in irp) \<Longrightarrow> file_image le (sys_in irp) = Inr i \<Longrightarrow>
    file_step ctl le None irp (st, 0) (Some (sys_in irp))"
| load_refused: "is_load ctl irp \<Longrightarrow> \<not> NT_SUCCESS st \<Longrightarrow> file_step ctl le None irp (st, 0) None"
| load_again: "is_load ctl irp \<Longrightarrow> file_step ctl le (Some f) irp (STATUS_ALREADY_INITIALIZED, 0) (Some f)"
| execute: "is_execute ctl irp \<Longrightarrow> NT_SUCCESS st \<Longrightarrow> exports le f (request_name (sys_in irp)) \<Longrightarrow>
    take 6 (request_name (sys_in irp)) = cstr ''ioctl_'' \<Longrightarrow> file_step ctl le (Some f) irp (st, out_len irp) (Some f)"
| execute_refused: "is_execute ctl irp \<Longrightarrow> \<not> NT_SUCCESS st \<Longrightarrow> file_step ctl le (Some f) irp (st, 0) (Some f)"
| execute_nothing: "is_execute ctl irp \<Longrightarrow> file_step ctl le None irp (STATUS_INVALID_PARAMETER, 0) None"
| version: "is_version ctl irp \<Longrightarrow> out_len irp = 4 \<Longrightarrow> file_step ctl le s irp (STATUS_SUCCESS, 4) s"
| version_size: "is_version ctl irp \<Longrightarrow> out_len irp \<noteq> 4 \<Longrightarrow> file_step ctl le s irp (STATUS_INVALID_PARAMETER, 0) s"
| other: "irp_major irp \<noteq> IRP_MJ_CREATE \<Longrightarrow> \<not> is_load ctl irp \<Longrightarrow> \<not> is_execute ctl irp \<Longrightarrow> \<not> is_version ctl irp \<Longrightarrow>
    file_step ctl le s irp (STATUS_NOT_IMPLEMENTED, 0) s"

inductive_simps file_step_Some: "file_step ctl le (Some f) irp r s'"
inductive_cases file_step_to_Some: "file_step ctl le s irp r (Some f)"

section \<open>What the automaton promises\<close>

lemma file_run_keeps:
  "spec_run (file_step ctl le) (Some f) irps rs s' \<Longrightarrow> s' = Some f"
proof (induction irps arbitrary: rs)
  case Nil
  then show ?case by (cases rs) auto
next
  case (Cons irp irps)
  then obtain r rs' c where "rs = r # rs'" "file_step ctl le (Some f) irp r c" "spec_run (file_step ctl le) c irps rs' s'"
    by (cases rs) auto
  moreover from this have "c = Some f" by (auto simp: file_step_Some)
  ultimately show ?case using Cons.IH by blast
qed

text \<open>A file that is loaded at the end was loaded by a request that succeeded.\<close>

lemma file_run_loaded:
  "spec_run (file_step ctl le) None irps rs (Some f) \<Longrightarrow>
   \<exists>j < length irps. is_load ctl (irps ! j) \<and> sys_in (irps ! j) = f \<and> NT_SUCCESS (fst (rs ! j)) \<and> trusted le f"
proof (induction irps arbitrary: rs)
  case Nil
  then show ?case by (cases rs) auto
next
  case (Cons irp irps)
  then obtain r rs' c where rs: "rs = r # rs'" and st: "file_step ctl le None irp r c"
    and run: "spec_run (file_step ctl le) c irps rs' (Some f)"
    by (cases rs) auto
  show ?case
  proof (cases c)
    case None
    then obtain j where "j < length irps" "is_load ctl (irps ! j) \<and> sys_in (irps ! j) = f \<and> NT_SUCCESS (fst (rs' ! j)) \<and> trusted le f"
      using Cons.IH run by blast
    then show ?thesis using rs by (intro exI [of _ "Suc j"]) simp
  next
    case (Some g)
    then have "g = f" using file_run_keeps [of ctl le g irps rs' "Some f"] run by simp
    then show ?thesis using st rs Some by (intro exI [of _ 0]) (auto elim: file_step_to_Some)
  qed
qed

lemma file_step_load_success:
  assumes "file_step ctl le s irp (st, n) s'" and "is_load ctl irp" and "NT_SUCCESS st" and "ctl_ok ctl"
  shows "s = None \<and> s' = Some (sys_in irp)"
  using assms ioctl_values [OF assms(4)]
  by (cases rule: file_step.cases) (auto simp: is_load_def is_execute_def is_version_def)

lemma file_step_execute_success:
  assumes "file_step ctl le s irp (st, n) s'" and "is_execute ctl irp" and "NT_SUCCESS st" and "ctl_ok ctl"
  shows "\<exists>f. s = Some f \<and> exports le f (request_name (sys_in irp))
    \<and> take 6 (request_name (sys_in irp)) = cstr ''ioctl_'' \<and> n = out_len irp"
  using assms ioctl_values [OF assms(4)]
  by (cases rule: file_step.cases) (auto simp: is_load_def is_execute_def is_version_def)

section \<open>The loader behind a request\<close>

text \<open>
  What requests rely on: a pool that behaves, the signature check of a restricted build with at
  least one key and an API that reports a four-byte length, and control codes with their
  documented values.
\<close>

definition server_ok ::
  "ctl_code \<Rightarrow> ('w::len, 'f, 'a) load_env \<Rightarrow> ('w, 'w word, 'cb, 'p, 'x) vm_env \<Rightarrow> bool"
where
  "server_ok ctl le env \<longleftrightarrow> ctl_ok ctl \<and> env_ok env \<and> pool_sane (le_kernel le) \<and> \<not> le_unrestricted le \<and> le_keys le \<noteq> []
     \<and> (NT_SUCCESS (fst (object_length (le_bcrypt le))) \<longrightarrow> snd (snd (object_length (le_bcrypt le))) = 4)"

text \<open>
  A request that is not a close: a buffer in memory, whose module, if the loader accepts it, is
  one whose fix-up loop stays in the allocation.
\<close>

definition request_ok :: "('w::len, 'f, 'a) load_env \<Rightarrow> 'w irp \<Rightarrow> bool" where
  "request_ok le irp \<longleftrightarrow> irp_major irp \<noteq> IRP_MJ_CLOSE \<and> length (sys_in irp) < 2 ^ 32
     \<and> file_safe (sys_addr irp + 4 + ucast (file_sig_len (sys_in irp))) (amx_version (le_ops le))
         (file_module (sys_in irp)) (le_natives le)"

lemma load_module_total:
  fixes base :: "'w::len word" and le :: "('w, 'f, 'a) load_env"
  assumes "pool_sane (le_kernel le)"
    and "file_safe (base + 4 + ucast (file_sig_len buffer)) (amx_version (le_ops le)) (file_module buffer) (le_natives le)"
  shows "\<exists>e l. load_module le base buffer ctx = Some (e, l :: ('w, 'f, 'g, 'w word, 'a) loader)
    \<and> (e = LE_success \<longrightarrow> (\<exists>i. file_image le buffer = Inr i \<and> represents (file_module buffer) i l))"
proof -
  let ?cbs = "load_callbacks le ctx :: ('f, 'g, 'w word) callbacks_arg"
  have f: "file_safe (base + 4 + ucast (file_sig_len buffer)) (amx_version (le_ops le)) (file_module buffer) (natives ?cbs)"
    using assms(2) by (simp add: load_callbacks_def)
  obtain e and l :: "('w, 'f, 'g, 'w word, 'a) loader"
    where l: "init (le_ops le) (le_kernel le) (file_module buffer) (base + 4 + ucast (file_sig_len buffer)) ?cbs
      (empty_loader (le_amx le)) = Some (e, l)"
    using init_total [OF f assms(1), of "empty_loader (le_amx le)"] by blast
  have "\<exists>i. file_image le buffer = Inr i \<and> represents (file_module buffer) i l" if "e = LE_success"
    using init_success [OF l [unfolded that] f assms(1)] by (auto simp: file_image_def load_callbacks_def)
  then show ?thesis using l by (auto simp: load_module_def)
qed

lemma loader_ok_request:
  fixes irp :: "'w::len irp" and le :: "('w, 'f, 'a) load_env"
  assumes "pool_sane (le_kernel le)" and "request_ok le irp"
  shows "loader_ok le (sys_addr irp) (sys_in irp) (T :: ('w, 'f, 'g, 'a) vm_context itself)"
  unfolding loader_ok_def
proof
  fix ctx
  obtain e and l :: "('w, 'f, 'g, 'w word, 'a) loader"
    where "load_module le (sys_addr irp) (sys_in irp) ctx = Some (e, l)"
      "e = LE_success \<longrightarrow> (\<exists>i. file_image le (sys_in irp) = Inr i \<and> represents (file_module (sys_in irp)) i l)"
    using load_module_total [OF assms(1), of "sys_addr irp" "sys_in irp" ctx] assms(2) by (auto simp: request_ok_def)
  then show "\<exists>e l. load_module le (sys_addr irp) (sys_in irp) ctx = Some (e, l :: ('w, 'f, 'g, 'w word, 'a) loader)
      \<and> (e = LE_success \<longrightarrow> lookups_end l)"
    using represents_lookups_end by blast
qed

text \<open>What is known of a context in a file object.\<close>

definition ctx_good :: "('w::len, 'f, 'a) load_env \<Rightarrow> ('w, 'f, 'g, 'a) vm_context \<Rightarrow> bool" where
  "ctx_good le c \<longleftrightarrow> trusted le (original_bytes c)
     \<and> (\<exists>i. file_image le (original_bytes c) = Inr i \<and> represents (file_module (original_bytes c)) i (ctx_loader c))"

lemma ctx_good_lookups: "ctx_good le c \<Longrightarrow> lookups_end (ctx_loader c)"
  using represents_lookups_end by (auto simp: ctx_good_def)

lemma vm_load_good:
  fixes le :: "('w::len, 'f, 'a) load_env" and env :: "('w, 'w word, 'cb, 'p, 'x) vm_env"
  assumes "server_ok ctl le env" and "request_ok le irp"
    and "vm_load_binary le env (sys_addr irp) (sys_in irp) x = Some (st, Some c, x', evs)"
  shows "original_bytes c = sys_in irp \<and> ctx_good le (c :: ('w, 'f, 'g, 'a) vm_context)"
proof -
  have s: "load_module le (sys_addr irp) (sys_in irp) (ctx_addr c) = Some (LE_success, ctx_loader c)"
    "original_bytes c = sys_in irp" "trusted le (sys_in irp)"
    using vm_load_signed [OF assms(3)] assms(1,2) by (auto simp: server_ok_def request_ok_def trusted_def)
  have "\<exists>i. file_image le (sys_in irp) = Inr i \<and> represents (file_module (sys_in irp)) i (ctx_loader c)"
  proof -
    obtain e and l :: "('w, 'f, 'g, 'w word, 'a) loader"
      where l: "load_module le (sys_addr irp) (sys_in irp) (ctx_addr c) = Some (e, l)"
        "e = LE_success \<longrightarrow> (\<exists>i. file_image le (sys_in irp) = Inr i \<and> represents (file_module (sys_in irp)) i l)"
      using load_module_total [of le "sys_addr irp" "sys_in irp" "ctx_addr c"] assms(1,2)
      by (auto simp: server_ok_def request_ok_def)
    then show ?thesis using s(1) by simp
  qed
  then show ?thesis using s by (simp add: ctx_good_def)
qed

lemma vm_execute_success:
  assumes "vm_execute_function env (Some c) ia ib oa os x = Some (st, x', evs)" and "NT_SUCCESS st"
  shows "\<exists>fn. get_public (ctx_loader c) (request_name ib) = Some fn \<and> fn \<noteq> 0 \<and> take 6 (request_name ib) = cstr ''ioctl_''"
proof -
  let ?c = "length ib < 32 \<or> length (request_name ib) = 32 \<or> take 6 (request_name ib) \<noteq> cstr ''ioctl_''"
  have e: "vm_execute_function env (Some c) ia ib oa os x =
      (if ?c then Some (STATUS_INVALID_PARAMETER, x, [])
       else do {
         fn \<leftarrow> get_public (ctx_loader c) (request_name ib);
         if fn = 0 then Some (STATUS_OBJECT_NAME_NOT_FOUND, x, [])
         else vm_execute_mapped env (ctx_addr c) (DAT (ctx_loader c)) fn
           (ia + 4 * csize TYPE('b)) (of_nat (length ib) div csize TYPE('b) - 4) oa (of_nat os div csize TYPE('b)) x })"
    by (simp add: vm_execute_function_def Let_def)
  have c: "\<not> ?c" using assms unfolding e by (auto split: if_splits)
  then obtain fn where fn: "get_public (ctx_loader c) (request_name ib) = Some fn"
    using assms(1) unfolding e by (cases "get_public (ctx_loader c) (request_name ib)") simp_all
  then have "fn \<noteq> 0" using c assms unfolding e if_not_P [OF c] fn by auto
  then show ?thesis using c fn by blast
qed

section \<open>The simulation\<close>

text \<open>A file object: the context in it, the rest of the system, and what has happened.\<close>

type_synonym ('w, 'f, 'g, 'a, 'x, 'cb) file_state =
  "('w, 'f, 'g, 'a) vm_context option \<times> 'x \<times> ('w, 'w word, 'cb) vm_trace"

definition serve_irp ::
  "ctl_code \<Rightarrow> ('w::len, 'f, 'a) load_env \<Rightarrow> ('w, 'w word, 'cb, 'p, 'x) vm_env \<Rightarrow> 'w irp \<Rightarrow>
   ('w, 'f, 'g, 'a, 'x, 'cb) file_state \<Rightarrow> ((ntstatus \<times> u32) \<times> ('w, 'f, 'g, 'a, 'x, 'cb) file_state) option"
where
  "serve_irp ctl le env irp s = (case s of (fs, x, tr0) \<Rightarrow> do {
     (r, x', evs) \<leftarrow> dispatch_irp ctl le env fs fs irp x;
     Some ((irp_status r, information r), fs_context r, x', tr0 @ evs) })"

definition loaded_file :: "('w::len, 'f, 'g, 'a, 'x, 'cb) file_state \<Rightarrow> byte list option" where
  "loaded_file s = map_option original_bytes (fst s)"

definition file_inv :: "('w::len, 'f, 'a) load_env \<Rightarrow> ('w, 'f, 'g, 'a, 'x, 'cb) file_state \<Rightarrow> bool" where
  "file_inv le s \<longleftrightarrow> (case s of (fs, x, tr0) \<Rightarrow>
     in_order tr0 [] (ctx_blocks fs) \<and> (\<forall>c. fs = Some c \<longrightarrow> ctx_good le c))"

lemma request_of_load_good:
  fixes le :: "('w::len, 'f, 'a) load_env" and env :: "('w, 'w word, 'cb, 'p, 'x) vm_env"
  assumes ok: "server_ok ctl le env" "request_ok le irp" and inv: "\<forall>c. fs = Some c \<longrightarrow> ctx_good le c"
    and l: "is_load ctl irp" and d: "dispatch_irp ctl le env fs fs irp x = Some (r, x', evs)"
  shows "(\<forall>c. fs_context r = Some c \<longrightarrow> ctx_good le c)
    \<and> file_step ctl le (map_option original_bytes fs) irp (irp_status r, information r)
        (map_option original_bytes (fs_context r :: ('w, 'f, 'g, 'a) vm_context option))"
proof -
  have d': "load_request le env fs fs irp x = Some (r, x', evs)"
    using l d by (simp add: is_load_def dispatch_irp_def)
  show ?thesis
  proof (cases fs)
    case (Some c)
    then have "r = completed STATUS_ALREADY_INITIALIZED 0 None fs" using d' by (simp add: load_request_def)
    then show ?thesis using inv Some file_step.load_again [OF l] by (simp add: completed_def)
  next
    case None
    have lo: "loader_ok le (sys_addr irp) (sys_in irp) TYPE(('w, 'f, 'g, 'a) vm_context)"
      using ok by (intro loader_ok_request) (simp_all add: server_ok_def)
    have env: "env_ok env" using ok(1) by (simp add: server_ok_def)
    obtain st and ctx :: "('w, 'f, 'g, 'a) vm_context option" and x1 e1
      where v: "vm_load_binary le env (sys_addr irp) (sys_in irp) x = Some (st, ctx, x1, e1)" "NT_SUCCESS st \<longleftrightarrow> ctx \<noteq> None"
      using vm_load_steps [OF env loader_ok_defined [OF lo]] by blast
    show ?thesis
    proof (cases ctx)
      case None
      then have "\<not> NT_SUCCESS st" and "r = completed st 0 None None"
        using d' v \<open>fs = None\<close> by (simp_all add: load_request_def)
      then show ?thesis using \<open>fs = None\<close> file_step.load_refused [OF l] by (simp add: completed_def)
    next
      case (Some c)
      note g = vm_load_good [OF ok v(1) [unfolded Some]]
      then obtain i where i: "trusted le (sys_in irp)" "file_image le (sys_in irp) = Inr i" by (auto simp: ctx_good_def)
      have st: "NT_SUCCESS st" and "r = completed st 0 None (Some c)"
        using d' v Some \<open>fs = None\<close> by (simp_all add: load_request_def install_ctx_def)
      then show ?thesis using \<open>fs = None\<close> g file_step.load [OF l st i] by (simp add: completed_def)
    qed
  qed
qed

lemma exports_public:
  fixes c :: "('w::len, 'f, 'g, 'a) vm_context" and le :: "('w, 'f, 'a) load_env"
  assumes "ctx_good le c" and "get_public (ctx_loader c) name = Some fn" and "fn \<noteq> 0"
  shows "exports le (original_bytes c) name"
proof -
  obtain i where i: "file_image le (original_bytes c) = Inr i"
    and r: "get_public (ctx_loader c) name = Some (case map_of (im_publics i) name of None \<Rightarrow> 0 | Some x \<Rightarrow> ucast x)"
    using assms(1) by (auto simp: ctx_good_def represents_def)
  then show ?thesis using assms(2,3) by (auto simp: exports_def split: option.splits)
qed

lemma request_of_execute_good:
  fixes le :: "('w::len, 'f, 'a) load_env" and env :: "('w, 'w word, 'cb, 'p, 'x) vm_env"
  assumes ok: "server_ok ctl le env" and inv: "\<forall>c. fs = Some c \<longrightarrow> ctx_good le c"
    and l: "is_execute ctl irp" and d: "dispatch_irp ctl le env fs fs irp x = Some (r, x', evs)"
  shows "fs_context r = fs \<and> file_step ctl le (map_option original_bytes fs) irp (irp_status r, information r)
        (map_option original_bytes (fs :: ('w, 'f, 'g, 'a) vm_context option))"
proof -
  have "IOCTL_PIO_EXECUTE_FN ctl \<noteq> IOCTL_PIO_LOAD_BINARY ctl"
    using ok by (simp add: server_ok_def ioctl_values)
  then have d': "execute_request env fs irp x = Some (r, x', evs)"
    using l d by (simp add: is_execute_def dispatch_irp_def)
  show ?thesis
  proof (cases fs)
    case None
    then show ?thesis using d' l by (auto simp: execute_request_def completed_def intro: file_step.execute_nothing)
  next
    case (Some c)
    then obtain st where e: "vm_execute_function env (Some c) (sys_addr irp) (sys_in irp) (sys_addr irp) (unat (out_len irp)) x
        = Some (st, x', evs)"
      and r: "r = completed st (if NT_SUCCESS st then out_len irp else 0) None fs"
      using d' by (auto simp: execute_request_def split: bind_splits)
    show ?thesis
    proof (cases "NT_SUCCESS st")
      case True
      then obtain fn where "get_public (ctx_loader c) (request_name (sys_in irp)) = Some fn" "fn \<noteq> 0"
        and n: "take 6 (request_name (sys_in irp)) = cstr ''ioctl_''"
        using vm_execute_success [OF e] by blast
      then have "exports le (original_bytes c) (request_name (sys_in irp))"
        using exports_public inv Some by blast
      then show ?thesis using True Some r l n by (auto simp: completed_def intro: file_step.execute)
    next
      case False
      then show ?thesis using Some r l by (auto simp: completed_def intro: file_step.execute_refused)
    qed
  qed
qed

lemma request_of_other_good:
  assumes ok: "server_ok ctl le env" "request_ok le irp" and n: "\<not> is_load ctl irp" "\<not> is_execute ctl irp"
    and d: "dispatch_irp ctl le env fs fs irp x = Some (r, x', evs)"
  shows "fs_context r = fs \<and> file_step ctl le s irp (irp_status r, information r) s"
proof (cases "irp_major irp")
  case IRP_MJ_DEVICE_CONTROL
  then have "io_control_code irp \<noteq> IOCTL_PIO_LOAD_BINARY ctl" "io_control_code irp \<noteq> IOCTL_PIO_EXECUTE_FN ctl"
    using n by (simp_all add: is_load_def is_execute_def)
  then have d': "(if is_version ctl irp then Some (version_request fs irp, x, [])
      else Some (completed STATUS_NOT_IMPLEMENTED 0 None fs, x, [])) = Some (r, x', evs)"
    using d IRP_MJ_DEVICE_CONTROL by (simp add: dispatch_irp_def is_version_def)
  show ?thesis
  proof (cases "is_version ctl irp")
    case True
    then show ?thesis using d' file_step.version [OF True] file_step.version_size [OF True]
      by (auto simp: version_request_def completed_def split: if_splits)
  next
    case False
    then show ?thesis using d' IRP_MJ_DEVICE_CONTROL file_step.other [OF _ n False] by (auto simp: completed_def)
  qed
next
  case IRP_MJ_CREATE
  then show ?thesis using d by (auto simp: dispatch_irp_def completed_def intro: file_step.create)
next
  case IRP_MJ_CLOSE
  then show ?thesis using ok(2) by (simp add: request_ok_def)
next
  case IRP_MJ_other
  then show ?thesis using d n
    by (auto simp: dispatch_irp_def completed_def is_version_def intro!: file_step.other)
qed

interpretation file_object: simulated "serve_irp ctl le env" "\<lambda>irp. server_ok ctl le env \<and> request_ok le irp"
    "file_inv le" loaded_file "file_step ctl le"
  for ctl and le :: "('w::len, 'f, 'a) load_env" and env :: "('w, 'w word, 'cb, 'p, 'x) vm_env"
proof
  fix irp :: "'w irp" and s :: "('w, 'f, 'g, 'a, 'x, 'cb) file_state"
  assume ok: "server_ok ctl le env \<and> request_ok le irp" and i: "file_inv le s"
  obtain fs x tr0 where s: "s = (fs, x, tr0)" by (cases s)
  have ord: "in_order tr0 [] (ctx_blocks fs)" and good: "\<forall>c. fs = Some c \<longrightarrow> ctx_good le c"
    using i by (simp_all add: s file_inv_def)
  have lo: "loader_ok le (sys_addr irp) (sys_in irp) TYPE(('w, 'f, 'g, 'a) vm_context)"
    using ok by (intro loader_ok_request) (simp_all add: server_ok_def)
  obtain r x' evs where d: "dispatch_irp ctl le env fs fs irp x = Some (r, x', evs)"
    and e: "in_order evs (ctx_blocks fs) (ctx_blocks (fs_context r))"
    using dispatch_steps [OF _ lo, of env fs ctl x] ok good ctx_good_lookups
    by (fastforce simp: server_ok_def request_ok_def)
  have "(\<forall>c. fs_context r = Some c \<longrightarrow> ctx_good le c)
    \<and> file_step ctl le (map_option original_bytes fs) irp (irp_status r, information r) (map_option original_bytes (fs_context r))"
    using request_of_load_good [OF _ _ good _ d] request_of_execute_good [OF _ good _ d]
      request_of_other_good [OF _ _ _ _ d, where s = "map_option original_bytes fs"] ok good by metis
  then show "\<exists>r s'. serve_irp ctl le env irp s = Some (r, s') \<and> file_inv le s'
      \<and> file_step ctl le (loaded_file s) irp r (loaded_file s')"
    using d in_order_append [OF ord e] by (simp add: s serve_irp_def file_inv_def loaded_file_def)
qed

section \<open>A file object from open to close\<close>

lemma spec_run_at:
  assumes "spec_run spec a qs rs b" and "k < length qs"
  obtains c d where "spec_run spec a (take k qs) (take k rs) c" and "spec c (qs ! k) (rs ! k) d"
    and "spec_run spec d (drop (Suc k) qs) (drop (Suc k) rs) b"
proof -
  have "spec_run spec a (take k qs @ qs ! k # drop (Suc k) qs) rs b"
    using assms(1) by (simp only: id_take_nth_drop [OF assms(2), symmetric])
  from spec_run_append [OF this] obtain r1 r2 c where rs: "rs = r1 @ r2" and s1: "spec_run spec a (take k qs) r1 c"
    and s2: "spec_run spec c (qs ! k # drop (Suc k) qs) r2 b"
    by blast
  obtain r rs' where r2: "r2 = r # rs'" using s2 by (cases r2) simp_all
  then obtain d where d: "spec c (qs ! k) r d" "spec_run spec d (drop (Suc k) qs) rs' b" using s2 by auto
  have "length r1 = k" using spec_run_length [OF s1] assms(2) by simp
  then have "take k rs = r1" "rs ! k = r" "drop (Suc k) rs = rs'" by (simp_all add: rs r2 nth_append)
  then show ?thesis using that [of c d] s1 d by simp
qed

lemma one_load:
  assumes run: "spec_run (file_step ctl le) s irps rs s'" and ctl: "ctl_ok ctl"
    and k: "k < length irps" "is_load ctl (irps ! k)" "NT_SUCCESS (fst (rs ! k))"
    and j: "j < length irps" "is_load ctl (irps ! j)" "NT_SUCCESS (fst (rs ! j))"
  shows "\<not> j < k"
proof
  assume "j < k"
  obtain c d where d: "file_step ctl le c (irps ! j) (rs ! j) d"
      "spec_run (file_step ctl le) d (drop (Suc j) irps) (drop (Suc j) rs) s'"
    by (rule spec_run_at [OF run j(1)])
  have "d = Some (sys_in (irps ! j))"
    using file_step_load_success [OF _ j(2) _ ctl, of le c "fst (rs ! j)" "snd (rs ! j)" d] d(1) j(3) by simp
  moreover have n: "k - Suc j < length (drop (Suc j) irps)" using k(1) \<open>j < k\<close> by simp
  obtain e f where e: "spec_run (file_step ctl le) d (take (k - Suc j) (drop (Suc j) irps)) (take (k - Suc j) (drop (Suc j) rs)) e"
      "file_step ctl le e (drop (Suc j) irps ! (k - Suc j)) (drop (Suc j) rs ! (k - Suc j)) f"
    by (rule spec_run_at [OF d(2) n])
  moreover have "length rs = length irps" by (rule spec_run_length [OF run])
  then have "drop (Suc j) irps ! (k - Suc j) = irps ! k" "drop (Suc j) rs ! (k - Suc j) = rs ! k"
    using \<open>j < k\<close> k(1) by simp_all
  ultimately have "e = Some (sys_in (irps ! j))" "file_step ctl le e (irps ! k) (rs ! k) f"
    using file_run_keeps by auto
  then show False
    using file_step_load_success [OF _ k(2) _ ctl, of le e "fst (rs ! k)" "snd (rs ! k)" f] k(3) by simp
qed

lemma start_inv: "file_inv le (None, x, [])"
  by (simp add: file_inv_def ctx_blocks_def in_order_Nil)

text \<open>
  every sequence of requests of a file object is answered, and as the automaton allows: a
  file is loaded at most once, only when a trusted key signed it and its plain reading accepts
  it, and a function runs successfully only when the loaded file exports it under an
  \<open>ioctl_\<close> name.  When the file object is closed every pool block is given back, the mutexes
  were never taken twice, and every call of a module was announced and reported.
\<close>

theorem file_object_protocol:
  fixes le :: "('w::len, 'f, 'a) load_env" and env :: "('w, 'w word, 'cb, 'p, 'x) vm_env"
  assumes "server_ok ctl le env" and "\<forall>irp \<in> set irps. request_ok le irp" and "irp_major close = IRP_MJ_CLOSE"
  shows "\<exists>rs (fs :: ('w, 'f, 'g, 'a) vm_context option) x1 e1 r x2 e2.
    run_steps (serve_irp ctl le env) irps (None, x, []) = Some (rs, fs, x1, e1)
    \<and> spec_run (file_step ctl le) None irps rs (map_option original_bytes fs)
    \<and> dispatch_irp ctl le env fs fs close x1 = Some (r, x2, e2) \<and> irp_status r = STATUS_SUCCESS
    \<and> run_mutex (e1 @ e2) [] = Some [] \<and> bracketed (e1 @ e2) \<and> run_pool (e1 @ e2) [] = Some []"
proof -
  have ok: "\<forall>irp \<in> set irps. server_ok ctl le env \<and> request_ok le irp" using assms(1,2) by blast
  obtain rs and fs :: "('w, 'f, 'g, 'a) vm_context option" and x1 e1
    where s: "run_steps (serve_irp ctl le env) irps (None, x, []) = Some (rs, fs, x1, e1)" "file_inv le (fs, x1, e1)"
      "spec_run (file_step ctl le) None irps rs (map_option original_bytes fs)"
    using file_object.run_simulates [OF ok start_inv, of x] by (auto simp: loaded_file_def)
  have e1: "in_order e1 [] (ctx_blocks fs)" and good: "\<forall>c. fs = Some c \<longrightarrow> ctx_good le c"
    using s(2) by (simp_all add: file_inv_def)
  have env: "env_ok env" using assms(1) by (simp add: server_ok_def)
  have "\<exists>r x2 e2. dispatch_irp ctl le env fs fs close x1 = Some (r, x2, e2) \<and> irp_status r = STATUS_SUCCESS
      \<and> in_order e2 (ctx_blocks fs) []"
  proof (cases fs)
    case None
    then show ?thesis using assms(3) by (simp add: dispatch_irp_def completed_def in_order_Nil ctx_blocks_def)
  next
    case (Some c)
    obtain x2 e2 where "vm_destroy env (Some c) x1 = Some (STATUS_SUCCESS, x2, e2)" "in_order e2 (vm_blocks c) []"
      using vm_destroy_steps [OF env] ctx_good_lookups good Some by blast
    then show ?thesis using Some assms(3) by (simp add: dispatch_irp_def completed_def ctx_blocks_def)
  qed
  then show ?thesis using s in_order_append [OF e1] unfolding in_order_def by blast
qed

text \<open>
  C5: a request to run a function succeeds only after a request of the same file object that
  loaded a file which a trusted key signed and which exports a function of that \<open>ioctl_\<close> name;
  and no other load of that file object ever succeeds.
\<close>

theorem execute_after_signed_load:
  fixes le :: "('w::len, 'f, 'a) load_env" and env :: "('w, 'w word, 'cb, 'p, 'x) vm_env"
    and s :: "('w, 'f, 'g, 'a, 'x, 'cb) file_state"
  assumes "server_ok ctl le env" and "\<forall>irp \<in> set irps. request_ok le irp"
    and "run_steps (serve_irp ctl le env) irps (None, x, []) = Some (rs, s)"
    and "i < length irps" and "is_execute ctl (irps ! i)" and "NT_SUCCESS (fst (rs ! i))"
  shows "\<exists>j < i. is_load ctl (irps ! j) \<and> NT_SUCCESS (fst (rs ! j)) \<and> trusted le (sys_in (irps ! j))
    \<and> exports le (sys_in (irps ! j)) (request_name (sys_in (irps ! i)))
    \<and> take 6 (request_name (sys_in (irps ! i))) = cstr ''ioctl_''
    \<and> (\<forall>k < length irps. is_load ctl (irps ! k) \<and> NT_SUCCESS (fst (rs ! k)) \<longrightarrow> k = j)"
proof -
  have ok: "\<forall>irp \<in> set irps. server_ok ctl le env \<and> request_ok le irp" using assms(1,2) by blast
  have ctl: "ctl_ok ctl" using assms(1) by (simp add: server_ok_def)
  have run: "spec_run (file_step ctl le) None irps rs (loaded_file s)"
    using file_object.run_simulates [OF ok, of "(None, x, []) :: ('w, 'f, 'g, 'a, 'x, 'cb) file_state", OF start_inv] assms(3)
    by (auto simp: loaded_file_def)
  obtain c d where c: "spec_run (file_step ctl le) None (take i irps) (take i rs) c"
      "file_step ctl le c (irps ! i) (rs ! i) d"
    by (rule spec_run_at [OF run assms(4)])
  obtain f where f: "c = Some f" "exports le f (request_name (sys_in (irps ! i)))"
      "take 6 (request_name (sys_in (irps ! i))) = cstr ''ioctl_''"
    using file_step_execute_success [OF _ assms(5) _ ctl, of le c "fst (rs ! i)" "snd (rs ! i)" d] c(2) assms(6) by auto
  obtain j where j: "j < i" "is_load ctl (irps ! j)" "sys_in (irps ! j) = f" "NT_SUCCESS (fst (rs ! j))" "trusted le f"
    using file_run_loaded [OF c(1) [unfolded f(1)]] assms(4) by auto
  have jl: "j < length irps" using j(1) assms(4) by simp
  have "k = j" if "k < length irps" "is_load ctl (irps ! k)" "NT_SUCCESS (fst (rs ! k))" for k
    using one_load [OF run ctl that jl j(2,4)] one_load [OF run ctl jl j(2,4) that] by simp
  then show ?thesis using j f by blast
qed

section \<open>Examples\<close>

text \<open>
  A signed file: a module without \<open>main\<close> that exports \<open>ioctl_a\<close> and imports two natives.
\<close>

definition ioctl_module :: "byte list" where
  "ioctl_module =
    [112, 0, 0, 0, 0xE1, 0xF1, 11, 0, 0, 0, 8, 0,
     96, 0, 0, 0, 104, 0, 0, 0, 112, 0, 0, 0, 120, 0, 0, 0, 0xFF, 0xFF, 0xFF, 0xFF,
     60, 0, 0, 0, 68, 0, 0, 0, 84, 0, 0, 0, 84, 0, 0, 0, 84, 0, 0, 0, 0, 0, 0, 0, 0, 0, 0, 0,
     16, 0, 0, 0, 84, 0, 0, 0,
     0, 0, 0, 0, 92, 0, 0, 0,
     0, 0, 0, 0, 92, 0, 0, 0,
     105, 111, 99, 116, 108, 95, 97, 0, 110, 0, 0, 0,
     1, 0, 0, 0, 0, 0, 0, 0,
     2, 0, 0, 0, 0, 0, 0, 0]"

definition ioctl_image :: "nat image" where
  "ioctl_image =
    \<lparr>im_header = header_of ioctl_module, im_code = 1, im_data = 1, im_publics = [([105, 111, 99, 116, 108, 95, 97], 16)],
     im_natives = [7, 7], im_pubvars = []\<rparr>"

definition ioctl_file :: "byte list" where
  "ioctl_file = [1, 0, 0, 0] @ [112] @ ioctl_module"

definition ioctl_load :: "(64, nat, unit) load_env" where
  "ioctl_load = sample_load\<lparr>le_kernel := small_pool\<rparr>"

lemma ioctl_file_parts:
  "file_sig_len ioctl_file = 1" "file_sig ioctl_file = [112]" "file_module ioctl_file = ioctl_module"
  by (simp_all add: file_sig_len_def file_sig_def file_module_def ioctl_file_def le_at_def)

lemma ioctl_load_fields [simp]:
  "le_ops ioctl_load = sample_ops" "le_kernel ioctl_load = small_pool" "le_natives ioctl_load = [([110], 7)]"
  "le_amx ioctl_load = ()" "le_bcrypt ioctl_load = sample_bcrypt 4" "le_keys ioctl_load = [sample_key]"
  "le_garbage ioctl_load = [0]" "le_copy ioctl_load = Some 0x20000" "le_ctx ioctl_load = Some 0x30000"
  "\<not> le_unrestricted ioctl_load"
  by (simp_all add: ioctl_load_def sample_load_def)

lemma parse_ioctl_module: "parse_image TYPE(64) (amx_version sample_ops) ioctl_module [([110], 7)] = Inr ioctl_image"
  by (simp add: ioctl_module_def ioctl_image_def parse_eval sample_ops_def find_native_def strcmp_eq_def upt_conv_Cons)

lemma ioctl_module_safe: "file_safe (16384 :: u64) (amx_version sample_ops) ioctl_module [([110], 7 :: nat)]"
proof (rule file_safe_64)
  show "image_object (16384 :: u64) ioctl_module" by (simp add: image_object_def ioctl_module_def)
next
  fix i :: "nat image" assume "parse_image TYPE(64) (amx_version sample_ops) ioctl_module [([110], 7)] = Inr i"
  then have "i = ioctl_image" by (simp add: parse_ioctl_module)
  then show "fixup_inside TYPE(64) 16 i"
    by (simp add: fixup_inside_def layout_simps align_nat_def ioctl_image_def image_counts_def
        data_alloc_cells_def Let_def header_of_def le_at_def image_strings_def ioctl_module_def)
qed

lemma ioctl_module_size: "alloc_size 16 (image_counts ioctl_image) < (0x10000 :: u64)"
    "unat (alloc_size 16 (image_counts ioctl_image) :: u64) < 0x10000"
  by (simp_all add: alloc_size_def align_up_def sizeof_pair_def image_counts_def ioctl_image_def data_alloc_cells_def
      Let_def header_of_def ioctl_module_def le_at_def image_strings_def)

lemma ioctl_load_module:
  "\<exists>l :: (64, nat, 'g, 64 word, unit) loader. load_module ioctl_load 16379 ioctl_file ctx = Some (LE_success, l)
     \<and> get_public l (cstr ''ioctl_a'') = Some 16 \<and> get_main l = 0"
proof -
  let ?cbs = "load_callbacks ioctl_load ctx :: (nat, 'g, 64 word) callbacks_arg"
  let ?l0 = "empty_loader () :: (64, nat, 'g, 64 word, unit) loader"
  have p: "parse_image TYPE(64) (amx_version sample_ops) ioctl_module (natives ?cbs) = Inr ioctl_image"
    using parse_ioctl_module by (simp add: load_callbacks_def)
  have "image_safe TYPE(64) ioctl_image" using ioctl_module_safe parse_ioctl_module unfolding file_safe_def by blast
  then have safe: "image_fits TYPE(64) (2 * sizeof_cell TYPE(64)) ioctl_image"
    "fixup_inside TYPE(64) (2 * sizeof_cell TYPE(64)) ioctl_image" by (simp_all add: image_safe_def)
  have im: "image_object (16384 :: u64) ioctl_module" by (simp add: image_object_def ioctl_module_def)
  have a: "mem_align small_pool = 16" "2 \<le> length (im_natives ioctl_image)"
    by (simp_all add: small_pool_def ioctl_image_def)
  have "\<exists>l. init sample_ops small_pool ioctl_module 16384 ?cbs ?l0 = Some (LE_success, l)
    \<and> represents ioctl_module ioctl_image l \<and> amx_state l = () \<and> COD l = 4096 \<and> DAT l = 8192 \<and> loader_frees l = [65536]"
    by (rule init_accepts [OF im p _ safe a(2), where ?a1.0 = "()"])
      (use ioctl_module_size in \<open>simp_all add: a(1)\<close>, simp_all add: small_pool_def sample_ops_def)
  then obtain l where l: "init sample_ops small_pool ioctl_module 16384 ?cbs ?l0 = Some (LE_success, l)"
    "represents ioctl_module ioctl_image l" by blast
  have "get_main l = 0"
    using l(2) by (simp add: represents_def main_of_def ioctl_image_def header_of_def ioctl_module_def le_at_def)
  moreover have "get_public l (cstr ''ioctl_a'') = Some 16"
    using l(2) by (simp add: represents_def ioctl_image_def cstr_def)
  moreover have "load_module ioctl_load 16379 ioctl_file ctx = Some (LE_success, l)"
    using l(1) by (simp add: load_module_def ioctl_file_parts)
  ultimately show ?thesis by blast
qed

lemma ioctl_signature:
  "NT_SUCCESS (fst (check_signature (sample_bcrypt 4) [sample_key] [0] ioctl_module (length ioctl_module) [112]))"
  by (simp add: check_signature_def calculate_sha256_def verify_sig_def sample_bcrypt_def sample_key_magic
      length_sample_key, simp add: ioctl_module_def)

lemma ioctl_load_runs:
  "\<exists>(c :: (64, nat, 'g, unit) vm_context) evs.
     vm_load_binary ioctl_load vm_sample_env 16379 ioctl_file 0 = Some (STATUS_SUCCESS, Some c, 0, evs)
     \<and> get_public (ctx_loader c) (cstr ''ioctl_a'') = Some 16"
proof -
  obtain l :: "(64, nat, 'g, 64 word, unit) loader"
    where l: "load_module ioctl_load 16379 ioctl_file 0x30000 = Some (LE_success, l)"
      "get_public l (cstr ''ioctl_a'') = Some 16" "get_main l = 0"
    using ioctl_load_module by blast
  let ?c = "\<lparr>ctx_addr = 0x30000, ctx_loader = l, original_buf = 0x20000, original_bytes = ioctl_file\<rparr>"
  have size: "length ioctl_file = 117" by (simp add: ioctl_file_def ioctl_module_def)
  have "\<exists>evs. vm_load_binary_internal ioctl_load 16379 ioctl_file =
      Some (STATUS_SUCCESS, Some ?c, evs :: (64, 64 word, nat) vm_trace)"
    using l(1) ioctl_signature by (simp add: vm_load_binary_internal_def ioctl_file_parts size)
  then obtain evs where i: "vm_load_binary_internal ioctl_load 16379 ioctl_file =
      Some (STATUS_SUCCESS, Some ?c, evs :: (64, 64 word, nat) vm_trace)" by blast
  obtain e1 where e1: "notify_created vm_sample_env 0x30000 0 = Some (STATUS_SUCCESS, 0, e1)"
    using sample_notify(1) by blast
  show ?thesis using i e1 l(2,3) by (simp add: vm_load_binary_def run_main_def Let_def)
qed

text \<open>Its requests: load, run \<open>ioctl_a\<close>, load again.\<close>

definition load_irp :: "64 irp" where
  "load_irp = sample_irp IRP_MJ_DEVICE_CONTROL 0xA1B22084 ioctl_file"

definition run_irp :: "64 irp" where
  "run_irp = sample_irp IRP_MJ_DEVICE_CONTROL 0xA1B22104 sample_request"

lemma ioctl_server_ok: "server_ok doc_ctl_code ioctl_load vm_sample_env"
  by (simp add: server_ok_def doc_ctl_code_ok vm_sample_env_ok small_pool_sane sample_bcrypt_def)

lemma parse_short: "length buf < 60 \<Longrightarrow> parse_image w version buf ns = Inl LE_invalid_file"
  by (simp add: parse_image_def)

lemma ioctl_requests_ok: "request_ok ioctl_load load_irp" "request_ok ioctl_load run_irp"
proof -
  show "request_ok ioctl_load load_irp"
    using ioctl_module_safe
    by (simp add: request_ok_def load_irp_def sample_irp_def ioctl_file_parts) (simp add: ioctl_file_def ioctl_module_def)
  have "length (file_module sample_request) < 60" by (simp add: file_module_def sample_request_size)
  moreover have "file_sig_len sample_request = 0x74636F69" by (simp add: file_sig_len_def le_at_def sample_request_def cstr_def)
  ultimately show "request_ok ioctl_load run_irp"
    by (simp add: request_ok_def run_irp_def sample_irp_def sample_request_size file_safe_def parse_short image_object_def)
qed

theorem file_object_protocol_witness:
  "\<exists>rs (fs :: (64, nat, unit, unit) vm_context option) x1 e1 r x2 e2.
    run_steps (serve_irp doc_ctl_code ioctl_load vm_sample_env) [load_irp, run_irp, load_irp] (None, 0, []) = Some (rs, fs, x1, e1)
    \<and> spec_run (file_step doc_ctl_code ioctl_load) None [load_irp, run_irp, load_irp] rs (map_option original_bytes fs)
    \<and> dispatch_irp doc_ctl_code ioctl_load vm_sample_env fs fs (sample_irp IRP_MJ_CLOSE 0 []) x1 = Some (r, x2, e2)
    \<and> run_pool (e1 @ e2) [] = Some []"
  using file_object_protocol [OF ioctl_server_ok, of "[load_irp, run_irp, load_irp]" "sample_irp IRP_MJ_CLOSE 0 []" 0]
    ioctl_requests_ok by (fastforce simp: sample_irp_def)

lemma ioctl_session:
  "\<exists>st (s :: (64, nat, unit, unit, nat, nat) file_state).
    run_steps (serve_irp doc_ctl_code ioctl_load vm_sample_env) [load_irp, run_irp] (None, 0, []) =
      Some ([(STATUS_SUCCESS, 0), (st, 4)], s) \<and> NT_SUCCESS st"
proof -
  obtain c :: "(64, nat, unit, unit) vm_context" and evs
    where v: "vm_load_binary ioctl_load vm_sample_env 16379 ioctl_file 0 = Some (STATUS_SUCCESS, Some c, 0, evs)"
      "get_public (ctx_loader c) (cstr ''ioctl_a'') = Some 16"
    using ioctl_load_runs by blast
  obtain e where e: "notify_precall vm_sample_env (ctx_addr c) 16 0 = Some (STATUS_SUCCESS, 0, e)"
    using sample_notify(2) by blast
  have "\<exists>x' evs. vm_execute_function vm_sample_env (Some c) 16379 sample_request 16379 4 0 =
      Some (if AE_success = AE_success then ucast (5 :: 64 word) else STATUS_UNSUCCESSFUL, x', evs)"
    by (rule vm_execute_result [OF vm_sample_env_ok _ _ _ _ _ sample_maps sample_maps, where fn = 16
        and st = STATUS_SUCCESS and ?x3.0 = 0 and e = e])
      (simp_all add: sample_request_size sample_request_name v(2) e, simp_all add: vm_sample_env_def)
  then obtain x' evs' where x: "vm_execute_function vm_sample_env (Some c) 16379 sample_request 16379 4 0 = Some (5, x', evs')"
    by auto
  have d: "dispatch_irp doc_ctl_code ioctl_load vm_sample_env None None load_irp 0 =
      Some (completed STATUS_SUCCESS 0 None (Some c), 0, evs)"
    using v(1) by (simp add: dispatch_irp_def load_irp_def sample_irp_def ioctl_values doc_ctl_code_ok load_request_def
        install_ctx_def)
  have "dispatch_irp doc_ctl_code ioctl_load vm_sample_env (Some c) (Some c) run_irp 0 =
      Some (completed 5 4 None (Some c), x', evs')"
    using x success_5 by (simp add: dispatch_irp_def run_irp_def sample_irp_def ioctl_values doc_ctl_code_ok execute_request_def)
  then show ?thesis using d success_5 by (simp add: serve_irp_def completed_def)
qed

theorem execute_after_signed_load_witness:
  "trusted ioctl_load ioctl_file \<and> exports ioctl_load ioctl_file (cstr ''ioctl_a'')"
proof -
  obtain st and s :: "(64, nat, unit, unit, nat, nat) file_state"
    where r: "run_steps (serve_irp doc_ctl_code ioctl_load vm_sample_env) [load_irp, run_irp] (None, 0, []) =
      Some ([(STATUS_SUCCESS, 0), (st, 4)], s)" and st: "NT_SUCCESS st"
    using ioctl_session by blast
  have e: "is_execute doc_ctl_code run_irp"
    by (simp add: is_execute_def run_irp_def sample_irp_def ioctl_values doc_ctl_code_ok)
  have q: "\<forall>irp \<in> set [load_irp, run_irp]. request_ok ioctl_load irp" using ioctl_requests_ok by simp
  have "\<exists>j < 1. trusted ioctl_load (sys_in ([load_irp, run_irp] ! j))
      \<and> exports ioctl_load (sys_in ([load_irp, run_irp] ! j)) (request_name (sys_in run_irp))"
    using execute_after_signed_load [OF ioctl_server_ok q r, of 1] e st by auto
  then show ?thesis by (simp add: load_irp_def run_irp_def sample_irp_def sample_request_name)
qed

end
