(* ===== verification/Files.thy ===== *)
theory Files
  imports Protocol
begin

text \<open>
  All file objects of the driver at once: requests of different files follow each other in any
  order, on one system that the modules, the notifications and the mappings change.  Each file
  object still behaves as its automaton, whatever the others do, and can be closed and opened
  again.  A request is answered before the next one starts; the races inside one request are the
  subject of \<open>Driver\<close>, \<open>Callback_Slots\<close> and \<open>Callback_Threads\<close>.
\<close>

section \<open>Objects that share a system\<close>

definition serve_objects ::
  "('q \<Rightarrow> 'o \<times> 'x \<Rightarrow> ('r \<times> 'o \<times> 'x) option) \<Rightarrow> 'i \<times> 'q \<Rightarrow> ('i \<Rightarrow> 'o) \<times> 'x \<Rightarrow> ('r \<times> ('i \<Rightarrow> 'o) \<times> 'x) option"
where
  "serve_objects step iq s = do {
     (r, ob, x) \<leftarrow> step (snd iq) (fst s (fst iq), snd s);
     Some (r, (fst s)(fst iq := ob), x) }"

text \<open>The requests of object \<open>i\<close>, and the answers it got.\<close>

definition requests_of :: "'i \<Rightarrow> ('i \<times> 'q) list \<Rightarrow> 'q list" where
  "requests_of i qs = map snd (filter (\<lambda>q. fst q = i) qs)"

definition answers_of :: "'i \<Rightarrow> ('i \<times> 'q) list \<Rightarrow> 'r list \<Rightarrow> 'r list" where
  "answers_of i qs rs = map snd (filter (\<lambda>p. fst (fst p) = i) (zip qs rs))"

text \<open>
  The contract of one object: its answers and its own state follow the automaton in every state
  of the shared system.
\<close>

locale shared_objects =
  fixes step :: "'q \<Rightarrow> 'o \<times> 'x \<Rightarrow> ('r \<times> 'o \<times> 'x) option" and ok :: "'q \<Rightarrow> bool" and inv :: "'o \<Rightarrow> bool"
    and abs :: "'o \<Rightarrow> 'a" and spec :: "'a \<Rightarrow> 'q \<Rightarrow> 'r \<Rightarrow> 'a \<Rightarrow> bool"
  assumes object_step:
    "ok q \<Longrightarrow> inv ob \<Longrightarrow> \<exists>r ob' x'. step q (ob, x) = Some (r, ob', x') \<and> inv ob' \<and> spec (abs ob) q r (abs ob')"
begin

lemma objects_simulate:
  assumes "\<forall>q \<in> set qs. ok (snd q)" and "\<forall>i. inv (obs i)"
  shows "\<exists>rs obs' x'. run_steps (serve_objects step) qs (obs, x) = Some (rs, obs', x') \<and> (\<forall>i. inv (obs' i))
    \<and> (\<forall>i. spec_run spec (abs (obs i)) (requests_of i qs) (answers_of i qs rs) (abs (obs' i)))"
  using assms
proof (induction qs arbitrary: obs x)
  case Nil
  then show ?case by (simp add: requests_of_def answers_of_def)
next
  case (Cons q qs)
  obtain j p where q: "q = (j, p)" by (cases q)
  obtain r ob x1 where s: "step p (obs j, x) = Some (r, ob, x1)" "inv ob" "spec (abs (obs j)) p r (abs ob)"
    using object_step [of p "obs j" x] Cons.prems by (auto simp: q)
  have i: "\<forall>i. inv ((obs(j := ob)) i)" and k: "\<forall>q \<in> set qs. ok (snd q)" using Cons.prems s(2) by simp_all
  obtain rs obs' x' where t: "run_steps (serve_objects step) qs (obs(j := ob), x1) = Some (rs, obs', x')"
      "\<forall>i. inv (obs' i)"
      "\<forall>i. spec_run spec (abs ((obs(j := ob)) i)) (requests_of i qs) (answers_of i qs rs) (abs (obs' i))"
    using Cons.IH [OF k i, of x1] by blast
  have "run_steps (serve_objects step) (q # qs) (obs, x) = Some (r # rs, obs', x')"
    using s(1) t(1) by (simp add: serve_objects_def q)
  moreover have "spec_run spec (abs (obs i)) (requests_of i (q # qs)) (answers_of i (q # qs) (r # rs)) (abs (obs' i))" for i
    using t(3) [rule_format, of i] s(3) by (auto simp: requests_of_def answers_of_def q split: if_splits)
  ultimately show ?case using t(2) by blast
qed

end

section \<open>File objects\<close>

text \<open>
  A file object is its context and what has happened since it was opened.  After a close the
  object is as good as new, and the answer has the events of its life.
\<close>

type_synonym ('w, 'f, 'g, 'a, 'cb) file_object = "('w, 'f, 'g, 'a) vm_context option \<times> ('w, 'w word, 'cb) vm_trace"

definition serve_event ::
  "ctl_code \<Rightarrow> ('w::len, 'f, 'a) load_env \<Rightarrow> ('w, 'w word, 'cb, 'p, 'x) vm_env \<Rightarrow> 'w irp \<Rightarrow>
   ('w, 'f, 'g, 'a, 'cb) file_object \<times> 'x \<Rightarrow>
   (((ntstatus \<times> u32) \<times> ('w, 'w word, 'cb) vm_trace option) \<times> ('w, 'f, 'g, 'a, 'cb) file_object \<times> 'x) option"
where
  "serve_event ctl le env irp s = (case s of ((fs, tr0), x) \<Rightarrow> do {
     (r, fs', x', life) \<leftarrow> serve_irp ctl le env irp (fs, x, tr0);
     Some (if irp_major irp = IRP_MJ_CLOSE then ((r, Some life), (None, []), x') else ((r, None), (fs', life), x')) })"

text \<open>The automaton with \<open>close\<close>: everything the file object had is given back.\<close>

definition balanced_life :: "('w::len, 'w word, 'cb) vm_trace \<Rightarrow> bool" where
  "balanced_life life \<longleftrightarrow> run_mutex life [] = Some [] \<and> bracketed life \<and> run_pool life [] = Some []"

inductive event_step ::
  "ctl_code \<Rightarrow> ('w::len, 'f, 'a) load_env \<Rightarrow> byte list option \<Rightarrow> 'w irp \<Rightarrow>
   (ntstatus \<times> u32) \<times> ('w, 'w word, 'cb) vm_trace option \<Rightarrow> byte list option \<Rightarrow> bool"
  for ctl le
where
  request: "irp_major irp \<noteq> IRP_MJ_CLOSE \<Longrightarrow> file_step ctl le s irp r s' \<Longrightarrow> event_step ctl le s irp (r, None) s'"
| close: "irp_major irp = IRP_MJ_CLOSE \<Longrightarrow> balanced_life life \<Longrightarrow>
    event_step ctl le s irp ((STATUS_SUCCESS, 0), Some life) None"

definition event_ok :: "('w::len, 'f, 'a) load_env \<Rightarrow> 'w irp \<Rightarrow> bool" where
  "event_ok le irp \<longleftrightarrow> irp_major irp = IRP_MJ_CLOSE \<or> request_ok le irp"

definition object_inv :: "('w::len, 'f, 'a) load_env \<Rightarrow> ('w, 'f, 'g, 'a, 'cb) file_object \<Rightarrow> bool" where
  "object_inv le ob \<longleftrightarrow> file_inv le (fst ob, (), snd ob)"

definition object_file :: "('w::len, 'f, 'g, 'a, 'cb) file_object \<Rightarrow> byte list option" where
  "object_file ob = map_option original_bytes (fst ob)"

lemma object_inv_file: "object_inv le (fs, tr0) \<longleftrightarrow> file_inv le (fs, x, tr0)"
  by (simp add: object_inv_def file_inv_def)

lemma close_steps:
  fixes env :: "('w::len, 'w word, 'cb, 'p, 'x) vm_env" and fs :: "('w, 'f, 'g, 'a) vm_context option"
  assumes "env_ok env" and "object_inv le (fs, tr0)" and "irp_major irp = IRP_MJ_CLOSE"
  shows "\<exists>fs' x' life. serve_irp ctl le env irp (fs, x, tr0) = Some ((STATUS_SUCCESS, 0), fs', x', life) \<and> balanced_life life"
proof -
  have ord: "in_order tr0 [] (ctx_blocks fs)" and good: "\<forall>c. fs = Some c \<longrightarrow> ctx_good le c"
    using assms(2) by (simp_all add: object_inv_def file_inv_def)
  have "\<exists>r x' evs. dispatch_irp ctl le env fs fs irp x = Some (r, x', evs) \<and> irp_status r = STATUS_SUCCESS
      \<and> information r = 0 \<and> in_order evs (ctx_blocks fs) []"
  proof (cases fs)
    case None
    then show ?thesis using assms(3) by (simp add: dispatch_irp_def completed_def in_order_Nil ctx_blocks_def)
  next
    case (Some c)
    obtain x' evs where "vm_destroy env (Some c) x = Some (STATUS_SUCCESS, x', evs)" "in_order evs (vm_blocks c) []"
      using vm_destroy_steps [OF assms(1)] ctx_good_lookups good Some by blast
    then show ?thesis using Some assms(3) by (simp add: dispatch_irp_def completed_def ctx_blocks_def)
  qed
  then obtain r x' evs where d: "dispatch_irp ctl le env fs fs irp x = Some (r, x', evs)" "irp_status r = STATUS_SUCCESS"
      "information r = 0" "in_order (tr0 @ evs) [] []"
    using in_order_append [OF ord] by blast
  then show ?thesis by (auto simp: serve_irp_def balanced_life_def in_order_def)
qed

lemma serve_event_step:
  fixes le :: "('w::len, 'f, 'a) load_env" and env :: "('w, 'w word, 'cb, 'p, 'x) vm_env"
    and ob :: "('w, 'f, 'g, 'a, 'cb) file_object"
  assumes ok: "server_ok ctl le env \<and> event_ok le irp" and inv: "object_inv le ob"
  shows "\<exists>r ob' x'. serve_event ctl le env irp (ob, x) = Some (r, ob', x') \<and> object_inv le ob'
    \<and> event_step ctl le (object_file ob) irp r (object_file ob')"
proof -
  obtain fs tr0 where ob: "ob = (fs, tr0)" by (cases ob)
  show "\<exists>r ob' x'. serve_event ctl le env irp (ob, x) = Some (r, ob', x') \<and> object_inv le ob'
      \<and> event_step ctl le (object_file ob) irp r (object_file ob')"
  proof (cases "irp_major irp = IRP_MJ_CLOSE")
    case True
    have "env_ok env" using ok by (simp add: server_ok_def)
    from close_steps [OF this inv [unfolded ob] True, of ctl x]
    obtain fs' x' life where c: "serve_irp ctl le env irp (fs, x, tr0) = Some ((STATUS_SUCCESS, 0), fs', x', life)"
        "balanced_life life"
      by blast
    let ?new = "(None, []) :: ('w, 'f, 'g, 'a, 'cb) file_object"
    have "serve_event ctl le env irp (ob, x) = Some (((STATUS_SUCCESS, 0), Some life), ?new, x')"
      by (simp add: serve_event_def ob c(1) True)
    moreover have "object_inv le ?new" unfolding object_inv_def fst_conv snd_conv by (rule start_inv)
    moreover have "event_step ctl le (object_file ob) irp ((STATUS_SUCCESS, 0), Some life) (object_file ?new)"
      using event_step.close [OF True c(2)] by (simp add: object_file_def)
    ultimately show ?thesis by blast
  next
    case False
    have i: "file_inv le (fs, x, tr0)" using inv unfolding ob by (rule object_inv_file [THEN iffD1])
    have q: "server_ok ctl le env \<and> request_ok le irp" using ok False by (simp add: event_ok_def)
    from file_object.step_simulates [OF q i] obtain r s' where s: "serve_irp ctl le env irp (fs, x, tr0) = Some (r, s')"
        "file_inv le s'" "file_step ctl le (loaded_file (fs, x, tr0)) irp r (loaded_file s')"
      by blast
    obtain fs' x' life where s': "s' = (fs', x', life)" by (cases s')
    have "serve_event ctl le env irp (ob, x) = Some ((r, None), (fs', life), x')"
      by (simp add: serve_event_def ob s(1) s' False)
    moreover have "object_inv le (fs', life)" using s(2) unfolding s' by (rule object_inv_file [THEN iffD2])
    moreover have "event_step ctl le (object_file ob) irp (r, None) (object_file (fs', life))"
      using event_step.request [OF False s(3)] by (simp add: object_file_def loaded_file_def ob s')
    ultimately show ?thesis by blast
  qed
qed

interpretation files: shared_objects "serve_event ctl le env" "\<lambda>irp. server_ok ctl le env \<and> event_ok le irp"
    "object_inv le" object_file "event_step ctl le"
  for ctl and le :: "('w::len, 'f, 'a) load_env" and env :: "('w, 'w word, 'cb, 'p, 'x) vm_env"
  by unfold_locales (rule serve_event_step)

section \<open>Property\<close>

text \<open>
  C4: whatever requests arrive for whatever file objects, in any order, all are answered, and
  each file object sees its own automaton and nothing of the others: a function runs in it only
  from the signed file that was loaded into it since it was opened.  Every close gives back every
  pool block of that object, with its mutexes free and its calls announced and reported.
\<close>

theorem file_objects_are_isolated:
  fixes le :: "('w::len, 'f, 'a) load_env" and env :: "('w, 'w word, 'cb, 'p, 'x) vm_env"
  assumes "server_ok ctl le env" and "\<forall>q \<in> set qs. event_ok le (snd q)"
  shows "\<exists>rs (obs :: 'i \<Rightarrow> ('w, 'f, 'g, 'a, 'cb) file_object) x'.
    run_steps (serve_objects (serve_event ctl le env)) qs (\<lambda>_. (None, []), x) = Some (rs, obs, x')
    \<and> (\<forall>i. spec_run (event_step ctl le) None (requests_of i qs) (answers_of i qs rs) (object_file (obs i)))"
proof -
  have ok: "\<forall>q \<in> set qs. server_ok ctl le env \<and> event_ok le (snd q)" using assms by blast
  have inv: "\<forall>i :: 'i. object_inv le ((None, []) :: ('w, 'f, 'g, 'a, 'cb) file_object)"
    using start_inv by (simp add: object_inv_def)
  have none: "object_file ((None, []) :: ('w, 'f, 'g, 'a, 'cb) file_object) = None" by (simp add: object_file_def)
  from files.objects_simulate [OF ok inv, of x] show ?thesis unfolding none by blast
qed

text \<open>Two file objects: the module is loaded into one, and asked of the other and of the one.\<close>

theorem file_objects_are_isolated_witness:
  "let qs = [(False, load_irp), (True, run_irp), (False, run_irp), (False, sample_irp IRP_MJ_CLOSE 0 []), (False, run_irp)]
   in \<exists>rs (obs :: bool \<Rightarrow> (64, nat, unit, unit, nat) file_object) x'.
     run_steps (serve_objects (serve_event doc_ctl_code ioctl_load vm_sample_env)) qs (\<lambda>_. (None, []), 0) = Some (rs, obs, x')
     \<and> spec_run (event_step doc_ctl_code ioctl_load) None [run_irp] (answers_of True qs rs) (object_file (obs True))
     \<and> spec_run (event_step doc_ctl_code ioctl_load) None [load_irp, run_irp, sample_irp IRP_MJ_CLOSE 0 [], run_irp]
         (answers_of False qs rs) (object_file (obs False))"
proof -
  let ?qs = "[(False, load_irp), (True, run_irp), (False, run_irp), (False, sample_irp IRP_MJ_CLOSE 0 []), (False, run_irp)]"
  have "\<forall>q \<in> set ?qs. event_ok ioctl_load (snd q)"
    using ioctl_requests_ok by (simp add: event_ok_def sample_irp_def)
  moreover have "requests_of True ?qs = [run_irp]"
    "requests_of False ?qs = [load_irp, run_irp, sample_irp IRP_MJ_CLOSE 0 [], run_irp]"
    by (simp_all add: requests_of_def)
  ultimately show ?thesis
    using file_objects_are_isolated [OF ioctl_server_ok, of ?qs 0] unfolding Let_def by metis
qed

end
