(* ===== verification/Machine.thy ===== *)
theory Machine
  imports Native_Args Cbytes
begin

text \<open>
  What the natives of \<open>PawnIO/natives_impl_windows.cpp\<close> act on: memory, and devices and kernel
  services.  Memory is bytes by virtual address; everything else a native does to the machine
  is an event of a log, in order.  What the hardware and the kernel answer is a parameter, the
  record \<open>hw\<close>: it may depend on the log.
\<close>

section \<open>State\<close>

text \<open>
  The build: \<open>ARCH\<close> of \<open>arch_detect.h\<close>.  On \<open>X86\<close> a cell has 32 bits, else 64.
\<close>

datatype arch = X86 | X64 | A64

datatype 'c hw_event =
    InPort u16 nat
  | OutPort u16 nat u32
  | ReadMsr u32
  | WriteMsr u32 u64
  | ReadPmc u32
  | ReadXcr u32
  | WriteXcr u32 u64
  | BusGet u32 u32 u32 nat
  | BusSet u32 u32 u32 "byte list"
  | MapIo u64 'c
  | UnmapIo 'c 'c
  | PoolTake 'c
  | PoolGive 'c
  | SetAffinity 'c u16 "48 word"
  | RevertAffinity 'c u16 "48 word"
  | Delay u64
  | Stall u32
  | CallAddress 'c "'c list"
  | Smm "u32 list"
  | Execute "byte list" 'c
  | Instruction string "'c list"

record (overloaded) ('w) machine =
  ram :: "'w::len word \<Rightarrow> byte"
  hw_log :: "'w word hw_event list"

definition hw_do :: "'w word hw_event \<Rightarrow> 'w::len machine \<Rightarrow> 'w machine" where
  "hw_do e s = s\<lparr>hw_log := hw_log s @ [e]\<rparr>"

lemma hw_do_simps [simp, step_simps]:
  "ram (hw_do e s) = ram s" "hw_log (hw_do e s) = hw_log s @ [e]"
  by (simp_all add: hw_do_def)

text \<open>\<open>GROUP_AFFINITY\<close>; its three reserved words are one number.\<close>

record (overloaded) ('w) group_affinity =
  ga_mask :: "'w::len word"
  ga_group :: u16
  ga_reserved :: "48 word"

text \<open>
  The answers of the hardware and the kernel during one call of a native.  \<open>fault va n w\<close> is
  the exception an access (\<open>w\<close>: a write) of \<open>n\<close> bytes at \<open>va\<close> raises, if any; services
  that can raise give \<open>Inl\<close> the exception code.  A native that asks a bus twice gets the
  answer of the first and the second time.  \<open>pci_slot\<close> is the layout of the bit field
  \<open>PCI_SLOT_NUMBER\<close>: the device number, the function number, all else zero.
\<close>

record (overloaded) ('w) hw =
  fault :: "'w::len word \<Rightarrow> nat \<Rightarrow> bool \<Rightarrow> u32 option"
  mm_virtual_for_physical :: "u64 \<Rightarrow> 'w word"
  mm_map_io_space :: "u64 \<Rightarrow> 'w word \<Rightarrow> 'w word"
  ex_allocate_pool :: "'w word \<Rightarrow> 'w word"
  pci_slot :: "u32 \<Rightarrow> u32 \<Rightarrow> u32"
  hal_get_bus_data :: "nat \<Rightarrow> u32 \<Rightarrow> u32 \<Rightarrow> u32 \<Rightarrow> nat \<Rightarrow> u32 \<times> byte list"
  hal_set_bus_data :: "u32 \<Rightarrow> u32 \<Rightarrow> u32 \<Rightarrow> byte list \<Rightarrow> u32"
  in_port :: "u16 \<Rightarrow> nat \<Rightarrow> u32"
  rd_msr :: "u32 \<Rightarrow> u32 + u64"
  wr_msr :: "u32 \<Rightarrow> u64 \<Rightarrow> u32 option"
  cpuidex :: "u32 \<Rightarrow> u32 \<Rightarrow> u32 list"
  xgetbv :: "u32 \<Rightarrow> u32 + u64"
  xsetbv :: "u32 \<Rightarrow> u64 \<Rightarrow> u32 option"
  rd_pmc :: "u32 \<Rightarrow> u32 + u64"
  tsc :: u64
  tsc_aux :: u32
  random_step :: "'w word \<times> bool"
  table_register :: "u16 \<times> 'w word"
  mxcsr :: u32
  lwpcb :: "'w word"
  processor_count :: u32
  processor_number :: "u32 \<Rightarrow> ntstatus \<times> u16 \<times> byte"
  old_affinity :: "'w group_affinity"
  delay_status :: ntstatus
  performance_counter :: "u64 \<times> u64"
  run_code :: "'w word \<Rightarrow> 'w word list \<Rightarrow> u32 + 'w word"
  run_stub :: "byte list \<Rightarrow> 'w word \<Rightarrow> u32 + 'w word"
  smm_call :: "u32 list \<Rightarrow> u32 list \<times> bool"

text \<open>Hardware on which nothing faults and everything reads as zero, for examples.\<close>

definition quiet_hw :: "'w::len hw" where
  "quiet_hw =
    \<lparr>fault = \<lambda>_ _ _. None, mm_virtual_for_physical = \<lambda>_. 0, mm_map_io_space = \<lambda>_ _. 0,
     ex_allocate_pool = \<lambda>_. 0, pci_slot = \<lambda>d f. (d AND 31) OR push_bit 5 (f AND 7),
     hal_get_bus_data = \<lambda>_ _ _ _ _. (0, []), hal_set_bus_data = \<lambda>_ _ _ _. 0, in_port = \<lambda>_ _. 0,
     rd_msr = \<lambda>_. Inr 0, wr_msr = \<lambda>_ _. None, cpuidex = \<lambda>_ _. [0, 0, 0, 0], xgetbv = \<lambda>_. Inr 0,
     xsetbv = \<lambda>_ _. None, rd_pmc = \<lambda>_. Inr 0, tsc = 0, tsc_aux = 0, random_step = (0, False),
     table_register = (0, 0), mxcsr = 0, lwpcb = 0, processor_count = 1,
     processor_number = \<lambda>_. (STATUS_SUCCESS, 0, 0),
     old_affinity = \<lparr>ga_mask = 1, ga_group = 0, ga_reserved = 0\<rparr>, delay_status = STATUS_SUCCESS,
     performance_counter = (0, 0), run_code = \<lambda>_ _. Inr 0, run_stub = \<lambda>_ _. Inr 0,
     smm_call = \<lambda>regs. (regs, False)\<rparr>"

section \<open>Results\<close>

text \<open>
  \<open>(cell)(scell)status\<close>: an \<open>NTSTATUS\<close> is signed, so it is sign-extended.
  \<open>(cell)(scell)GetExceptionCode()\<close>: the code is an \<open>unsigned long\<close>, so it is not.
\<close>

definition status_cell :: "ntstatus \<Rightarrow> 'w::len word" where
  "status_cell st = scast st"

definition exception_cell :: "u32 \<Rightarrow> 'w::len word" where
  "exception_cell code = ucast code"

text \<open>A cell as a module tests it, \<open>status >= 0\<close>.\<close>

definition cell_ok :: "'w::len word \<Rightarrow> bool" where
  "cell_ok c \<longleftrightarrow> 0 \<le>s c"

lemma status_cell_ok:
  assumes "machine_word TYPE('w::len)"
  shows "cell_ok (status_cell st :: 'w word) \<longleftrightarrow> NT_SUCCESS st"
proof -
  have "32 \<le> LENGTH('w)" using assms by (elim machine_word_cases) simp_all
  then have "sint (scast st :: 'w word) = sint st" by (intro sint_up_scast) (simp add: is_up)
  then show ?thesis by (simp add: cell_ok_def status_cell_def NT_SUCCESS_def word_sle_eq)
qed

lemma status_cell_0 [simp]: "status_cell STATUS_SUCCESS = 0"
  by (simp add: status_cell_def STATUS_SUCCESS_def)

lemma statuses_differ:
  "(status_cell STATUS_UNSUCCESSFUL :: 'w::len word) \<noteq> status_cell STATUS_SUCCESS"
proof
  assume "(status_cell STATUS_UNSUCCESSFUL :: 'w word) = status_cell STATUS_SUCCESS"
  then have "bit (scast STATUS_UNSUCCESSFUL :: 'w word) 0 = bit (scast STATUS_SUCCESS :: 'w word) 0"
    by (simp add: status_cell_def)
  then show False by (simp add: bit_signed_iff STATUS_UNSUCCESSFUL_def STATUS_SUCCESS_def)
qed

lemma bit_31_u32: "bit (uint (p :: 32 word)) 31 \<longleftrightarrow> \<not> p < 0x80000000"
proof -
  have u: "uint p < 4294967296" "0 \<le> uint p" using unsigned_less [of p, where ?'a=int] by simp_all
  have "uint p div 2147483648 = (if uint p < 2147483648 then 0 else 1)"
    using u int_div_pos_eq [of "uint p" 2147483648 1 "uint p - 2147483648"] by simp
  then show ?thesis
    by (simp add: bit_iff_odd word_less_def)
qed

lemma sint_32: "sint (p :: 32 word) = (if p < 0x80000000 then uint p else uint p - 4294967296)"
proof -
  have "take_bit 32 (uint p) = uint p"
   by (rule take_bit_int_eq_self) (use unsigned_less [of p, where ?'a=int] in simp_all)
  then have "sint p = uint p - 2 ^ 32 * of_bool (bit (uint p) 31)"
    by (simp add: sint_uint signed_take_bit_eq_take_bit_minus)
  then show ?thesis by (simp add: bit_31_u32)
qed

lemma wrap_high_u64: "x - 4294967296 = x + 0xFFFFFFFF00000000" for x :: u64
proof -
  have "(4294967296 :: u64) + 0xFFFFFFFF00000000 = 0" by simp
  then have "- (4294967296 :: u64) = 0xFFFFFFFF00000000" by (rule minus_unique)
  then show ?thesis using diff_conv_add_uminus [of x 4294967296] by (rule subst)
qed

lemma u64_of_u32: "word_of_int (uint (p::32 word)) = (ucast p :: u64)"
  by (rule ucast_eq [symmetric])

lemma u64_of_bound: "word_of_int 4294967296 = (4294967296 :: u64)"
  by simp

lemma scast_u64: "(scast (p :: 32 word) :: u64) = (if p < 0x80000000 then ucast p else ucast p + 0xFFFFFFFF00000000)"
    by (simp only: scast_eq sint_32 if_distrib [of word_of_int] wi_hom_sub [symmetric] u64_of_u32 u64_of_bound wrap_high_u64)

text \<open>
  a failing status reaches the module as a negative cell on every build, but an exception
  code does not: on a 64-bit build every exception, failure codes included, reads as a success.
\<close>

theorem exception_reads_as_success:
  "cell_ok (exception_cell code :: 64 word)
    \<and> (cell_ok (exception_cell code :: 32 word) \<longleftrightarrow> NT_SUCCESS code)
    \<and> (cell_ok (status_cell st :: 64 word) \<longleftrightarrow> NT_SUCCESS st)
    \<and> (cell_ok (status_cell st :: 32 word) \<longleftrightarrow> NT_SUCCESS st)"
proof -
  have "signed_take_bit 63 (uint code) = uint code"
    using unsigned_less [of code, where ?'a = int]
    by (intro signed_take_bit_int_eq_self) (simp_all add: order_trans [OF _ uint_ge_0])
  then have "sint (ucast code :: 64 word) = uint code"
    by (simp add: sint_uint uint_up_ucast is_up)
  then have "cell_ok (exception_cell code :: 64 word)"
    by (simp add: cell_ok_def exception_cell_def word_sle_eq)
  then show ?thesis
    using status_cell_ok [OF machine_word_32, of st] status_cell_ok [OF machine_word_64, of st]
    by (simp add: cell_ok_def exception_cell_def NT_SUCCESS_def)
qed

section \<open>Memory\<close>

definition le_bytes :: "nat \<Rightarrow> nat \<Rightarrow> byte list" where
  "le_bytes n v = map (\<lambda>i. of_nat (v div 256 ^ i)) [0..<n]"

lemma length_le_bytes [simp]: "length (le_bytes n v) = n"
  by (simp add: le_bytes_def)

lemma le_bytes_Suc: "le_bytes (Suc n) v = of_nat v # le_bytes n (v div 256)"
proof -
  have "le_bytes (Suc n) v = of_nat v # map (\<lambda>i. of_nat (v div 256 ^ Suc i)) [0..<n]"
    unfolding le_bytes_def by (subst upt_conv_Cons) (simp_all del: upt_Suc add: map_Suc_upt [symmetric] comp_def)
  then show ?thesis by (simp add: le_bytes_def div_mult2_eq)
qed

lemma le_nat_le_bytes: "le_nat (le_bytes n v) = v mod 256 ^ n"
proof (induction n arbitrary: v)
  case 0
  then show ?case by (simp add: le_bytes_def)
next
  case (Suc n)
  then show ?case by (simp add: le_bytes_Suc unat_of_nat take_bit_eq_mod mod_mult2_eq)
qed

text \<open>Reading and writing an object of \<open>n\<close> bytes inside \<open>__try\<close>.\<close>

definition load :: "'w::len hw \<Rightarrow> nat \<Rightarrow> 'w word \<Rightarrow> 'w machine \<Rightarrow> u32 + byte list" where
  "load k n va s =
    (case fault k va n False of
       Some code \<Rightarrow> Inl code
     | None \<Rightarrow> Inr (map (\<lambda>i. ram s (va + of_nat i)) [0..<n]))"

definition put_bytes :: "'w::len word \<Rightarrow> byte list \<Rightarrow> ('w word \<Rightarrow> byte) \<Rightarrow> ('w word \<Rightarrow> byte)" where
  "put_bytes va bs m = (\<lambda>x. if unat (x - va) < length bs then bs ! unat (x - va) else m x)"

definition store :: "'w::len hw \<Rightarrow> nat \<Rightarrow> 'w word \<Rightarrow> 'w word \<Rightarrow> 'w machine \<Rightarrow> u32 + 'w machine" where
  "store k n va v s =
    (case fault k va n True of
       Some code \<Rightarrow> Inl code
     | None \<Rightarrow> Inr (s\<lparr>ram := put_bytes va (le_bytes n (unat v)) (ram s)\<rparr>))"

lemma load_store:
  fixes va :: "'w::len word"
  assumes "store k n va v s = Inr s'" and "fault k va n False = None" and "n \<le> 2 ^ LENGTH('w)"
  shows "load k n va s' = Inr (le_bytes n (unat v))"
proof -
  have "unat (of_nat i :: 'w word) = i" if "i < n" for i
    using that assms(3) by (intro unat_of_nat_small) simp
  then have "map (\<lambda>i. put_bytes va (le_bytes n (unat v)) (ram s) (va + of_nat i)) [0..<n] = le_bytes n (unat v)"
    by (intro nth_equalityI) (auto simp: put_bytes_def)
  with assms(1,2) show ?thesis by (auto simp: load_def store_def split: option.splits)
qed

lemma store_frame:
  "store k n va v s = Inr s' \<Longrightarrow> n \<le> unat (x - va) \<Longrightarrow> ram s' x = ram s x"
  by (auto simp: store_def put_bytes_def split: option.splits)

lemma store_log: "store k n va v s = Inr s' \<Longrightarrow> hw_log s' = hw_log s"
  by (auto simp: store_def split: option.splits)

end
