(* ===== verification/Natives_Memory.thy ===== *)
theory Natives_Memory
  imports Machine
begin

text \<open>
  The natives of \<open>PawnIO/natives_impl_windows.cpp\<close> that read and write memory: by physical
  and by virtual address, in 1, 2, 4 or 8 bytes, compare-exchange, mapping of device memory
  and pool blocks.  A native gets its arguments, for a \<open>cell&\<close> the value the reference has,
  and gives its result, the values of its references and the machine.
\<close>

section \<open>Virtual addresses\<close>

definition virtual_read ::
  "'w::len hw \<Rightarrow> nat \<Rightarrow> 'w word \<Rightarrow> 'w word \<Rightarrow> 'w machine \<Rightarrow> 'w word \<times> 'w word"
where
  "virtual_read k n va v s =
    (case load k n va s of
       Inr bs \<Rightarrow> (status_cell STATUS_SUCCESS, of_nat (le_nat bs))
     | Inl code \<Rightarrow> (exception_cell code, v))"

definition virtual_write ::
  "'w::len hw \<Rightarrow> nat \<Rightarrow> 'w word \<Rightarrow> 'w word \<Rightarrow> 'w machine \<Rightarrow> 'w word \<times> 'w machine"
where
  "virtual_write k n va v s =
    (case store k n va v s of
       Inr s' \<Rightarrow> (status_cell STATUS_SUCCESS, s')
     | Inl code \<Rightarrow> (exception_cell code, s))"

text \<open>
  The interlocked compare-exchange of \<open>n\<close> bytes.  Both values are converted to \<open>n\<close> bytes
  before they are compared; the code has the sizes 1, 2, 4 and 8.
\<close>

definition virtual_cmpxchg ::
  "'w::len hw \<Rightarrow> nat \<Rightarrow> 'w word \<Rightarrow> 'w word \<Rightarrow> 'w word \<Rightarrow> 'w machine \<Rightarrow> 'w word \<times> 'w machine"
where
  "virtual_cmpxchg k n va exchange comparand s =
    (if n \<notin> {1, 2, 4, 8} then (status_cell STATUS_UNSUCCESSFUL, s)
     else case fault k va n True of
       Some code \<Rightarrow> (exception_cell code, s)
     | None \<Rightarrow>
        (let old = map (\<lambda>i. ram s (va + of_nat i)) [0..<n]
         in if le_bytes n (unat comparand) = old
            then (status_cell STATUS_SUCCESS, s\<lparr>ram := put_bytes va (le_bytes n (unat exchange)) (ram s)\<rparr>)
            else (status_cell STATUS_UNSUCCESSFUL, s)))"

definition virtual_read_byte :: "'w::len hw \<Rightarrow> 'w word \<Rightarrow> 'w word \<Rightarrow> 'w machine \<Rightarrow> 'w word \<times> 'w word" where
  "virtual_read_byte k = virtual_read k 1"

definition virtual_read_word :: "'w::len hw \<Rightarrow> 'w word \<Rightarrow> 'w word \<Rightarrow> 'w machine \<Rightarrow> 'w word \<times> 'w word" where
  "virtual_read_word k = virtual_read k 2"

definition virtual_read_dword :: "'w::len hw \<Rightarrow> 'w word \<Rightarrow> 'w word \<Rightarrow> 'w machine \<Rightarrow> 'w word \<times> 'w word" where
  "virtual_read_dword k = virtual_read k 4"

definition virtual_read_qword :: "'w::len hw \<Rightarrow> 'w word \<Rightarrow> 'w word \<Rightarrow> 'w machine \<Rightarrow> 'w word \<times> 'w word" where
  "virtual_read_qword k = virtual_read k 8"

definition virtual_write_byte :: "'w::len hw \<Rightarrow> 'w word \<Rightarrow> 'w word \<Rightarrow> 'w machine \<Rightarrow> 'w word \<times> 'w machine" where
  "virtual_write_byte k = virtual_write k 1"

definition virtual_write_word :: "'w::len hw \<Rightarrow> 'w word \<Rightarrow> 'w word \<Rightarrow> 'w machine \<Rightarrow> 'w word \<times> 'w machine" where
  "virtual_write_word k = virtual_write k 2"

definition virtual_write_dword :: "'w::len hw \<Rightarrow> 'w word \<Rightarrow> 'w word \<Rightarrow> 'w machine \<Rightarrow> 'w word \<times> 'w machine" where
  "virtual_write_dword k = virtual_write k 4"

definition virtual_write_qword :: "'w::len hw \<Rightarrow> 'w word \<Rightarrow> 'w word \<Rightarrow> 'w machine \<Rightarrow> 'w word \<times> 'w machine" where
  "virtual_write_qword k = virtual_write k 8"

definition virtual_cmpxchg_byte2 ::
  "'w::len hw \<Rightarrow> 'w word \<Rightarrow> 'w word \<Rightarrow> 'w word \<Rightarrow> 'w machine \<Rightarrow> 'w word \<times> 'w machine" where
  "virtual_cmpxchg_byte2 k = virtual_cmpxchg k 1"

definition virtual_cmpxchg_word2 ::
  "'w::len hw \<Rightarrow> 'w word \<Rightarrow> 'w word \<Rightarrow> 'w word \<Rightarrow> 'w machine \<Rightarrow> 'w word \<times> 'w machine" where
  "virtual_cmpxchg_word2 k = virtual_cmpxchg k 2"

definition virtual_cmpxchg_dword2 ::
  "'w::len hw \<Rightarrow> 'w word \<Rightarrow> 'w word \<Rightarrow> 'w word \<Rightarrow> 'w machine \<Rightarrow> 'w word \<times> 'w machine" where
  "virtual_cmpxchg_dword2 k = virtual_cmpxchg k 4"

definition virtual_cmpxchg_qword2 ::
  "'w::len hw \<Rightarrow> 'w word \<Rightarrow> 'w word \<Rightarrow> 'w word \<Rightarrow> 'w machine \<Rightarrow> 'w word \<times> 'w machine" where
  "virtual_cmpxchg_qword2 k = virtual_cmpxchg k 8"

section \<open>Physical addresses\<close>

text \<open>A cell is unsigned, so \<open>(LONGLONG)pa\<close> extends it with zeros.\<close>

definition physical_read ::
  "'w::len hw \<Rightarrow> nat \<Rightarrow> 'w word \<Rightarrow> 'w word \<Rightarrow> 'w machine \<Rightarrow> 'w word \<times> 'w word"
where
  "physical_read k n pa v s =
    (let va = mm_virtual_for_physical k (ucast pa)
     in if va = 0 then (status_cell STATUS_UNSUCCESSFUL, v)
        else case load k n va s of
          Inr bs \<Rightarrow> (status_cell STATUS_SUCCESS, of_nat (le_nat bs))
        | Inl code \<Rightarrow> (exception_cell code, v))"

definition physical_write ::
  "'w::len hw \<Rightarrow> nat \<Rightarrow> 'w word \<Rightarrow> 'w word \<Rightarrow> 'w machine \<Rightarrow> 'w word \<times> 'w machine"
where
  "physical_write k n pa v s =
    (let va = mm_virtual_for_physical k (ucast pa)
     in if va = 0 then (status_cell STATUS_UNSUCCESSFUL, s)
        else case store k n va v s of
          Inr s' \<Rightarrow> (status_cell STATUS_SUCCESS, s')
        | Inl code \<Rightarrow> (exception_cell code, s))"

definition physical_read_byte :: "'w::len hw \<Rightarrow> 'w word \<Rightarrow> 'w word \<Rightarrow> 'w machine \<Rightarrow> 'w word \<times> 'w word" where
  "physical_read_byte k = physical_read k 1"

definition physical_read_word :: "'w::len hw \<Rightarrow> 'w word \<Rightarrow> 'w word \<Rightarrow> 'w machine \<Rightarrow> 'w word \<times> 'w word" where
  "physical_read_word k = physical_read k 2"

definition physical_read_dword :: "'w::len hw \<Rightarrow> 'w word \<Rightarrow> 'w word \<Rightarrow> 'w machine \<Rightarrow> 'w word \<times> 'w word" where
  "physical_read_dword k = physical_read k 4"

definition physical_read_qword :: "'w::len hw \<Rightarrow> 'w word \<Rightarrow> 'w word \<Rightarrow> 'w machine \<Rightarrow> 'w word \<times> 'w word" where
  "physical_read_qword k = physical_read k 8"

definition physical_write_byte :: "'w::len hw \<Rightarrow> 'w word \<Rightarrow> 'w word \<Rightarrow> 'w machine \<Rightarrow> 'w word \<times> 'w machine" where
  "physical_write_byte k = physical_write k 1"

definition physical_write_word :: "'w::len hw \<Rightarrow> 'w word \<Rightarrow> 'w word \<Rightarrow> 'w machine \<Rightarrow> 'w word \<times> 'w machine" where
  "physical_write_word k = physical_write k 2"

definition physical_write_dword :: "'w::len hw \<Rightarrow> 'w word \<Rightarrow> 'w word \<Rightarrow> 'w machine \<Rightarrow> 'w word \<times> 'w machine" where
  "physical_write_dword k = physical_write k 4"

definition physical_write_qword :: "'w::len hw \<Rightarrow> 'w word \<Rightarrow> 'w word \<Rightarrow> 'w machine \<Rightarrow> 'w word \<times> 'w machine" where
  "physical_write_qword k = physical_write k 8"

section \<open>Device memory and pool blocks\<close>

text \<open>Here the address goes through \<open>scell\<close>, which is signed.\<close>

definition io_space_map :: "'w::len hw \<Rightarrow> 'w word \<Rightarrow> 'w word \<Rightarrow> 'w machine \<Rightarrow> 'w word \<times> 'w machine" where
  "io_space_map k pa sz s =
    (let physical = scast pa in (mm_map_io_space k physical sz, hw_do (MapIo physical sz) s))"

definition io_space_unmap :: "'w::len word \<Rightarrow> 'w word \<Rightarrow> 'w machine \<Rightarrow> 'w machine" where
  "io_space_unmap va sz s = hw_do (UnmapIo va sz) s"

definition virtual_alloc :: "'w::len hw \<Rightarrow> 'w word \<Rightarrow> 'w machine \<Rightarrow> 'w word \<times> 'w machine" where
  "virtual_alloc k sz s = (let p = ex_allocate_pool k sz in (p, hw_do (PoolTake p) s))"

definition virtual_free :: "'w::len word \<Rightarrow> 'w machine \<Rightarrow> 'w machine" where
  "virtual_free va s = hw_do (PoolGive va) s"

section \<open>What is written is read back\<close>

text \<open>What \<open>n\<close> bytes of a cell hold.\<close>

definition cut_to :: "nat \<Rightarrow> 'w::len word \<Rightarrow> 'w word" where
  "cut_to n v = of_nat (unat v mod 256 ^ n)"

lemma access_size: "machine_word TYPE('w::len) \<Longrightarrow> n \<in> {1, 2, 4, 8 :: nat} \<Longrightarrow> n \<le> 2 ^ LENGTH('w)"
  by (elim machine_word_cases) auto

lemma virtual_write_ok:
  "fault k va n True = None \<Longrightarrow>
   virtual_write k n va v s = (status_cell STATUS_SUCCESS, s\<lparr>ram := put_bytes va (le_bytes n (unat v)) (ram s)\<rparr>)"
  by (simp add: virtual_write_def store_def)

lemma stored_bytes:
  fixes va :: "'w::len word"
  assumes "n \<le> 2 ^ LENGTH('w)"
  shows "map (\<lambda>i. put_bytes va (le_bytes n v) m (va + of_nat i)) [0..<n] = le_bytes n v"
proof -
  have "unat (of_nat i :: 'w word) = i" if "i < n" for i
    using that assms by (intro unat_of_nat_small) simp
  then show ?thesis by (intro nth_equalityI) (auto simp: put_bytes_def)
qed

lemma virtual_read_stored:
  fixes va :: "'w::len word"
  assumes "fault k va n False = None" and "n \<le> 2 ^ LENGTH('w)" and "ram s = put_bytes va (le_bytes n (unat v)) m"
  shows "virtual_read k n va r s = (status_cell STATUS_SUCCESS, cut_to n v)"
  by (simp add: virtual_read_def load_def assms(1,3) stored_bytes [OF assms(2)] le_nat_le_bytes cut_to_def)

text \<open>
  a write in 1, 2, 4 or 8 bytes that raises nothing succeeds; the read of the same size
  gives the value cut to that size, and no other byte has changed.
\<close>

theorem virtual_round_trip:
  fixes va :: "'w::len word"
  assumes "machine_word TYPE('w)" and "n \<in> {1, 2, 4, 8}"
    and "fault k va n True = None" and "fault k va n False = None"
  shows "\<exists>s'. virtual_write k n va v s = (status_cell STATUS_SUCCESS, s')
    \<and> virtual_read k n va r s' = (status_cell STATUS_SUCCESS, cut_to n v)
    \<and> (\<forall>x. n \<le> unat (x - va) \<longrightarrow> ram s' x = ram s x) \<and> hw_log s' = hw_log s"
  using virtual_write_ok [OF assms(3), of v s] virtual_read_stored [OF assms(4) access_size [OF assms(1,2)]]
  by (auto simp: put_bytes_def)

text \<open>
  a physical address is accessed through the virtual address the memory manager has for
  it: what is written there is read back through both, and an address it does not know gives
  an error and touches nothing.
\<close>

theorem physical_round_trip:
  fixes pa :: "'w::len word"
  assumes "machine_word TYPE('w)" and "n \<in> {1, 2, 4, 8}"
    and "mm_virtual_for_physical k (ucast pa) = va"
    and "fault k va n True = None" and "fault k va n False = None"
  shows "if va = 0
    then physical_write k n pa v s = (status_cell STATUS_UNSUCCESSFUL, s)
      \<and> physical_read k n pa r s = (status_cell STATUS_UNSUCCESSFUL, r)
    else \<exists>s'. physical_write k n pa v s = (status_cell STATUS_SUCCESS, s')
      \<and> physical_read k n pa r s' = (status_cell STATUS_SUCCESS, cut_to n v)
      \<and> virtual_read k n va r s' = (status_cell STATUS_SUCCESS, cut_to n v)
      \<and> (\<forall>x. n \<le> unat (x - va) \<longrightarrow> ram s' x = ram s x)"
proof (cases "va = 0")
  case True
  then show ?thesis using assms(3) by (simp add: physical_read_def physical_write_def)
next
  case False
  have "physical_write k n pa v s = virtual_write k n va v s"
    and "physical_read k n pa r s' = virtual_read k n va r s'" for s'
    using False assms(3) by (simp_all add: physical_write_def virtual_write_def physical_read_def virtual_read_def)
  with False virtual_round_trip [OF assms(1,2,4,5), of v s r] show ?thesis by auto
qed

section \<open>Compare and exchange\<close>


section \<open>Device addresses on x86\<close>

text \<open>
  \<open>physical_read\<close> and \<open>io_space_map\<close> agree on which physical address a cell means on a
  64-bit build.  On x86 they differ for every address from 2 GB up, where \<open>io_space_map\<close>
  asks for an address near the end of the 64-bit space.
\<close>

theorem io_space_map_address:
  "snd (io_space_map k (pa :: 64 word) sz s) = hw_do (MapIo (ucast pa) sz) s
    \<and> snd (io_space_map k' (pb :: 32 word) sz' s') =
      (if pb < 0x80000000 then hw_do (MapIo (ucast pb) sz') s'
       else hw_do (MapIo (ucast pb + 0xFFFFFFFF00000000) sz') s')"
proof -
  have same: "(scast pa :: u64) = ucast pa" by simp
  have "(scast pb :: u64) = (if pb < 0x80000000 then ucast pb else ucast pb + 0xFFFFFFFF00000000)"
    by (rule scast_u64)
  then show ?thesis by (simp add: io_space_map_def Let_def same)
qed

section \<open>Examples\<close>

text \<open>A machine where nothing faults, with page 0x5000 at the physical address 0x1000.\<close>

definition memory_hw :: "64 hw" where
  "memory_hw = quiet_hw\<lparr>mm_virtual_for_physical := (\<lambda>pa. if pa = 0x1000 then 0x5000 else 0)\<rparr>"

definition blank_machine :: "64 machine" where
  "blank_machine = \<lparr>ram = \<lambda>_. 0, hw_log = []\<rparr>"

lemma memory_hw_simps:
  "fault memory_hw va n w = None"
  "mm_virtual_for_physical memory_hw pa = (if pa = 0x1000 then 0x5000 else 0)"
  by (simp_all add: memory_hw_def quiet_hw_def)

theorem virtual_round_trip_witness:
  "\<exists>s'. virtual_write memory_hw 2 0x5000 0x12345 blank_machine = (status_cell STATUS_SUCCESS, s')
    \<and> virtual_read memory_hw 2 0x5000 0 s' = (status_cell STATUS_SUCCESS, 0x2345)
    \<and> ram s' 0x5002 = 0"
proof -
  have "cut_to 2 (0x12345 :: 64 word) = 0x2345" by (simp add: cut_to_def)
  then show ?thesis
    using virtual_round_trip [of 2 memory_hw "0x5000 :: 64 word" "0x12345" blank_machine 0]
    by (auto simp: memory_hw_simps blank_machine_def)
qed

theorem physical_round_trip_witness:
  "\<exists>s'. physical_write memory_hw 4 0x1000 7 blank_machine = (status_cell STATUS_SUCCESS, s')
    \<and> physical_read memory_hw 4 0x1000 0 s' = (status_cell STATUS_SUCCESS, 7)
    \<and> virtual_read memory_hw 4 0x5000 0 s' = (status_cell STATUS_SUCCESS, 7)"
proof -
  have "cut_to 4 (7 :: 64 word) = 7" by (simp add: cut_to_def)
  then show ?thesis
    using physical_round_trip [where n = 4 and k = memory_hw and pa = "0x1000" and v = 7 and s = blank_machine and r = 0]
    by (auto simp: memory_hw_simps)
qed


end
