(* ===== verification/Natives_Bus.thy ===== *)
theory Natives_Bus
  imports Machine
begin

text \<open>
  The natives of \<open>PawnIO/natives_impl_windows.cpp\<close> for the PCI configuration space and for
  I/O ports.  What the bus answers is a parameter (\<open>hal_get_bus_data\<close>,
  \<open>hal_set_bus_data\<close>): the number of bytes and the bytes it puts at the start of the buffer.
\<close>

section \<open>PCI configuration space\<close>

text \<open>The bus data services write to the start of a buffer.\<close>

definition fill_buffer :: "byte list \<Rightarrow> byte list \<Rightarrow> byte list" where
  "fill_buffer buffer bs = take (length buffer) (bs @ drop (length bs) buffer)"

lemma length_fill_buffer [simp]: "length (fill_buffer buffer bs) = length buffer"
  by (simp add: fill_buffer_def)

text \<open>\<open>PCI_SLOT_NUMBER\<close>: the fields are as wide as \<open>pci_slot\<close> makes them.\<close>

definition slot_of :: "'w::len hw \<Rightarrow> u32 \<Rightarrow> u32 \<Rightarrow> u32" where
  "slot_of k device func = pci_slot k device func"

text \<open>
  The check both directions start with: the vendor of the device in the slot.
  \<open>PCI_INVALID_VENDORID\<close> is 0xFFFF.
\<close>

definition pci_vendor_check :: "'w::len hw \<Rightarrow> u32 \<Rightarrow> u32 \<Rightarrow> ntstatus" where
  "pci_vendor_check k bus slot =
    (let (result, bs) = hal_get_bus_data k 0 bus slot 0 2;
         vendor_id = le_nat (fill_buffer [0, 0] bs)
     in if result = 0 then STATUS_NOT_FOUND
        else if result = 2 \<and> vendor_id = 0xFFFF then STATUS_DEVICE_DOES_NOT_EXIST
        else STATUS_SUCCESS)"

text \<open>\<open>pci_config_read_raw\<close>: the status, the buffer, the machine.\<close>

definition pci_config_read_raw ::
  "'w::len hw \<Rightarrow> u32 \<Rightarrow> u32 \<Rightarrow> u32 \<Rightarrow> u32 \<Rightarrow> byte list \<Rightarrow> 'w machine \<Rightarrow> ntstatus \<times> byte list \<times> 'w machine"
where
  "pci_config_read_raw k bus device func offset buffer s =
    (let n = length buffer; slot = slot_of k device func
     in if n = 0 then (STATUS_INVALID_PARAMETER, buffer, s)
        else let s1 = hw_do (BusGet bus slot 0 2) s; status = pci_vendor_check k bus slot
        in if status \<noteq> STATUS_SUCCESS then (status, buffer, s1)
           else let (result, bs) = hal_get_bus_data k 1 bus slot offset n;
                    buffer' = fill_buffer buffer bs;
                    s2 = hw_do (BusGet bus slot offset n) s1
           in if result = 0 then (STATUS_NOT_FOUND, buffer', s2)
              else if result = 2 \<and> n \<noteq> 2 then (STATUS_DEVICE_DOES_NOT_EXIST, buffer', s2)
              else if unat result \<noteq> n then (STATUS_UNSUCCESSFUL, buffer', s2)
              else (STATUS_SUCCESS, buffer', s2))"

definition pci_config_write_raw ::
  "'w::len hw \<Rightarrow> u32 \<Rightarrow> u32 \<Rightarrow> u32 \<Rightarrow> u32 \<Rightarrow> byte list \<Rightarrow> 'w machine \<Rightarrow> ntstatus \<times> 'w machine"
where
  "pci_config_write_raw k bus device func offset buffer s =
    (let n = length buffer; slot = slot_of k device func
     in if n = 0 then (STATUS_INVALID_PARAMETER, s)
        else let s1 = hw_do (BusGet bus slot 0 2) s; status = pci_vendor_check k bus slot
        in if status \<noteq> STATUS_SUCCESS then (status, s1)
           else let result = hal_set_bus_data k bus slot offset buffer;
                    s2 = hw_do (BusSet bus slot offset buffer) s1
           in (if unat result \<noteq> n then STATUS_UNSUCCESSFUL else STATUS_SUCCESS, s2))"

text \<open>\<open>pci_config_read<T>\<close>: the reference is assigned on every path.\<close>

definition pci_config_read ::
  "'w::len hw \<Rightarrow> nat \<Rightarrow> 'w word \<Rightarrow> 'w word \<Rightarrow> 'w word \<Rightarrow> 'w word \<Rightarrow> 'w machine \<Rightarrow> 'w word \<times> 'w word \<times> 'w machine"
where
  "pci_config_read k n bus device func offset s =
    (let (status, t, s') = pci_config_read_raw k (ucast bus) (ucast device) (ucast func) (ucast offset)
           (replicate n 0) s
     in (status_cell status, of_nat (le_nat t), s'))"

definition pci_config_write ::
  "'w::len hw \<Rightarrow> nat \<Rightarrow> 'w word \<Rightarrow> 'w word \<Rightarrow> 'w word \<Rightarrow> 'w word \<Rightarrow> 'w word \<Rightarrow> 'w machine \<Rightarrow> 'w word \<times> 'w machine"
where
  "pci_config_write k n bus device func offset v s =
    (let (status, s') = pci_config_write_raw k (ucast bus) (ucast device) (ucast func) (ucast offset)
           (le_bytes n (unat v)) s
     in (status_cell status, s'))"

definition pci_config_read_byte ::
  "'w::len hw \<Rightarrow> 'w word \<Rightarrow> 'w word \<Rightarrow> 'w word \<Rightarrow> 'w word \<Rightarrow> 'w machine \<Rightarrow> 'w word \<times> 'w word \<times> 'w machine" where
  "pci_config_read_byte k = pci_config_read k 1"

definition pci_config_read_word ::
  "'w::len hw \<Rightarrow> 'w word \<Rightarrow> 'w word \<Rightarrow> 'w word \<Rightarrow> 'w word \<Rightarrow> 'w machine \<Rightarrow> 'w word \<times> 'w word \<times> 'w machine" where
  "pci_config_read_word k = pci_config_read k 2"

definition pci_config_read_dword ::
  "'w::len hw \<Rightarrow> 'w word \<Rightarrow> 'w word \<Rightarrow> 'w word \<Rightarrow> 'w word \<Rightarrow> 'w machine \<Rightarrow> 'w word \<times> 'w word \<times> 'w machine" where
  "pci_config_read_dword k = pci_config_read k 4"

definition pci_config_read_qword ::
  "'w::len hw \<Rightarrow> 'w word \<Rightarrow> 'w word \<Rightarrow> 'w word \<Rightarrow> 'w word \<Rightarrow> 'w machine \<Rightarrow> 'w word \<times> 'w word \<times> 'w machine" where
  "pci_config_read_qword k = pci_config_read k 8"

definition pci_config_write_byte ::
  "'w::len hw \<Rightarrow> 'w word \<Rightarrow> 'w word \<Rightarrow> 'w word \<Rightarrow> 'w word \<Rightarrow> 'w word \<Rightarrow> 'w machine \<Rightarrow> 'w word \<times> 'w machine" where
  "pci_config_write_byte k = pci_config_write k 1"

definition pci_config_write_word ::
  "'w::len hw \<Rightarrow> 'w word \<Rightarrow> 'w word \<Rightarrow> 'w word \<Rightarrow> 'w word \<Rightarrow> 'w word \<Rightarrow> 'w machine \<Rightarrow> 'w word \<times> 'w machine" where
  "pci_config_write_word k = pci_config_write k 2"

definition pci_config_write_dword ::
  "'w::len hw \<Rightarrow> 'w word \<Rightarrow> 'w word \<Rightarrow> 'w word \<Rightarrow> 'w word \<Rightarrow> 'w word \<Rightarrow> 'w machine \<Rightarrow> 'w word \<times> 'w machine" where
  "pci_config_write_dword k = pci_config_write k 4"

definition pci_config_write_qword ::
  "'w::len hw \<Rightarrow> 'w word \<Rightarrow> 'w word \<Rightarrow> 'w word \<Rightarrow> 'w word \<Rightarrow> 'w word \<Rightarrow> 'w machine \<Rightarrow> 'w word \<times> 'w machine" where
  "pci_config_write_qword k = pci_config_write k 8"

section \<open>Ports\<close>

text \<open>The instructions take a 16-bit port; a narrower read is extended with zeros.\<close>

definition io_out_byte :: "'w::len word \<Rightarrow> 'w word \<Rightarrow> 'w machine \<Rightarrow> 'w machine" where
  "io_out_byte port v s = hw_do (OutPort (ucast port) 1 (ucast (ucast v :: 8 word))) s"

definition io_out_word :: "'w::len word \<Rightarrow> 'w word \<Rightarrow> 'w machine \<Rightarrow> 'w machine" where
  "io_out_word port v s = hw_do (OutPort (ucast port) 2 (ucast (ucast v :: 16 word))) s"

definition io_out_dword :: "'w::len word \<Rightarrow> 'w word \<Rightarrow> 'w machine \<Rightarrow> 'w machine" where
  "io_out_dword port v s = hw_do (OutPort (ucast port) 4 (ucast v)) s"

definition io_in_byte :: "'w::len hw \<Rightarrow> 'w word \<Rightarrow> 'w machine \<Rightarrow> 'w word \<times> 'w machine" where
  "io_in_byte k port s = (ucast (ucast (in_port k (ucast port) 1) :: 8 word), hw_do (InPort (ucast port) 1) s)"

definition io_in_word :: "'w::len hw \<Rightarrow> 'w word \<Rightarrow> 'w machine \<Rightarrow> 'w word \<times> 'w machine" where
  "io_in_word k port s = (ucast (ucast (in_port k (ucast port) 2) :: 16 word), hw_do (InPort (ucast port) 2) s)"

definition io_in_dword :: "'w::len hw \<Rightarrow> 'w word \<Rightarrow> 'w machine \<Rightarrow> 'w word \<times> 'w machine" where
  "io_in_dword k port s = (ucast (in_port k (ucast port) 4), hw_do (InPort (ucast port) 4) s)"

section \<open>The status of a PCI access\<close>

text \<open>The documented layout of the slot number: five bits for the device, three for the function.\<close>

definition slot_ok :: "'w::len hw \<Rightarrow> bool" where
  "slot_ok k \<longleftrightarrow> (\<forall>d f. pci_slot k d f = (d AND 31) OR push_bit 5 (f AND 7))"

text \<open>
  The documented bus data services: they put no more bytes in the buffer than they report,
  and no more than were asked for.
\<close>

definition bus_ok :: "'w::len hw \<Rightarrow> bool" where
  "bus_ok k \<longleftrightarrow> (\<forall>i bus slot offset n result bs.
     hal_get_bus_data k i bus slot offset n = (result, bs) \<longrightarrow> length bs = unat result \<and> unat result \<le> n)"

lemma fill_buffer_zeros:
  "length bs \<le> n \<Longrightarrow> fill_buffer (replicate n 0) bs = bs @ replicate (n - length bs) 0"
  by (simp add: fill_buffer_def)

lemma le_nat_zero_tail: "le_nat (bs @ replicate m 0) = le_nat bs"
proof -
  have "le_nat (replicate m 0) = 0" by (induction m) auto
  then show ?thesis by (simp add: le_nat_append)
qed

lemma vendor_invalid:
  assumes "length bs = 2"
  shows "le_nat (fill_buffer [0, 0] bs) = 0xFFFF \<longleftrightarrow> bs = [255, 255]"
proof -
  obtain a b where bs: "bs = [a, b]"
    using assms by (auto simp: numeral_2_eq_2 length_Suc_conv)
  have "unat a < 256" "unat b < 256"
    using unsigned_less [of a, where ?'a = nat] unsigned_less [of b, where ?'a = nat] by simp_all
  then have "unat a + 256 * unat b = 65535 \<longleftrightarrow> unat a = 255 \<and> unat b = 255" by linarith
  also have "\<dots> \<longleftrightarrow> a = 255 \<and> b = 255" by (simp add: word_unat_eq_iff)
  finally show ?thesis by (simp add: bs fill_buffer_def)
qed

lemma bus_okD:
  assumes "bus_ok k" and "hal_get_bus_data k i bus slot offset n = (result, bs)"
  shows "length bs = unat result" and "unat result \<le> n"
  using assms unfolding bus_ok_def by blast+

lemma vendor_check_result:
  assumes "bus_ok k" and "hal_get_bus_data k 0 bus slot 0 2 = (vres, vendor)"
  shows "pci_vendor_check k bus slot =
    (if vres = 0 then STATUS_NOT_FOUND else if vendor = [255, 255] then STATUS_DEVICE_DOES_NOT_EXIST
     else STATUS_SUCCESS)"
proof -
  have "length vendor = unat vres" using bus_okD [OF assms] by simp
  moreover have "vres = 2 \<longleftrightarrow> unat vres = 2" by (simp add: word_unat_eq_iff)
  ultimately show ?thesis
    using vendor_invalid [of vendor] by (auto simp: pci_vendor_check_def assms(2))
qed

text \<open>
  a configuration read succeeds exactly when the vendor of the slot is there and the bus
  gives all the bytes, and then the module gets these bytes as a little-endian number.  When
  it fails the module gets a negative status, and the bytes that did arrive.
\<close>

theorem pci_read_result:
  fixes bus device func offset :: "'w::len word"
  assumes "machine_word TYPE('w)" and "n \<in> {1, 2, 4, 8}" and "bus_ok k"
    and "hal_get_bus_data k 0 (ucast bus) (slot_of k (ucast device) (ucast func)) 0 2 = (vres, vendor)"
    and "hal_get_bus_data k 1 (ucast bus) (slot_of k (ucast device) (ucast func)) (ucast offset) n = (res, bs)"
    and "pci_config_read k n bus device func offset s = (ret, v, s')"
  shows "(cell_ok ret \<longleftrightarrow> vres \<noteq> 0 \<and> vendor \<noteq> [255, 255] \<and> unat res = n)
    \<and> (cell_ok ret \<longrightarrow> ret = 0 \<and> v = of_nat (le_nat bs))
    \<and> (\<not> cell_ok ret \<longrightarrow> v = 0 \<or> v = of_nat (le_nat bs))"
proof -
  let ?slot = "slot_of k (ucast device) (ucast func)"
  have n: "n \<noteq> 0" using assms(2) by auto
  have len: "length bs = unat res" "unat res \<le> n" using bus_okD [OF assms(3,5)] by simp_all
  have data: "fill_buffer (replicate n 0) bs = bs @ replicate (n - length bs) 0"
    using len by (simp add: fill_buffer_zeros)
  have two: "res = 2 \<longleftrightarrow> unat res = 2" "res = 0 \<longleftrightarrow> unat res = 0"
    by (simp_all add: word_unat_eq_iff)
  have ok: "cell_ok (status_cell st :: 'w word) \<longleftrightarrow> NT_SUCCESS st" for st
    by (rule status_cell_ok [OF assms(1)])
  have nz: "STATUS_NOT_FOUND \<noteq> STATUS_SUCCESS" "STATUS_DEVICE_DOES_NOT_EXIST \<noteq> STATUS_SUCCESS"
    by (simp_all add: status_defs)
  show ?thesis
  proof (cases "vres \<noteq> 0 \<and> vendor \<noteq> [255, 255]")
    case False
    then have "ret = status_cell (pci_vendor_check k (ucast bus) ?slot) \<and> v = 0
        \<and> \<not> NT_SUCCESS (pci_vendor_check k (ucast bus) ?slot)"
      using assms(6) n le_nat_zero_tail [of "[]" n]
      by (auto simp: pci_config_read_def pci_config_read_raw_def Let_def vendor_check_result [OF assms(3,4)]
          nz split: if_splits)
    with False show ?thesis by (auto simp: ok)
  next
    case True
    then have "v = of_nat (le_nat bs)" "ret = status_cell
        (if res = 0 then STATUS_NOT_FOUND else if res = 2 \<and> n \<noteq> 2 then STATUS_DEVICE_DOES_NOT_EXIST
         else if unat res \<noteq> n then STATUS_UNSUCCESSFUL else STATUS_SUCCESS)"
      using assms(5,6) n
      by (auto simp: pci_config_read_def pci_config_read_raw_def Let_def vendor_check_result [OF assms(3,4)]
          data le_nat_zero_tail split: if_splits)
    then show ?thesis using True n two by (auto simp: ok status_cell_0)
  qed
qed

lemma and_31: "(x :: u32) AND 31 = take_bit 5 x"
  by (simp add: take_bit_eq_mask mask_eq_decr_exp)

lemma and_7: "(x :: u32) AND 7 = take_bit 3 x"
  by (simp add: take_bit_eq_mask mask_eq_decr_exp)

lemma take_bit_u32_eq: "take_bit n (x :: u32) = take_bit n y \<longleftrightarrow> unat x mod 2 ^ n = unat y mod 2 ^ n"
  by (simp only: word_unat_eq_iff unsigned_take_bit_eq) (simp only: take_bit_eq_mod)

lemma slot_fields:
  fixes d f :: u32
  shows "take_bit 5 ((d AND 31) OR push_bit 5 (f AND 7)) = take_bit 5 d"
    and "drop_bit 5 ((d AND 31) OR push_bit 5 (f AND 7)) = take_bit 3 f"
proof -
  show "take_bit 5 ((d AND 31) OR push_bit 5 (f AND 7)) = take_bit 5 d"
    by (simp add: and_31 take_bit_or take_bit_push_bit)
  show "drop_bit 5 ((d AND 31) OR push_bit 5 (f AND 7)) = take_bit 3 f"
    unfolding and_31 and_7 by (rule bit_word_eqI) (auto simp: bit_simps)
qed

text \<open>
  the module chooses the slot with full cells, but only five bits of the device and three
  of the function count: within that range slots are distinct, and a number beyond it
  addresses another device instead of being refused.
\<close>

theorem pci_slot_aliases:
  fixes d d' f f' :: u32
  assumes "slot_ok k"
  shows "slot_of k d f = slot_of k d' f' \<longleftrightarrow> unat d mod 32 = unat d' mod 32 \<and> unat f mod 8 = unat f' mod 8"
proof -
  have "slot_of k d f = slot_of k d' f' \<longleftrightarrow> take_bit 5 d = take_bit 5 d' \<and> take_bit 3 f = take_bit 3 f'"
    using assms unfolding slot_ok_def slot_of_def by (metis and_31 and_7 slot_fields)
  then show ?thesis by (simp add: take_bit_u32_eq del: take_bit_eq_mod)
qed

section \<open>Examples\<close>

text \<open>One device in slot 8 of bus 0 (device 8, function 0), whose configuration reads as 1, 2, 3, ...\<close>

definition pci_hw :: "64 hw" where
  "pci_hw = quiet_hw\<lparr>hal_get_bus_data := (\<lambda>i bus slot offset n.
     if bus = 0 \<and> slot = 8 then (if i = 0 then (of_nat (min n 2), take n [0x86, 0x80]) else (of_nat (min n 4), take n [1, 2, 3, 4]))
     else (0, []))\<rparr>"

lemma pci_hw_ok: "bus_ok pci_hw" and pci_hw_slots: "slot_ok pci_hw"
proof -
  have "unat (of_nat (min n m) :: u32) = min n m" if "m \<le> 4" for n m :: nat
    using that by (intro unat_of_nat_small) simp
  then show "bus_ok pci_hw"
    by (auto simp: bus_ok_def pci_hw_def quiet_hw_def split: if_splits)
  show "slot_ok pci_hw" by (simp add: slot_ok_def pci_hw_def quiet_hw_def)
qed

theorem pci_slot_aliases_witness: "slot_of pci_hw 8 0 = slot_of pci_hw 40 8 \<and> slot_of pci_hw 8 0 \<noteq> slot_of pci_hw 9 0"
  by (simp add: pci_slot_aliases [OF pci_hw_slots])

theorem pci_read_result_witness:
  "\<exists>s'. pci_config_read pci_hw 4 0 8 0 0 \<lparr>ram = \<lambda>_. 0, hw_log = []\<rparr> = (0, 0x4030201, s')"
proof -
  obtain ret v s' where r: "pci_config_read pci_hw 4 0 8 0 0 \<lparr>ram = \<lambda>_. 0, hw_log = []\<rparr> = (ret, v, s')"
    by (metis prod_cases3)
  have slot: "slot_of pci_hw 8 0 = 8" by (simp add: slot_of_def pci_hw_def quiet_hw_def)
  have "hal_get_bus_data pci_hw 0 (ucast (0 :: 64 word)) (slot_of pci_hw (ucast (8 :: 64 word)) (ucast (0 :: 64 word))) 0 2 = (2, [0x86, 0x80])"
    and "hal_get_bus_data pci_hw 1 (ucast (0 :: 64 word)) (slot_of pci_hw (ucast (8 :: 64 word)) (ucast (0 :: 64 word))) (ucast (0 :: 64 word)) 4 = (4, [1, 2, 3, 4])"
    by (simp_all add: slot) (simp_all add: pci_hw_def)
  from pci_read_result [OF machine_word_64 _ pci_hw_ok this r] r show ?thesis by simp
qed

end
