(* ===== verification/Natives_Cpu.thy ===== *)
theory Natives_Cpu
  imports Machine
begin

text \<open>
  The natives of \<open>PawnIO/natives_impl_windows.cpp\<close> for the processor: affinity, time,
  model-specific registers, identification, descriptor tables, calls of kernel code, and
  single instructions.  An instruction outside \<open>__try\<close> that faults stops the system; the
  definitions say what happens when it does not.
\<close>

section \<open>Processors and affinity\<close>

text \<open>\<open>ARCH\<close>\<close>

definition get_arch :: "arch \<Rightarrow> 'w::len word" where
  "get_arch a = (case a of X86 \<Rightarrow> 0 | X64 \<Rightarrow> 1 | A64 \<Rightarrow> 2)"

definition cpu_count :: "'w::len hw \<Rightarrow> 'w word" where
  "cpu_count k = ucast (processor_count k)"

text \<open>
  The two cells a group affinity is kept in.  On a 64-bit build they are a copy of the
  structure: the mask, then the group and the reserved words; on x86 the mask and the group.
\<close>

definition save_affinity :: "'w::len group_affinity \<Rightarrow> 'w word list" where
  "save_affinity ga =
    (if LENGTH('w) = 32 then [ga_mask ga, ucast (ga_group ga)]
     else [ga_mask ga, ucast (ga_group ga) OR push_bit 16 (ucast (ga_reserved ga))])"

definition load_affinity :: "'w::len word list \<Rightarrow> 'w group_affinity" where
  "load_affinity old =
    (if LENGTH('w) = 32 then \<lparr>ga_mask = old ! 0, ga_group = ucast (old ! 1), ga_reserved = 0\<rparr>
     else \<lparr>ga_mask = old ! 0, ga_group = ucast (old ! 1), ga_reserved = ucast (drop_bit 16 (old ! 1))\<rparr>)"

text \<open>A shift by the width of its operand or more has no defined result.\<close>

definition cpu_set_affinity ::
  "'w::len hw \<Rightarrow> 'w word \<Rightarrow> 'w word list \<Rightarrow> 'w machine \<Rightarrow> ('w word \<times> 'w word list \<times> 'w machine) option"
where
  "cpu_set_affinity k which old s =
    (let (status, group, number) = processor_number k (ucast which)
     in if \<not> NT_SUCCESS status then Some (status_cell status, old, s)
        else if unat number \<ge> LENGTH('w) then None
        else let old_ga = old_affinity k
        in Some (status_cell (if ga_group old_ga = 0 \<and> ga_mask old_ga = 0 then STATUS_UNSUCCESSFUL else STATUS_SUCCESS),
             save_affinity old_ga, hw_do (SetAffinity (push_bit (unat number) 1) group 0) s))"

definition cpu_restore_affinity :: "'w::len word list \<Rightarrow> 'w machine \<Rightarrow> 'w word \<times> 'w machine" where
  "cpu_restore_affinity old s =
    (let ga = load_affinity old
     in if ga_group ga = 0 \<and> ga_mask ga = 0 then (status_cell STATUS_UNSUCCESSFUL, s)
        else (status_cell STATUS_SUCCESS,
          hw_do (RevertAffinity (ga_mask ga) (ga_group ga) (ga_reserved ga)) s))"

section \<open>Time\<close>

text \<open>
  \<open>li.QuadPart = (scell)us * -10\<close>: the product is an \<open>scell\<close>; when it overflows there is no
  defined result.
\<close>

definition microsleep :: "'w::len hw \<Rightarrow> 'w word \<Rightarrow> 'w machine \<Rightarrow> ('w word \<times> 'w machine) option" where
  "microsleep k us s =
    (let ticks = sint us * - 10
     in if ticks < - (2 ^ (LENGTH('w) - 1)) \<or> ticks \<ge> 2 ^ (LENGTH('w) - 1) then None
        else Some (status_cell (delay_status k), hw_do (Delay (word_of_int ticks)) s))"

definition microsleep2 :: "'w::len word \<Rightarrow> 'w machine \<Rightarrow> 'w word \<times> 'w machine" where
  "microsleep2 us s = (status_cell STATUS_SUCCESS, hw_do (Stall (ucast us)) s)"

text \<open>The result and the reference \<open>frequency\<close>.\<close>

definition qpc :: "'w::len hw \<Rightarrow> 'w word \<times> 'w word" where
  "qpc k = (let (v, freq) = performance_counter k in (ucast v, ucast freq))"

definition rdtsc :: "'w::len hw \<Rightarrow> 'w word" where
  "rdtsc k = ucast (tsc k)"

definition rdtscp :: "'w::len hw \<Rightarrow> 'w word \<times> 'w word" where
  "rdtscp k = (ucast (tsc k), ucast (tsc_aux k))"

section \<open>Registers read and written inside \<open>__try\<close>\<close>

definition guarded_read :: "u32 + u64 \<Rightarrow> 'w::len word \<times> 'w word" where
  "guarded_read r =
    (case r of Inr v \<Rightarrow> (status_cell STATUS_SUCCESS, ucast v) | Inl code \<Rightarrow> (exception_cell code, 0))"

definition guarded_write :: "u32 option \<Rightarrow> 'w::len word" where
  "guarded_write r = (case r of None \<Rightarrow> status_cell STATUS_SUCCESS | Some code \<Rightarrow> exception_cell code)"

text \<open>\<open>msr_read\<close> and \<open>msr_write\<close> of x64.\<close>

definition msr_read :: "'w::len hw \<Rightarrow> 'w word \<Rightarrow> 'w machine \<Rightarrow> 'w word \<times> 'w word \<times> 'w machine" where
  "msr_read k msr s =
    (let (ret, v) = guarded_read (rd_msr k (ucast msr)) in (ret, v, hw_do (ReadMsr (ucast msr)) s))"

definition msr_write :: "'w::len hw \<Rightarrow> 'w word \<Rightarrow> 'w word \<Rightarrow> 'w machine \<Rightarrow> 'w word \<times> 'w machine" where
  "msr_write k msr v s =
    (guarded_write (wr_msr k (ucast msr) (ucast v)), hw_do (WriteMsr (ucast msr) (ucast v)) s)"

text \<open>Those of x86: a value is cut to a cell when it is read, and extended by zeros when it is written.\<close>

definition msr_read_x86 :: "32 hw \<Rightarrow> u32 \<Rightarrow> 32 machine \<Rightarrow> u32 \<times> u32 \<times> 32 machine" where
  "msr_read_x86 k msr s =
    (let s' = hw_do (ReadMsr msr) s
     in case rd_msr k msr of
          Inr v \<Rightarrow> (status_cell STATUS_SUCCESS, ucast v, s')
        | Inl code \<Rightarrow> (exception_cell code, 0, s'))"

definition msr_write_x86 :: "32 hw \<Rightarrow> u32 \<Rightarrow> u32 \<Rightarrow> 32 machine \<Rightarrow> u32 \<times> 32 machine" where
  "msr_write_x86 k msr v s =
    (let s' = hw_do (WriteMsr msr (ucast v)) s
     in case wr_msr k msr (ucast v) of
          None \<Rightarrow> (status_cell STATUS_SUCCESS, s')
        | Some code \<Rightarrow> (exception_cell code, s'))"

text \<open>Writing back what was read clears the upper half of the register.\<close>

lemma msr_upper_half_lost_x86:
  assumes "rd_msr k msr = Inr v" and "msr_read_x86 k msr s = (r, c, s1)" and "msr_write_x86 k msr c s1 = (r', s2)"
  shows "s2 = hw_do (WriteMsr msr (v AND 0xFFFFFFFF)) s1"
proof -
  have "c = ucast v" using assms(1,2) by (simp add: msr_read_x86_def Let_def)
  moreover have "ucast (ucast v :: u32) = v AND mask 32"
    by (rule bit_word_eqI) (auto simp: bit_simps)
  ultimately have "ucast c = v AND 0xFFFFFFFF" by (simp add: mask_eq_exp_minus_1)
  then show ?thesis using assms(3) by (auto simp: msr_write_x86_def Let_def split: option.splits)
qed

definition xcr_read :: "'w::len hw \<Rightarrow> 'w word \<Rightarrow> 'w machine \<Rightarrow> 'w word \<times> 'w word \<times> 'w machine" where
  "xcr_read k xcr s =
    (let (ret, v) = guarded_read (xgetbv k (ucast xcr)) in (ret, v, hw_do (ReadXcr (ucast xcr)) s))"

definition xcr_write :: "'w::len hw \<Rightarrow> 'w word \<Rightarrow> 'w word \<Rightarrow> 'w machine \<Rightarrow> 'w word \<times> 'w machine" where
  "xcr_write k xcr v s =
    (guarded_write (xsetbv k (ucast xcr) (ucast v)), hw_do (WriteXcr (ucast xcr) (ucast v)) s)"

definition readpmc :: "'w::len hw \<Rightarrow> 'w word \<Rightarrow> 'w machine \<Rightarrow> 'w word \<times> 'w word \<times> 'w machine" where
  "readpmc k pmc s =
    (let (ret, v) = guarded_read (rd_pmc k (ucast pmc)) in (ret, v, hw_do (ReadPmc (ucast pmc)) s))"

section \<open>Identification, random numbers, system management\<close>

text \<open>\<open>out[i] = out32[i]\<close>: the elements are \<open>int\<close>, so they are sign-extended.\<close>

definition cpuid :: "'w::len hw \<Rightarrow> 'w word \<Rightarrow> 'w word \<Rightarrow> 'w word list" where
  "cpuid k leaf subleaf = map scast (cpuidex k (ucast leaf) (ucast subleaf))"

definition rdrand :: "'w::len hw \<Rightarrow> 'w word \<times> 'w word" where
  "rdrand k = (let (v, ok) = random_step k in (of_bool ok, v))"

definition rdseed :: "'w::len hw \<Rightarrow> 'w word \<times> 'w word" where
  "rdseed k = (let (v, ok) = random_step k in (of_bool ok, v))"

text \<open>\<open>query_dell_smm\<close> of x64: six registers in, six out; \<open>_dell\<close> returns the carry flag.\<close>

definition query_dell_smm ::
  "'w::len hw \<Rightarrow> 'w word list \<Rightarrow> 'w machine \<Rightarrow> 'w word \<times> 'w word list \<times> 'w machine"
where
  "query_dell_smm k inp s =
    (let regs = map ucast inp;
         (regs', carry) = smm_call k regs
     in (of_bool (\<not> carry \<and> regs' ! 0 AND 0xFFFF \<noteq> 0xFFFF \<and> regs' ! 0 \<noteq> ucast (inp ! 0)),
         map ucast regs', hw_do (Smm regs) s))"

text \<open>The one of x86 passes only the first register.\<close>

definition query_dell_smm_x86 ::
  "'w::len hw \<Rightarrow> 'w word list \<Rightarrow> 'w machine \<Rightarrow> 'w word \<times> 'w word list \<times> 'w machine"
where
  "query_dell_smm_x86 k inp s =
    (let result = hd (fst (smm_call k [ucast (inp ! 0)]))
     in (of_bool (result \<noteq> 0xFFFF), ucast result # tl inp, hw_do (Smm [ucast (inp ! 0)]) s))"

section \<open>Calls of kernel code\<close>

text \<open>\<open>invoke\<close>: the address gets sixteen arguments.\<close>

definition invoke ::
  "'w::len hw \<Rightarrow> 'w word \<Rightarrow> 'w word \<Rightarrow> 'w word list \<Rightarrow> 'w machine \<Rightarrow> 'w word \<times> 'w word \<times> 'w machine"
where
  "invoke k address retval args s =
    (case run_code k address args of
       Inr r \<Rightarrow> (status_cell STATUS_SUCCESS, r, hw_do (CallAddress address args) s)
     | Inl code \<Rightarrow> (exception_cell code, retval, hw_do (CallAddress address args) s))"

section \<open>Descriptor tables and single instructions\<close>

text \<open>\<open>lidt\<close> and \<open>lgdt\<close>: the limit is cut to 16 bits.  \<open>sidt\<close> and \<open>sgdt\<close> give limit and base.\<close>

definition load_table :: "string \<Rightarrow> 'w::len word \<Rightarrow> 'w word \<Rightarrow> 'w machine \<Rightarrow> 'w machine" where
  "load_table name limit base s = hw_do (Instruction name [ucast (ucast limit :: u16), base]) s"

definition lidt :: "'w::len word \<Rightarrow> 'w word \<Rightarrow> 'w machine \<Rightarrow> 'w machine" where
  "lidt = load_table ''lidt''"

definition lgdt :: "'w::len word \<Rightarrow> 'w word \<Rightarrow> 'w machine \<Rightarrow> 'w machine" where
  "lgdt = load_table ''lgdt''"

definition sidt :: "'w::len hw \<Rightarrow> 'w word \<times> 'w word" where
  "sidt k = (let (limit, base) = table_register k in (ucast limit, base))"

definition sgdt :: "'w::len hw \<Rightarrow> 'w word \<times> 'w word" where
  "sgdt k = (let (limit, base) = table_register k in (ucast limit, base))"

definition mxcsr_read :: "'w::len hw \<Rightarrow> 'w word" where
  "mxcsr_read k = ucast (mxcsr k)"

definition mxcsr_write :: "'w::len word \<Rightarrow> 'w machine \<Rightarrow> 'w machine" where
  "mxcsr_write v s = hw_do (Instruction ''ldmxcsr'' [ucast (ucast v :: u32)]) s"

definition llwpcb :: "'w::len word \<Rightarrow> 'w machine \<Rightarrow> 'w machine" where
  "llwpcb addr s = hw_do (Instruction ''llwpcb'' [addr]) s"

definition slwpcb :: "'w::len hw \<Rightarrow> 'w word" where
  "slwpcb k = lwpcb k"

definition invlpg :: "'w::len word \<Rightarrow> 'w machine \<Rightarrow> 'w machine" where
  "invlpg va s = hw_do (Instruction ''invlpg'' [va]) s"

definition invpcid :: "'w::len word \<Rightarrow> 'w word \<Rightarrow> 'w machine \<Rightarrow> 'w machine" where
  "invpcid type descriptor s = hw_do (Instruction ''invpcid'' [ucast (ucast type :: u32), descriptor]) s"

text \<open>The natives without arguments that are one instruction each.\<close>

definition plain_instruction :: "string \<Rightarrow> 'w::len machine \<Rightarrow> 'w machine" where
  "plain_instruction name s = hw_do (Instruction name []) s"

definition interrupts_disable :: "'w::len machine \<Rightarrow> 'w machine" where
  "interrupts_disable = plain_instruction ''cli''"

definition interrupts_enable :: "'w::len machine \<Rightarrow> 'w machine" where
  "interrupts_enable = plain_instruction ''sti''"

definition stac :: "'w::len machine \<Rightarrow> 'w machine" where "stac = plain_instruction ''stac''"
definition clac :: "'w::len machine \<Rightarrow> 'w machine" where "clac = plain_instruction ''clac''"
definition halt :: "'w::len machine \<Rightarrow> 'w machine" where "halt = plain_instruction ''hlt''"
definition ud2 :: "'w::len machine \<Rightarrow> 'w machine" where "ud2 = plain_instruction ''ud2''"
definition int3 :: "'w::len machine \<Rightarrow> 'w machine" where "int3 = plain_instruction ''int3''"
definition int2c :: "'w::len machine \<Rightarrow> 'w machine" where "int2c = plain_instruction ''int 2c''"
definition wbinvd :: "'w::len machine \<Rightarrow> 'w machine" where "wbinvd = plain_instruction ''wbinvd''"

section \<open>An affinity is restored as it was\<close>

lemma affinity_saved:
  fixes ga :: "'w::len group_affinity"
  assumes "machine_word TYPE('w)" and "LENGTH('w) = 32 \<longrightarrow> ga_reserved ga = 0"
  shows "load_affinity (save_affinity ga) = ga"
  using assms(1)
proof (cases rule: machine_word_cases)
  case w32
  then have "(ucast (ucast (ga_group ga) :: 'w word) :: u16) = ga_group ga"
    by (intro bit_word_eqI) (auto simp: bit_simps)
  then show ?thesis using w32 assms(2) by (simp add: load_affinity_def save_affinity_def)
next
  case w64
  have none: "\<not> bit (ga_group ga) (16 + n)" for n
    using bit_imp_le_length [of "ga_group ga" "16 + n"] by auto
  from w64 have "(ucast (ucast (ga_group ga) OR push_bit 16 (ucast (ga_reserved ga)) :: 'w word) :: u16) = ga_group ga"
    and "(ucast (drop_bit 16 (ucast (ga_group ga) OR push_bit 16 (ucast (ga_reserved ga)) :: 'w word)) :: 48 word) = ga_reserved ga"
    by (auto intro!: bit_word_eqI simp: bit_simps none)
  then show ?thesis using w64 by (simp add: load_affinity_def save_affinity_def)
qed

text \<open>
  what a successful change of the affinity leaves in the two cells is the affinity before
  it, so that restoring them reverts the thread to exactly that affinity, on both widths.  The
  cells of a change that failed are refused.
\<close>

theorem affinity_round_trip:
  fixes which :: "'w::len word"
  assumes "machine_word TYPE('w)" and "cpu_set_affinity k which old s = Some (ret, old', s')"
    and "NT_SUCCESS (fst (processor_number k (ucast which)))"
    and "LENGTH('w) = 32 \<longrightarrow> ga_reserved (old_affinity k) = 0"
  shows "(ret = status_cell STATUS_SUCCESS \<longrightarrow> cpu_restore_affinity old' s'' =
      (status_cell STATUS_SUCCESS, hw_do (RevertAffinity (ga_mask (old_affinity k)) (ga_group (old_affinity k))
        (ga_reserved (old_affinity k))) s''))
    \<and> (ret \<noteq> status_cell STATUS_SUCCESS \<longrightarrow> cpu_restore_affinity old' s'' = (status_cell STATUS_UNSUCCESSFUL, s''))
    \<and> (\<exists>n < LENGTH('w). \<exists>g. s' = hw_do (SetAffinity (push_bit n 1) g 0) s)"
proof -
  obtain st group number where p: "processor_number k (ucast which) = (st, group, number)"
    by (metis prod_cases3)
  let ?ga = "old_affinity k"
  have old: "load_affinity old' = ?ga" "unat number < LENGTH('w)"
    "ret = status_cell (if ga_group ?ga = 0 \<and> ga_mask ?ga = 0 then STATUS_UNSUCCESSFUL else STATUS_SUCCESS)"
    "s' = hw_do (SetAffinity (push_bit (unat number) 1) group 0) s"
    using assms(2,3) affinity_saved [OF assms(1,4)] p
    by (auto simp: cpu_set_affinity_def Let_def split: if_splits)
  then show ?thesis
    using statuses_differ [where ?'w = 'w] by (auto simp: cpu_restore_affinity_def Let_def)
qed

section \<open>How long a sleep is\<close>

text \<open>
  a sleep of \<open>us\<close> microseconds asks for a relative delay of ten ticks each, as long as the
  product fits: up to some 29,000 years on a 64-bit build, but only 214 seconds on x86.  A
  longer sleep has no defined result.
\<close>

theorem microsleep_delay:
  fixes us :: "'w::len word"
  assumes "machine_word TYPE('w)" and "unat us < 2 ^ (LENGTH('w) - 1)"
  shows "microsleep k us s =
    (if 10 * unat us \<le> 2 ^ (LENGTH('w) - 1)
     then Some (status_cell (delay_status k), hw_do (Delay (- 10 * ucast us)) s) else None)"
proof -
  define n where "n = unat us"
  define m where "m = (2 :: nat) ^ (LENGTH('w) - 1)"
  have u: "uint us = int n" by (simp add: n_def)
  have "int n < 2 ^ (LENGTH('w) - 1)" using assms(2) unfolding n_def by (metis of_nat_less_iff of_nat_numeral of_nat_power)
  then have sint: "sint us = int n"
    using signed_take_bit_int_eq_self [of "LENGTH('w) - 1" "int n"]
    by (simp add: sint_uint u order_trans [of _ 0])
  have m: "(2 :: int) ^ (LENGTH('w) - 1) = int m" by (simp add: m_def)
  have "word_of_int (int n * - 10) = (- 10 * ucast us :: u64)"
  proof -
    have "(ucast us :: u64) = word_of_int (int n)" using u by (metis ucast_eq)
    then show ?thesis by simp
  qed
  moreover have "0 < m" by (simp add: m_def)
  ultimately show ?thesis
    unfolding microsleep_def Let_def sint m n_def [symmetric] m_def [symmetric] by auto
qed

section \<open>Examples\<close>

theorem affinity_round_trip_witness:
  "\<forall>s. \<exists>ret old' s'. cpu_set_affinity (quiet_hw :: 64 hw) 0 [0, 0] s = Some (ret, old', s')
    \<and> cpu_restore_affinity old' s' = (status_cell STATUS_SUCCESS, hw_do (RevertAffinity 1 0 0) s')"
proof
  fix s
  have set: "cpu_set_affinity (quiet_hw :: 64 hw) 0 [0, 0] s =
      Some (status_cell STATUS_SUCCESS, save_affinity (old_affinity quiet_hw), hw_do (SetAffinity 1 0 0) s)"
    by (simp add: cpu_set_affinity_def quiet_hw_def)
  have "cpu_restore_affinity (save_affinity (old_affinity (quiet_hw :: 64 hw))) s' =
      (status_cell STATUS_SUCCESS, hw_do (RevertAffinity 1 0 0) s')" for s'
    using affinity_round_trip [OF machine_word_64 set, of s'] by (simp add: quiet_hw_def)
  with set show "\<exists>ret old' s'. cpu_set_affinity (quiet_hw :: 64 hw) 0 [0, 0] s = Some (ret, old', s')
      \<and> cpu_restore_affinity old' s' = (status_cell STATUS_SUCCESS, hw_do (RevertAffinity 1 0 0) s')"
    by blast
qed

text \<open>On x86 200 seconds can be slept, 215 cannot.\<close>

theorem microsleep_delay_witness:
  "\<forall>s. microsleep (quiet_hw :: 32 hw) 200000000 s = Some (0, hw_do (Delay (- 2000000000)) s)
    \<and> microsleep (quiet_hw :: 32 hw) 215000000 s = None"
  using microsleep_delay [OF machine_word_32, of 200000000 quiet_hw]
    microsleep_delay [OF machine_word_32, of 215000000 quiet_hw]
  by (simp add: quiet_hw_def)

end
