(* ===== verification/Registers.thy ===== *)
theory Registers
  imports Machine
begin

text \<open>
  Registers that an instruction names in its encoding.  \<open>x64.asm\<close> has one stub for every
  control and debug register and direction, \<open>msrmrs.cpp\<close> one for every system register of
  ARM64; the natives compute the address of a stub and jump to it.  \<open>x86.asm\<close> compares the
  number instead.
\<close>

section \<open>The stubs of x64\<close>

text \<open>
  The instruction bytes of the stubs, in the order of the file: \<open>mov rax, drN\<close>,
  \<open>mov rax, crN\<close>, \<open>mov drN, rdx\<close>, \<open>mov crN, rdx\<close>, each for N from 0 to 15.
\<close>

definition dr_read_stubs :: "byte list list" where
  "dr_read_stubs =
    [[0x0F, 0x21, 0xC0], [0x0F, 0x21, 0xC8], [0x0F, 0x21, 0xD0], [0x0F, 0x21, 0xD8],
     [0x0F, 0x21, 0xE0], [0x0F, 0x21, 0xE8], [0x0F, 0x21, 0xF0], [0x0F, 0x21, 0xF8],
     [0x44, 0x0F, 0x21, 0xC0], [0x44, 0x0F, 0x21, 0xC8], [0x44, 0x0F, 0x21, 0xD0], [0x44, 0x0F, 0x21, 0xD8],
     [0x44, 0x0F, 0x21, 0xE0], [0x44, 0x0F, 0x21, 0xE8], [0x44, 0x0F, 0x21, 0xF0], [0x44, 0x0F, 0x21, 0xF8]]"

definition cr_read_stubs :: "byte list list" where
  "cr_read_stubs =
    [[0x0F, 0x20, 0xC0], [0x0F, 0x20, 0xC8], [0x0F, 0x20, 0xD0], [0x0F, 0x20, 0xD8],
     [0x0F, 0x20, 0xE0], [0x0F, 0x20, 0xE8], [0x0F, 0x20, 0xF0], [0x0F, 0x20, 0xF8],
     [0x44, 0x0F, 0x20, 0xC0], [0x44, 0x0F, 0x20, 0xC8], [0x44, 0x0F, 0x20, 0xD0], [0x44, 0x0F, 0x20, 0xD8],
     [0x44, 0x0F, 0x20, 0xE0], [0x44, 0x0F, 0x20, 0xE8], [0x44, 0x0F, 0x20, 0xF0], [0x44, 0x0F, 0x20, 0xF8]]"

definition dr_write_stubs :: "byte list list" where
  "dr_write_stubs =
    [[0x0F, 0x23, 0xC2], [0x0F, 0x23, 0xCA], [0x0F, 0x23, 0xD2], [0x0F, 0x23, 0xDA],
     [0x0F, 0x23, 0xE2], [0x0F, 0x23, 0xEA], [0x0F, 0x23, 0xF2], [0x0F, 0x23, 0xFA],
     [0x44, 0x0F, 0x23, 0xC2], [0x44, 0x0F, 0x23, 0xCA], [0x44, 0x0F, 0x23, 0xD2], [0x44, 0x0F, 0x23, 0xDA],
     [0x44, 0x0F, 0x23, 0xE2], [0x44, 0x0F, 0x23, 0xEA], [0x44, 0x0F, 0x23, 0xF2], [0x44, 0x0F, 0x23, 0xFA]]"

definition cr_write_stubs :: "byte list list" where
  "cr_write_stubs =
    [[0x0F, 0x22, 0xC2], [0x0F, 0x22, 0xCA], [0x0F, 0x22, 0xD2], [0x0F, 0x22, 0xDA],
     [0x0F, 0x22, 0xE2], [0x0F, 0x22, 0xEA], [0x0F, 0x22, 0xF2], [0x0F, 0x22, 0xFA],
     [0x44, 0x0F, 0x22, 0xC2], [0x44, 0x0F, 0x22, 0xCA], [0x44, 0x0F, 0x22, 0xD2], [0x44, 0x0F, 0x22, 0xDA],
     [0x44, 0x0F, 0x22, 0xE2], [0x44, 0x0F, 0x22, 0xEA], [0x44, 0x0F, 0x22, 0xF2], [0x44, 0x0F, 0x22, 0xFA]]"

text \<open>
  Every stub ends in \<open>ret\<close> (0xC3) and is aligned to 8 bytes; \<open>pad\<close> is what the assembler
  fills the gap with.
\<close>

definition stub_slot :: "byte \<Rightarrow> byte list \<Rightarrow> byte list" where
  "stub_slot pad b = b @ [0xC3] @ replicate (7 - length b) pad"

definition crdr_code :: "byte \<Rightarrow> byte list" where
  "crdr_code pad = concat (map (stub_slot pad) (dr_read_stubs @ cr_read_stubs @ dr_write_stubs @ cr_write_stubs))"

text \<open>\<open>_crdr\<close>: mask the offset, add it to \<open>begin\<close>, jump.  What runs is the bytes up to \<open>ret\<close>.\<close>

definition crdr :: "byte \<Rightarrow> u64 \<Rightarrow> byte list" where
  "crdr pad idx = takeWhile (\<lambda>b. b \<noteq> 0xC3) (drop (unat (idx AND 0x1F8)) (crdr_code pad))"

definition crdr_id :: "'w::len word \<Rightarrow> bool \<Rightarrow> bool \<Rightarrow> 'w word" where
  "crdr_id idx is_cr is_wr =
    (push_bit 3 (idx AND 0xF) OR push_bit 7 (of_bool is_cr) OR push_bit 8 (of_bool is_wr))"

text \<open>\<open>crdr_wrap\<close>: the stub gets \<open>v\<close> in \<open>rdx\<close>, and what it leaves in \<open>rax\<close> is the result.\<close>

definition crdr_wrap :: "byte \<Rightarrow> 64 hw \<Rightarrow> u64 \<Rightarrow> u64 \<Rightarrow> bool \<Rightarrow> bool \<Rightarrow> 64 machine \<Rightarrow> (u64 \<times> 64 machine) option" where
  "crdr_wrap pad k v idx is_cr is_wr s =
    (let code = crdr pad (crdr_id idx is_cr is_wr)
     in case run_stub k code v of Inl _ \<Rightarrow> None | Inr r \<Rightarrow> Some (r, hw_do (Execute code v) s))"

definition cr_read :: "byte \<Rightarrow> 64 hw \<Rightarrow> u64 \<Rightarrow> 64 machine \<Rightarrow> (u64 \<times> 64 machine) option" where
  "cr_read pad k cr s = crdr_wrap pad k 0 cr True False s"

definition cr_write :: "byte \<Rightarrow> 64 hw \<Rightarrow> u64 \<Rightarrow> u64 \<Rightarrow> 64 machine \<Rightarrow> 64 machine option" where
  "cr_write pad k cr v s = map_option snd (crdr_wrap pad k v cr True True s)"

definition dr_read :: "byte \<Rightarrow> 64 hw \<Rightarrow> u64 \<Rightarrow> 64 machine \<Rightarrow> (u64 \<times> 64 machine) option" where
  "dr_read pad k dr s = crdr_wrap pad k 0 dr False False s"

definition dr_write :: "byte \<Rightarrow> 64 hw \<Rightarrow> u64 \<Rightarrow> u64 \<Rightarrow> 64 machine \<Rightarrow> 64 machine option" where
  "dr_write pad k dr v s = map_option snd (crdr_wrap pad k v dr False True s)"

section \<open>The numbers of x86\<close>

text \<open>
  \<open>_crdr\<close> of \<open>x86.asm\<close> reads three arguments from the stack: the number, the value, and
  whether to write.  The register it accesses (control or debug, number), or none.
\<close>

datatype system_register = CR nat | DR nat

definition crdr_x86 :: "u32 \<Rightarrow> u32 \<Rightarrow> (system_register \<times> bool) option" where
  "crdr_x86 reg_num write_flag =
    map_option (\<lambda>r. (r, write_flag \<noteq> 0))
      (map_of [(0, CR 0), (2, CR 2), (3, CR 3), (4, CR 4), (0x100, DR 0), (0x101, DR 1),
        (0x102, DR 2), (0x103, DR 3), (0x106, DR 6), (0x107, DR 7)] reg_num)"

section \<open>The stubs of ARM64\<close>

definition generate_msrmrs :: "bool \<Rightarrow> u64 list" where
  "generate_msrmrs is_mrs =
    (let mrs = 0xD5300000; msr = 0xD5100000; ret = 0xD65F03C0;
         magic = ((if is_mrs then mrs else msr) OR push_bit 32 ret)
     in map (\<lambda>i. magic OR push_bit 5 (of_nat i)) [0..<0x8000])"

text \<open>The stub that is called for an instruction.\<close>

definition stub_index :: "u32 \<Rightarrow> nat" where
  "stub_index instruction = unat (drop_bit 5 instruction AND 0x7FFF)"

definition arm_mrs :: "(u64 \<Rightarrow> u64 \<Rightarrow> u32 + u64) \<Rightarrow> u32 \<Rightarrow> u32 + u32" where
  "arm_mrs run instruction =
    map_sum id ucast (run (generate_msrmrs True ! stub_index instruction) 0)"

definition arm_msr :: "(u64 \<Rightarrow> u64 \<Rightarrow> u32 + u64) \<Rightarrow> u32 \<Rightarrow> u32 \<Rightarrow> u32 + u64" where
  "arm_msr run instruction v = run (generate_msrmrs False ! stub_index instruction) (ucast v)"

text \<open>
  \<open>msr_read\<close> and \<open>msr_write\<close> of ARM64.  \<open>run\<close> executes a stub with a value in \<open>x0\<close> and
  gives what is in \<open>x0\<close> then, or the exception.
\<close>

definition is_register_move :: "u64 \<Rightarrow> bool" where
  "is_register_move msr \<longleftrightarrow> msr AND 0xFFFFFFFFFFF00000 = 0xD5300000"

definition msr_read_arm :: "(u64 \<Rightarrow> u64 \<Rightarrow> u32 + u64) \<Rightarrow> u64 \<Rightarrow> u64 \<times> u64" where
  "msr_read_arm run msr =
    (if \<not> is_register_move msr then (status_cell STATUS_INVALID_PARAMETER, 0)
     else case arm_mrs run (ucast msr) of
       Inr v \<Rightarrow> (status_cell STATUS_SUCCESS, ucast v)
     | Inl code \<Rightarrow> (exception_cell code, 0))"

definition msr_write_arm :: "(u64 \<Rightarrow> u64 \<Rightarrow> u32 + u64) \<Rightarrow> u64 \<Rightarrow> u64 \<Rightarrow> u64" where
  "msr_write_arm run msr v =
    (if \<not> is_register_move msr then status_cell STATUS_INVALID_PARAMETER
     else case arm_msr run (ucast msr) (ucast v) of
       Inr _ \<Rightarrow> status_cell STATUS_SUCCESS
     | Inl code \<Rightarrow> exception_cell code)"

section \<open>The stub is the instruction\<close>

text \<open>
  The encoding of a move between a general register and a control or debug register: the
  prefix REX.R for the numbers from 8, the opcode, and a ModRM byte with the register number
  and the general register, \<open>rax\<close> (0) for reads and \<open>rdx\<close> (2) for writes.
\<close>

definition mov_encoding :: "bool \<Rightarrow> bool \<Rightarrow> nat \<Rightarrow> byte list" where
  "mov_encoding is_cr is_wr n =
    (if n < 8 then [] else [0x44])
    @ [0x0F, 0x20 + (if is_cr then 0 else 1) + (if is_wr then 2 else 0),
       0xC0 + of_nat (8 * (n mod 8)) + (if is_wr then 2 else 0)]"

lemma stubs_encoded:
  "dr_read_stubs = map (mov_encoding False False) [0..<16]"
  "cr_read_stubs = map (mov_encoding True False) [0..<16]"
  "dr_write_stubs = map (mov_encoding False True) [0..<16]"
  "cr_write_stubs = map (mov_encoding True True) [0..<16]"
  by (simp_all add: dr_read_stubs_def cr_read_stubs_def dr_write_stubs_def cr_write_stubs_def
      mov_encoding_def upt_conv_Cons)


section \<open>Every stub is reached\<close>

lemma low_nibble_64: "(idx :: u64) AND 0xF = of_nat (unat idx mod 16)"
proof -
  have "idx AND 0xF = take_bit 4 idx" by (simp add: take_bit_eq_mask mask_eq_decr_exp)
  moreover have "unat (take_bit 4 idx) = unat idx mod 16"
    by (simp only: unsigned_take_bit_eq) (simp add: take_bit_eq_mod)
  moreover have "of_nat (unat (take_bit 4 idx)) = take_bit 4 idx" by simp
  ultimately show ?thesis by metis
qed

lemma nibble_cases:
  assumes "n < (16 :: nat)"
  shows "n \<in> set [0,1,2,3,4,5,6,7,8,9,10,11,12,13,14,15]"
  using assms by (simp add: eval_nat_numeral less_Suc_eq)

lemma crdr_offset:
  assumes "n < 16"
  shows "unat ((push_bit 3 (of_nat n :: u64) OR push_bit 7 (of_bool c) OR push_bit 8 (of_bool w)) AND 0x1F8)
    = 8 * (n + 16 * of_bool c + 32 * of_bool w)"
  using nibble_cases [OF assms] by (cases c; cases w; auto)

lemma drop_concat:
  "(\<And>x. x \<in> set xs \<Longrightarrow> length x = m) \<Longrightarrow> drop (m * j) (concat xs) = concat (drop j xs)"
proof (induction j arbitrary: xs)
  case (Suc j)
  then show ?case by (cases xs) (simp_all add: add.commute)
qed simp

lemma mov_encoding_slot:
  assumes "n < 16"
  shows "length (mov_encoding c w n) \<le> 4" and "0xC3 \<notin> set (mov_encoding c w n)"
proof -
  show "length (mov_encoding c w n) \<le> 4" by (simp add: mov_encoding_def)
  show "0xC3 \<notin> set (mov_encoding c w n)"
    using nibble_cases [OF assms] by (cases c; cases w; auto simp: mov_encoding_def)
qed

definition all_stubs :: "byte list list" where
  "all_stubs = dr_read_stubs @ cr_read_stubs @ dr_write_stubs @ cr_write_stubs"

lemma all_stubs_nth:
  assumes "n < 16"
  shows "all_stubs ! (n + 16 * of_bool c + 32 * of_bool w) = mov_encoding c w n"
    and "n + 16 * of_bool c + 32 * of_bool w < length all_stubs"
  using assms by (cases c; cases w; simp add: all_stubs_def stubs_encoded nth_append)+

lemma all_stubs_short: "b \<in> set all_stubs \<Longrightarrow> length (stub_slot pad b) = 8"
proof -
  assume "b \<in> set all_stubs"
  then obtain c w n where "n < 16" "b = mov_encoding c w n"
    unfolding all_stubs_def stubs_encoded set_append set_map set_upt by auto
  then show ?thesis using mov_encoding_slot(1) [of n c w] by (simp add: stub_slot_def)
qed

text \<open>
  C34: the number of a register, the kind and the direction select the stub whose bytes are the
  move of exactly that register: the natives for control and debug registers execute the
  encoding of the access they are named for, whatever the padding between the stubs is.
\<close>

theorem crdr_selects:
  "crdr pad (crdr_id idx is_cr is_wr) = mov_encoding is_cr is_wr (unat idx mod 16)"
proof -
  define n where "n = unat idx mod 16"
  define j where "j = n + 16 * of_bool is_cr + 32 * of_bool is_wr"
  have n: "n < 16" by (simp add: n_def)
  note stub = all_stubs_nth [OF n, of is_cr is_wr, folded j_def]
  have "unat (crdr_id idx is_cr is_wr AND 0x1F8) = 8 * j"
    using crdr_offset [OF n, of is_cr is_wr] by (simp add: crdr_id_def low_nibble_64 n_def j_def)
  then have "crdr pad (crdr_id idx is_cr is_wr) =
      takeWhile (\<lambda>b. b \<noteq> 0xC3) (concat (drop j (map (stub_slot pad) all_stubs)))"
    using all_stubs_short
    by (subst drop_concat [symmetric, where m = 8]) (auto simp: crdr_def crdr_code_def all_stubs_def [symmetric])
  also have "drop j (map (stub_slot pad) all_stubs) =
      stub_slot pad (mov_encoding is_cr is_wr n) # drop (Suc j) (map (stub_slot pad) all_stubs)"
    using stub by (simp add: Cons_nth_drop_Suc [symmetric])
  also have "takeWhile (\<lambda>b. b \<noteq> 0xC3) (concat \<dots>) = mov_encoding is_cr is_wr n"
    using mov_encoding_slot(2) [OF n, of is_cr is_wr]
    by (simp add: stub_slot_def) (subst takeWhile_append2, auto)
  finally show ?thesis by (simp add: n_def)
qed

section \<open>Nothing is reached on x86\<close>

lemma low_nibble_32: "(idx :: u32) AND 0xF = of_nat (unat idx mod 16)"
proof -
  have "idx AND 0xF = take_bit 4 idx" by (simp add: take_bit_eq_mask mask_eq_decr_exp)
  moreover have "unat (take_bit 4 idx) = unat idx mod 16"
    by (simp only: unsigned_take_bit_eq) (simp add: take_bit_eq_mod)
  moreover have "of_nat (unat (take_bit 4 idx)) = take_bit 4 idx" by simp
  ultimately show ?thesis by metis
qed

text \<open>
  on x86 the numbers of \<open>crdr_wrap\<close> are not the ones the assembly compares with, and the
  third argument it tests is not passed: no control register is ever reached, debug register 0
  is read as \<open>cr0\<close> when the stack happens to hold zero, and every other read gives nothing.
\<close>

theorem crdr_x86_mismatch:
  "crdr_x86 (crdr_id idx True is_wr) flag = None
    \<and> crdr_x86 (crdr_id idx False False) flag = (if idx AND 0xF = 0 then Some (CR 0, flag \<noteq> 0) else None)
    \<and> crdr_x86 (crdr_id 0 False True) flag = Some (DR 0, flag \<noteq> 0)"
proof -
  define n where "n = unat idx mod 16"
  have n: "n < 16" and idx: "idx AND 0xF = of_nat n" by (simp_all add: n_def low_nibble_32)
  have "crdr_x86 (crdr_id idx True is_wr) flag = None"
    unfolding crdr_id_def idx using nibble_cases [OF n] by (cases is_wr; auto simp: crdr_x86_def)
  moreover have "crdr_x86 (crdr_id idx False False) flag =
      (if idx AND 0xF = 0 then Some (CR 0, flag \<noteq> 0) else None)"
    unfolding crdr_id_def idx using nibble_cases [OF n] by (auto simp: crdr_x86_def)
  ultimately show ?thesis by (simp add: crdr_id_def crdr_x86_def)
qed

section \<open>ARM64\<close>

lemma generate_nth: "i < 0x8000 \<Longrightarrow> generate_msrmrs b ! i =
    ((if b then 0xD5300000 else 0xD5100000) OR push_bit 32 0xD65F03C0 OR push_bit 5 (of_nat i))"
  by (simp add: generate_msrmrs_def or.assoc)

lemma low_15_32: "(0x7FFF :: u32) = mask 15" and low_15_64: "(0x7FFF :: u64) = mask 15"
  and low_32_64: "(0xFFFFFFFF :: u64) = mask 32" and register_field: "(0xFFFE0 :: u64) = push_bit 5 (mask 15)"
  and low_20_64: "(0xFFFFF :: u64) = mask 20" and high_44_64: "(0xFFFFFFFFFFF00000 :: u64) = NOT (mask 20)"
  by (simp_all add: mask_eq_decr_exp)

lemma stub_index_bound: "stub_index i < 0x8000"
  unfolding stub_index_def low_15_32 take_bit_eq_mask [symmetric] unsigned_take_bit_eq
  using take_bit_nat_less_exp [of 15] by simp

lemma stub_index_bits: "of_nat (stub_index (ucast m)) = (drop_bit 5 m AND 0x7FFF :: u64)"
proof -
  have "of_nat (stub_index (ucast m)) = (ucast (drop_bit 5 (ucast m :: u32) AND 0x7FFF) :: u64)"
    by (simp add: stub_index_def)
  also have "\<dots> = drop_bit 5 m AND 0x7FFF"
    unfolding low_15_32 low_15_64 by (rule bit_word_eqI) (auto simp: bit_simps)
  finally show ?thesis .
qed

lemma register_field_shift: "push_bit 5 (drop_bit 5 m AND 0x7FFF) = m AND (0xFFFE0 :: u64)"
  unfolding low_15_64 register_field by (rule bit_word_eqI) (auto simp: bit_simps)

lemma register_move_bits:
  assumes "is_register_move m"
  shows "m AND 0xFFFFFFE0 = 0xD5300000 OR (m AND 0xFFFE0)"
proof -
  have "m = (m AND 0xFFFFFFFFFFF00000) OR (m AND 0xFFFFF)"
    unfolding low_20_64 high_44_64 by (rule bit_word_eqI) (auto simp: bit_simps)
  then have "m AND 0xFFFFFFE0 = (0xD5300000 OR (m AND 0xFFFFF)) AND 0xFFFFFFE0"
    using assms unfolding is_register_move_def by metis
  then show ?thesis by (simp add: bit.conj_disj_distrib2 and.assoc)
qed

lemma clear_bits:
  fixes a t q :: "'w::len word"
  assumes "a AND t = 0" and "q AND t = 0"
  shows "((a OR t) OR q) XOR t = a OR q"
proof (rule bit_word_eqI)
  fix n
  have "\<not> (bit a n \<and> bit t n)" "\<not> (bit q n \<and> bit t n)"
    using assms by (metis bit_0_eq bit_and_iff bot_apply bot_bool_def)+
  then show "bit (((a OR t) OR q) XOR t) n \<longleftrightarrow> bit (a OR q) n" by (auto simp: bit_simps)
qed

text \<open>
  C35: for every instruction the guard lets through, the stub is that instruction with \<open>x0\<close> as
  its register, followed by \<open>ret\<close>; for a write it is the \<open>msr\<close> of the same register.  The
  index never leaves the array.
\<close>

theorem arm_stub_is_instruction:
  assumes "is_register_move m"
  shows "stub_index (ucast m) < length (generate_msrmrs b)
    \<and> generate_msrmrs True ! stub_index (ucast m) = (m AND 0xFFFFFFE0) OR push_bit 32 0xD65F03C0
    \<and> generate_msrmrs False ! stub_index (ucast m) = ((m AND 0xFFFFFFE0) XOR 0x200000) OR push_bit 32 0xD65F03C0"
proof -
  have g: "generate_msrmrs d ! stub_index (ucast m) =
      ((if d then 0xD5300000 else 0xD5100000) OR push_bit 32 0xD65F03C0 OR (m AND 0xFFFE0))" for d
    using generate_nth [OF stub_index_bound, of d "ucast m"]
    by (simp only: stub_index_bits register_field_shift)
  have "(m AND 0xFFFFFFE0) XOR 0x200000 = 0xD5100000 OR (m AND 0xFFFE0)"
    using clear_bits [of "0xD5100000 :: u64" "0x200000" "m AND 0xFFFE0"]
    by (simp add: register_move_bits [OF assms] and.assoc)
  then show ?thesis
    using stub_index_bound by (simp only: g register_move_bits [OF assms] if_True if_False) (simp add: generate_msrmrs_def ac_simps)
qed

text \<open>
  the guard accepts the encoding of a read only, so that the assembled \<open>msr\<close> of a register
  is refused by \<open>msr_write\<close>; and a register of 64 bits is read and written in its lower half.
\<close>

theorem arm_registers_halved:
  assumes "is_register_move m" and "run (generate_msrmrs True ! stub_index (ucast m)) 0 = Inr v"
  shows "msr_read_arm run m = (status_cell STATUS_SUCCESS, v AND 0xFFFFFFFF)
    \<and> msr_write_arm run m w = msr_write_arm run m (w AND 0xFFFFFFFF)
    \<and> msr_write_arm run (m XOR 0x200000) w = status_cell STATUS_INVALID_PARAMETER"
proof -
  have "(ucast (ucast x :: u32) :: u64) = x AND 0xFFFFFFFF" for x :: u64
    unfolding low_32_64 by (rule bit_word_eqI) (auto simp: bit_simps)
  moreover have "(ucast (x AND 0xFFFFFFFF) :: u32) = ucast x" for x :: u64
    unfolding low_32_64 by (rule bit_word_eqI) (auto simp: bit_simps)
  moreover have "\<not> is_register_move (m XOR 0x200000)"
    using assms(1) by (simp add: is_register_move_def bit.conj_xor_distrib2)
  ultimately show ?thesis
    using assms by (simp add: msr_read_arm_def msr_write_arm_def arm_mrs_def)
qed

text \<open>The counter register \<open>CNTVCT_EL0\<close>.\<close>

lemma counter_move: "is_register_move 0xD53BE045"
  by (simp add: is_register_move_def)

theorem arm_stub_is_instruction_witness:
  "generate_msrmrs True ! stub_index (ucast (0xD53BE045 :: u64)) = 0xD65F03C0D53BE040
    \<and> generate_msrmrs False ! stub_index (ucast (0xD53BE045 :: u64)) = 0xD65F03C0D51BE040"
  using arm_stub_is_instruction [OF counter_move, where b = True] by simp

theorem arm_registers_halved_witness:
  "msr_read_arm (\<lambda>_ _. Inr 0x123456789) 0xD53BE045 = (0, 0x23456789)
    \<and> msr_write_arm (\<lambda>_ _. Inr 0x123456789) 0xD51BE045 0 = status_cell STATUS_INVALID_PARAMETER"
  using arm_registers_halved [OF counter_move, of "\<lambda>_ _. Inr 0x123456789" "0x123456789"] by simp

end
