(* ===== verification/Natives_Table.thy ===== *)
theory Natives_Table
  imports Natives_Memory Natives_Bus Natives_Cpu Registers
begin

text \<open>
  The table \<open>NATIVES\<close> of \<open>PawnIO/vm.cpp\<close>: the name under which a module finds each native,
  the types of its arguments and what it does.  Five entries are written by hand and have
  models of their own (\<open>Amx_Text\<close>, \<open>Callback_Slots\<close>); the others go through the template
  \<open>native_callback_wrapper\<close>, so their argument types are those of the C++ declaration in
  \<open>natives_impl.h\<close>.
\<close>

section \<open>Natives as the template calls them\<close>

text \<open>The scalar argument \<open>i\<close>, and the elements of the array argument \<open>i\<close>.\<close>

fun cell_of :: "'w::len word arg_value \<Rightarrow> 'w word" where
  "cell_of (VCell v) = v"
| "cell_of (VArr vs) = 0"

fun cells_of :: "'w::len word arg_value \<Rightarrow> 'w word list" where
  "cells_of (VCell v) = []"
| "cells_of (VArr vs) = vs"

definition scalar :: "'w::len word arg_value list \<Rightarrow> nat \<Rightarrow> 'w word" where
  "scalar vs i = cell_of (vs ! i)"

definition elements :: "'w::len word arg_value list \<Rightarrow> nat \<Rightarrow> 'w word list" where
  "elements vs i = cells_of (vs ! i)"

type_synonym 'w native = "('w, 'w machine) native_fn"

definition native ::
  "arg_type list \<Rightarrow>
   ('w::len word arg_value list \<Rightarrow> 'w machine \<Rightarrow> ('w word option \<times> 'w word arg_value list \<times> 'w machine) option) \<Rightarrow>
   'w native"
where
  "native ts f = \<lparr>arg_types = ts,
    body = (\<lambda>vs st. do { (r, vs', s') \<leftarrow> f vs (world st); Some (r, vs', st\<lparr>world := s'\<rparr>) })\<rparr>"

text \<open>
  The shapes of declarations: \<open>cell\<close> or \<open>void\<close>, and the arguments.  A \<open>cell&\<close> is the last
  argument but for \<open>invoke\<close>.
\<close>

definition cell_0 :: "('w::len word) \<Rightarrow> 'w native" where
  "cell_0 f = native [] (\<lambda>vs s. Some (Some f, [], s))"

definition void_0 :: "('w::len machine \<Rightarrow> 'w machine) \<Rightarrow> 'w native" where
  "void_0 f = native [] (\<lambda>vs s. Some (None, [], f s))"

definition cell_1 :: "('w::len word \<Rightarrow> 'w machine \<Rightarrow> 'w word \<times> 'w machine) \<Rightarrow> 'w native" where
  "cell_1 f = native [CellVal] (\<lambda>vs s. let (r, s') = f (scalar vs 0) s in Some (Some r, vs, s'))"

definition cell_2 :: "('w::len word \<Rightarrow> 'w word \<Rightarrow> 'w machine \<Rightarrow> 'w word \<times> 'w machine) \<Rightarrow> 'w native" where
  "cell_2 f = native [CellVal, CellVal] (\<lambda>vs s. let (r, s') = f (scalar vs 0) (scalar vs 1) s in Some (Some r, vs, s'))"

definition cell_3 :: "('w::len word \<Rightarrow> 'w word \<Rightarrow> 'w word \<Rightarrow> 'w machine \<Rightarrow> 'w word \<times> 'w machine) \<Rightarrow> 'w native" where
  "cell_3 f = native [CellVal, CellVal, CellVal] (\<lambda>vs s. let (r, s') = f (scalar vs 0) (scalar vs 1) (scalar vs 2) s in Some (Some r, vs, s'))"

definition cell_5 :: "('w::len word \<Rightarrow> 'w word \<Rightarrow> 'w word \<Rightarrow> 'w word \<Rightarrow> 'w word \<Rightarrow> 'w machine \<Rightarrow> 'w word \<times> 'w machine) \<Rightarrow> 'w native" where
  "cell_5 f = native [CellVal, CellVal, CellVal, CellVal, CellVal] (\<lambda>vs s. let (r, s') = f (scalar vs 0) (scalar vs 1) (scalar vs 2) (scalar vs 3) (scalar vs 4) s in Some (Some r, vs, s'))"

definition void_1 :: "('w::len word \<Rightarrow> 'w machine \<Rightarrow> 'w machine) \<Rightarrow> 'w native" where
  "void_1 f = native [CellVal] (\<lambda>vs s. Some (None, vs, f (scalar vs 0) s))"

definition void_2 :: "('w::len word \<Rightarrow> 'w word \<Rightarrow> 'w machine \<Rightarrow> 'w machine) \<Rightarrow> 'w native" where
  "void_2 f = native [CellVal, CellVal] (\<lambda>vs s. Some (None, vs, f (scalar vs 0) (scalar vs 1) s))"

definition cell_ref :: "('w::len word \<times> 'w word) \<Rightarrow> 'w native" where
  "cell_ref f = native [CellRef] (\<lambda>vs s. Some (Some (fst f), [VCell (snd f)], s))"

definition void_ref_2 :: "('w::len word \<times> 'w word) \<Rightarrow> 'w native" where
  "void_ref_2 f = native [CellRef, CellRef] (\<lambda>vs s. Some (None, [VCell (fst f), VCell (snd f)], s))"

definition read_1 :: "('w::len word \<Rightarrow> 'w word \<Rightarrow> 'w machine \<Rightarrow> 'w word \<times> 'w word) \<Rightarrow> 'w native" where
  "read_1 f = native [CellVal, CellRef] (\<lambda>vs s. let (r, v) = f (scalar vs 0) (scalar vs 1) s in Some (Some r, [vs ! 0, VCell v], s))"

definition read_state_1 :: "('w::len word \<Rightarrow> 'w machine \<Rightarrow> 'w word \<times> 'w word \<times> 'w machine) \<Rightarrow> 'w native" where
  "read_state_1 f = native [CellVal, CellRef] (\<lambda>vs s. let (r, v, s') = f (scalar vs 0) s in Some (Some r, [vs ! 0, VCell v], s'))"

definition read_state_4 :: "('w::len word \<Rightarrow> 'w word \<Rightarrow> 'w word \<Rightarrow> 'w word \<Rightarrow> 'w machine \<Rightarrow> 'w word \<times> 'w word \<times> 'w machine) \<Rightarrow> 'w native" where
  "read_state_4 f = native [CellVal, CellVal, CellVal, CellVal, CellRef] (\<lambda>vs s. let (r, v, s') = f (scalar vs 0) (scalar vs 1) (scalar vs 2) (scalar vs 3) s in Some (Some r, take 4 vs @ [VCell v], s'))"

text \<open>The remaining declarations have a shape of their own.\<close>

definition set_affinity_native :: "'w::len hw \<Rightarrow> 'w native" where
  "set_affinity_native k = native [CellVal, ArrRef 2] (\<lambda>vs s. do {
     (r, old, s') \<leftarrow> cpu_set_affinity k (scalar vs 0) (elements vs 1) s;
     Some (Some r, [vs ! 0, VArr old], s') })"

definition restore_affinity_native :: "'w::len native" where
  "restore_affinity_native = native [ArrVal 2] (\<lambda>vs s.
     let (r, s') = cpu_restore_affinity (elements vs 0) s in Some (Some r, vs, s'))"

definition microsleep_native :: "'w::len hw \<Rightarrow> 'w native" where
  "microsleep_native k = native [CellVal] (\<lambda>vs s. do {
     (r, s') \<leftarrow> microsleep k (scalar vs 0) s; Some (Some r, vs, s') })"

definition invoke_native :: "'w::len hw \<Rightarrow> 'w native" where
  "invoke_native k = native (CellVal # CellRef # replicate 16 CellVal) (\<lambda>vs s.
     let (r, v, s') = invoke k (scalar vs 0) (scalar vs 1) (map (scalar vs) [2..<18]) s
     in Some (Some r, vs[1 := VCell v], s'))"

definition dell_native :: "'w::len hw \<Rightarrow> 'w native" where
  "dell_native k = native [ArrVal 6, ArrRef 6] (\<lambda>vs s.
     let (r, regs, s') = query_dell_smm k (elements vs 0) s in Some (Some r, [vs ! 0, VArr regs], s'))"

definition cpuid_native :: "'w::len hw \<Rightarrow> 'w native" where
  "cpuid_native k = native [CellVal, CellVal, ArrRef 4] (\<lambda>vs s.
     Some (None, [vs ! 0, vs ! 1, VArr (cpuid k (scalar vs 0) (scalar vs 1))], s))"

text \<open>The accesses of control and debug registers, which fault or not.\<close>

definition register_read_native :: "(u64 \<Rightarrow> 64 machine \<Rightarrow> (u64 \<times> 64 machine) option) \<Rightarrow> 64 native" where
  "register_read_native f = native [CellVal] (\<lambda>vs s. do {
     (r, s') \<leftarrow> f (scalar vs 0) s; Some (Some r, vs, s') })"

definition register_write_native :: "(u64 \<Rightarrow> u64 \<Rightarrow> 64 machine \<Rightarrow> 64 machine option) \<Rightarrow> 64 native" where
  "register_write_native f = native [CellVal, CellVal] (\<lambda>vs s. do {
     s' \<leftarrow> f (scalar vs 0) (scalar vs 1) s; Some (None, vs, s') })"

section \<open>The table\<close>

datatype special = Debug_print | Get_proc_address | Get_public | Callback_alloc | Callback_free

datatype 'n entry = Special special | Wrapped 'n

definition special_natives :: "(string \<times> 'n entry) list" where
  "special_natives =
    [(''debug_print'', Special Debug_print), (''get_proc_address'', Special Get_proc_address),
     (''get_public'', Special Get_public), (''callback_alloc'', Special Callback_alloc),
     (''callback_free'', Special Callback_free)]"

text \<open>
  The natives of every build.  \<open>rd\<close> and \<open>wr\<close> are \<open>msr_read\<close> and \<open>msr_write\<close> of the build.
\<close>

definition common_natives :: "arch \<Rightarrow> 'w::len hw \<Rightarrow> 'w native \<Rightarrow> 'w native \<Rightarrow> (string \<times> 'w native) list" where
  "common_natives a k rd wr =
    [(''get_arch'', cell_0 (get_arch a)),
     (''cpu_count'', cell_0 (cpu_count k)),
     (''cpu_set_affinity'', set_affinity_native k),
     (''cpu_restore_affinity'', restore_affinity_native),
     (''msr_read'', rd),
     (''msr_write'', wr),
     (''interrupts_disable'', void_0 interrupts_disable),
     (''interrupts_enable'', void_0 interrupts_enable),
     (''physical_read_byte'', read_1 (physical_read_byte k)),
     (''physical_read_word'', read_1 (physical_read_word k)),
     (''physical_read_dword'', read_1 (physical_read_dword k)),
     (''physical_read_qword'', read_1 (physical_read_qword k)),
     (''physical_write_byte'', cell_2 (physical_write_byte k)),
     (''physical_write_word'', cell_2 (physical_write_word k)),
     (''physical_write_dword'', cell_2 (physical_write_dword k)),
     (''physical_write_qword'', cell_2 (physical_write_qword k)),
     (''io_space_map'', cell_2 (io_space_map k)),
     (''io_space_unmap'', void_2 io_space_unmap),
     (''virtual_read_byte'', read_1 (virtual_read_byte k)),
     (''virtual_read_word'', read_1 (virtual_read_word k)),
     (''virtual_read_dword'', read_1 (virtual_read_dword k)),
     (''virtual_read_qword'', read_1 (virtual_read_qword k)),
     (''virtual_write_byte'', cell_2 (virtual_write_byte k)),
     (''virtual_write_word'', cell_2 (virtual_write_word k)),
     (''virtual_write_dword'', cell_2 (virtual_write_dword k)),
     (''virtual_write_qword'', cell_2 (virtual_write_qword k)),
     (''virtual_cmpxchg_byte2'', cell_3 (virtual_cmpxchg_byte2 k)),
     (''virtual_cmpxchg_word2'', cell_3 (virtual_cmpxchg_word2 k)),
     (''virtual_cmpxchg_dword2'', cell_3 (virtual_cmpxchg_dword2 k)),
     (''virtual_cmpxchg_qword2'', cell_3 (virtual_cmpxchg_qword2 k)),
     (''virtual_alloc'', cell_1 (virtual_alloc k)),
     (''virtual_free'', void_1 virtual_free),
     (''pci_config_read_byte'', read_state_4 (pci_config_read_byte k)),
     (''pci_config_read_word'', read_state_4 (pci_config_read_word k)),
     (''pci_config_read_dword'', read_state_4 (pci_config_read_dword k)),
     (''pci_config_read_qword'', read_state_4 (pci_config_read_qword k)),
     (''pci_config_write_byte'', cell_5 (pci_config_write_byte k)),
     (''pci_config_write_word'', cell_5 (pci_config_write_word k)),
     (''pci_config_write_dword'', cell_5 (pci_config_write_dword k)),
     (''pci_config_write_qword'', cell_5 (pci_config_write_qword k)),
     (''invoke'', invoke_native k),
     (''microsleep'', microsleep_native k),
     (''microsleep2'', cell_1 microsleep2),
     (''qpc'', cell_ref (qpc k))]"

text \<open>The natives only x64 has.\<close>

definition x64_natives :: "byte \<Rightarrow> 64 hw \<Rightarrow> (string \<times> 64 native) list" where
  "x64_natives pad k =
    [(''query_dell_smm'', dell_native k),
     (''io_out_byte'', void_2 io_out_byte),
     (''io_out_word'', void_2 io_out_word),
     (''io_out_dword'', void_2 io_out_dword),
     (''io_in_byte'', cell_1 (io_in_byte k)),
     (''io_in_word'', cell_1 (io_in_word k)),
     (''io_in_dword'', cell_1 (io_in_dword k)),
     (''llwpcb'', void_1 llwpcb),
     (''slwpcb'', cell_0 (slwpcb k)),
     (''cpuid'', cpuid_native k),
     (''cr_read'', register_read_native (cr_read pad k)),
     (''cr_write'', register_write_native (cr_write pad k)),
     (''dr_read'', register_read_native (dr_read pad k)),
     (''dr_write'', register_write_native (dr_write pad k)),
     (''xcr_read'', read_state_1 (xcr_read k)),
     (''xcr_write'', cell_2 (xcr_write k)),
     (''invlpg'', void_1 invlpg),
     (''invpcid'', void_2 invpcid),
     (''readpmc'', read_state_1 (readpmc k)),
     (''rdtsc'', cell_0 (rdtsc k)),
     (''rdtscp'', cell_ref (rdtscp k)),
     (''rdrand'', cell_ref (rdrand k)),
     (''rdseed'', cell_ref (rdseed k)),
     (''lidt'', void_2 lidt),
     (''sidt'', void_ref_2 (sidt k)),
     (''lgdt'', void_2 lgdt),
     (''sgdt'', void_ref_2 (sgdt k)),
     (''mxcsr_read'', cell_0 (mxcsr_read k)),
     (''mxcsr_write'', void_1 mxcsr_write),
     (''stac'', void_0 stac),
     (''clac'', void_0 clac),
     (''halt'', void_0 halt),
     (''ud2'', void_0 ud2),
     (''int3'', void_0 int3),
     (''int2c'', void_0 int2c),
     (''wbinvd'', void_0 wbinvd)]"

text \<open>The table of each build: on x86 and ARM64 there is nothing after the common entries.\<close>

definition wrapped :: "(string \<times> 'w::len native) list \<Rightarrow> (string \<times> 'w native entry) list" where
  "wrapped ns = map (\<lambda>(name, f). (name, Wrapped f)) ns"

definition NATIVES_x64 :: "byte \<Rightarrow> 64 hw \<Rightarrow> (string \<times> 64 native entry) list" where
  "NATIVES_x64 pad k = special_natives
    @ wrapped (common_natives X64 k (read_state_1 (msr_read k)) (cell_2 (msr_write k)) @ x64_natives pad k)"

definition NATIVES_x86 :: "32 hw \<Rightarrow> (string \<times> 32 native entry) list" where
  "NATIVES_x86 k = special_natives
    @ wrapped (common_natives X86 k (read_state_1 (msr_read_x86 k)) (cell_2 (msr_write_x86 k)))"

definition NATIVES_arm64 :: "(u64 \<Rightarrow> u64 \<Rightarrow> u32 + u64) \<Rightarrow> 64 hw \<Rightarrow> (string \<times> 64 native entry) list" where
  "NATIVES_arm64 run k = special_natives
    @ wrapped (common_natives A64 k (read_1 (\<lambda>msr _ _. msr_read_arm run msr))
        (cell_2 (\<lambda>msr v s. (msr_write_arm run msr v, s))))"

text \<open>The table as \<open>init\<close> gets it: the names are C strings.\<close>

definition native_args :: "(string \<times> 'n entry) list \<Rightarrow> (cstring \<times> 'n entry) list" where
  "native_args ns = map (\<lambda>(name, f). (cstr name, f)) ns"

section \<open>Every native is found under its name\<close>

lemma find_native_distinct:
  assumes "distinct (map fst ns)" and "(name, f) \<in> set ns"
  shows "find_native ns name = Some f"
  using assms
proof (induction ns)
  case (Cons n ns)
  then show ?case by (cases n) (force simp: find_native_def strcmp_eq_def)
qed simp

lemma byte_of_char_eq: "(of_char c :: byte) = of_char d \<longleftrightarrow> c = d"
proof
  assume "(of_char c :: byte) = of_char d"
  then have "(of_nat (of_char c) :: byte) = of_nat (of_char d)" by (simp add: of_nat_of_char)
  moreover have "unat (of_nat (of_char x) :: byte) = of_char x" for x
    using nat_of_char_less_256 [of x] by (intro unat_of_nat_small) simp
  ultimately have "(of_char c :: nat) = of_char d" by metis
  then show "c = d" by simp
qed simp

lemma cstr_eq: "cstr a = cstr b \<longleftrightarrow> a = b"
  unfolding cstr_def by (rule inj_eq) (simp add: inj_map inj_def byte_of_char_eq)

lemma distinct_native_args: "distinct (map fst ns) \<Longrightarrow> distinct (map fst (native_args ns))"
proof -
  assume "distinct (map fst ns)"
  moreover have "map fst (native_args ns) = map cstr (map fst ns)" by (auto simp: native_args_def)
  moreover have "inj cstr" by (simp add: inj_def cstr_eq)
  ultimately show ?thesis by (simp add: distinct_map inj_on_def cstr_eq)
qed

lemma table_lookup:
  assumes "distinct (map fst ns)" and "(name, f) \<in> set ns"
  shows "find_native (native_args ns) (cstr name) = Some f"
proof (rule find_native_distinct [OF distinct_native_args [OF assms(1)]])
  show "(cstr name, f) \<in> set (native_args ns)"
    using imageI [OF assms(2), of "\<lambda>(name, f). (cstr name, f)"] by (simp add: native_args_def)
qed

lemma distinct_x64: "distinct (map fst (NATIVES_x64 pad k))"
  by (simp add: NATIVES_x64_def special_natives_def wrapped_def common_natives_def x64_natives_def)

lemma distinct_x86: "distinct (map fst (NATIVES_x86 k))"
  by (simp add: NATIVES_x86_def special_natives_def wrapped_def common_natives_def)

lemma distinct_arm64: "distinct (map fst (NATIVES_arm64 run k))"
  by (simp add: NATIVES_arm64_def special_natives_def wrapped_def common_natives_def)

text \<open>
  in the table of every build each entry is found under its own name: no two natives have
  the same name, so the first match the loader takes is the native that was meant.
\<close>

theorem natives_resolved:
  "((n, f) \<in> set (NATIVES_x64 pad k) \<longrightarrow> find_native (native_args (NATIVES_x64 pad k)) (cstr n) = Some f)
    \<and> ((n, g) \<in> set (NATIVES_x86 k') \<longrightarrow> find_native (native_args (NATIVES_x86 k')) (cstr n) = Some g)
    \<and> ((n, h) \<in> set (NATIVES_arm64 run k) \<longrightarrow> find_native (native_args (NATIVES_arm64 run k)) (cstr n) = Some h)"
  using table_lookup [OF distinct_x64] table_lookup [OF distinct_x86] table_lookup [OF distinct_arm64] by blast

section \<open>A module writes memory and reads it back\<close>

text \<open>The two arguments at \<open>argv\<close>: their cells, and the cell a reference leads to.\<close>

definition two_values :: "64 amx_mem \<Rightarrow> (u64 \<Rightarrow> u64) \<Rightarrow> u64 \<Rightarrow> u64 \<Rightarrow> u64 \<Rightarrow> bool" where
  "two_values am cs argv a b \<longleftrightarrow>
    (\<exists>p q. v2p am argv = Some p \<and> v2p am (argv + 8) = Some q \<and> cs p = a \<and> cs q = b)"

lemma call_cell_2:
  fixes st :: "(64, 64 machine) host"
  assumes "two_values am (cells st) argv a b" and "f a b (world st) = (r, s')"
  shows "native_callback_wrapper2 (cell_2 f) am 2 argv retval st = Some (AE_success, r, st\<lparr>world := s'\<rparr>)"
  using assms
  by (auto simp: two_values_def native_callback_wrapper2_def cell_2_def native_def init_arg_def csize_def scalar_def)

lemma call_read_1:
  fixes st :: "(64, 64 machine) host"
  assumes "two_values am (cells st) argv a b" and "tr am b = Some q" and "f a 0 (world st) = (r, v)"
  shows "native_callback_wrapper2 (read_1 f) am 2 argv retval st =
    Some (AE_success, r, st\<lparr>cells := (cells st)(q := v)\<rparr>)"
  using assms
  by (auto simp: two_values_def native_callback_wrapper2_def read_1_def native_def init_arg_def csize_def scalar_def)


section \<open>Examples\<close>

theorem natives_resolved_witness:
  "find_native (native_args (NATIVES_x64 0 quiet_hw)) (cstr ''rdtsc'') = Some (Wrapped (cell_0 (rdtsc quiet_hw)))
    \<and> find_native (native_args (NATIVES_x86 quiet_hw)) (cstr ''get_arch'') = Some (Wrapped (cell_0 (get_arch X86)))
    \<and> find_native (native_args (NATIVES_arm64 (\<lambda>_ _. Inr 0) quiet_hw)) (cstr ''debug_print'') = Some (Special Debug_print)"
proof -
  have "(''rdtsc'', Wrapped (cell_0 (rdtsc quiet_hw))) \<in> set (NATIVES_x64 0 quiet_hw)"
    by (simp add: NATIVES_x64_def wrapped_def x64_natives_def)
  moreover have "(''get_arch'', Wrapped (cell_0 (get_arch X86))) \<in> set (NATIVES_x86 quiet_hw)"
    by (simp add: NATIVES_x86_def wrapped_def common_natives_def)
  moreover have "(''debug_print'', Special Debug_print) \<in> set (NATIVES_arm64 (\<lambda>_ _. Inr 0) quiet_hw)"
    by (simp add: NATIVES_arm64_def special_natives_def)
  ultimately show ?thesis
    using natives_resolved [where k = quiet_hw and k' = quiet_hw and pad = 0 and run = "\<lambda>_ _. Inr 0"] by blast
qed

text \<open>Arguments at 0 and 16: the address 0x5000 with the value 0x123456789, and with a reference to cell 40.\<close>

definition module_mem :: "64 amx_mem" where
  "module_mem = \<lparr>v2p = Some, tr = Some\<rparr>"

definition module_host :: "(64, 64 machine) host" where
  "module_host = \<lparr>cells = (\<lambda>p. if p = 0 then 0x5000 else if p = 8 then 0x123456789
     else if p = 16 then 0x5000 else if p = 24 then 40 else 0), world = blank_machine\<rparr>"


end
