(* ===== verification/Natives_Types.thy ===== *)
theory Natives_Types
  imports Natives_Table
begin

text \<open>
  The natives keep to their declarations (\<open>PawnIO/natives_impl.h\<close>): each leaves values of the
  types of its parameters, does not change the parameters it takes by value, and does not touch
  the memory of the module itself.  Together with the argument template this bounds what the
  call of any native can do to the cells of a module.
\<close>

section \<open>Natives that keep to their types\<close>

fun by_value :: "arg_type \<Rightarrow> bool" where
  "by_value CellVal \<longleftrightarrow> True"
| "by_value CellRef \<longleftrightarrow> False"
| "by_value (ArrVal n) \<longleftrightarrow> True"
| "by_value (ArrRef n) \<longleftrightarrow> False"

text \<open>A value an argument of the type may be left with, when it came in as \<open>v\<close>.\<close>

definition leaves :: "arg_type \<Rightarrow> 'c arg_value \<Rightarrow> 'c arg_value \<Rightarrow> bool" where
  "leaves t v v' \<longleftrightarrow> well_typed t v' \<and> (by_value t \<longrightarrow> v' = v)"

definition keeps_types :: "'w::len native \<Rightarrow> bool" where
  "keeps_types fn \<longleftrightarrow>
    (\<forall>vs st ret vs' st'. list_all2 well_typed (arg_types fn) vs \<longrightarrow> body fn vs st = Some (ret, vs', st') \<longrightarrow>
       cells st' = cells st \<and> length vs' = length vs
       \<and> (\<forall>i < length vs. leaves (arg_types fn ! i) (vs ! i) (vs' ! i)))"

text \<open>The answers that fill an array have its length.\<close>

definition hw_arrays_ok :: "64 hw \<Rightarrow> bool" where
  "hw_arrays_ok k \<longleftrightarrow> (\<forall>l sl. length (cpuidex k l sl) = 4)
     \<and> (\<forall>regs. length regs = 6 \<longrightarrow> length (fst (smm_call k regs)) = 6)"

named_theorems shape

lemmas [shape] = cell_0_def void_0_def cell_1_def cell_2_def cell_3_def cell_5_def void_1_def void_2_def
  cell_ref_def void_ref_2_def read_1_def read_state_1_def read_state_4_def

lemma keeps_typesI:
  assumes "\<And>vs s r vs' s'. list_all2 well_typed ts vs \<Longrightarrow> f vs s = Some (r, vs', s') \<Longrightarrow>
    list_all2 (\<lambda>t (v, v'). leaves t v v') ts (zip vs vs') \<and> length vs' = length vs"
  shows "keeps_types (native ts f)"
  unfolding keeps_types_def native_def
proof (intro allI impI, simp only: native_fn.simps)
  fix vs and st :: "('a, 'a machine) host" and ret vs' st'
  assume t: "list_all2 well_typed ts vs"
    and b: "do { (r, vs', s') \<leftarrow> f vs (world st); Some (r, vs', st\<lparr>world := s'\<rparr>) } = Some (ret, vs', st')"
  from b obtain s' where f: "f vs (world st) = Some (ret, vs', s')" and st': "st' = st\<lparr>world := s'\<rparr>"
    by (auto split: bind_splits)
  have "length ts = length vs" using t by (rule list_all2_lengthD)
  then show "cells st' = cells st \<and> length vs' = length vs \<and> (\<forall>i < length vs. leaves (ts ! i) (vs ! i) (vs' ! i))"
    using assms [OF t f] st' by (auto simp: list_all2_conv_all_nth)
qed

lemma shapes_keep_types:
  "keeps_types (cell_0 (c :: 'w::len word))" "keeps_types (void_0 g)" "keeps_types (cell_1 f1)" "keeps_types (cell_2 f2)"
  "keeps_types (cell_3 f3)" "keeps_types (cell_5 f5)" "keeps_types (void_1 g1)" "keeps_types (void_2 g2)"
  "keeps_types (cell_ref p)" "keeps_types (void_ref_2 p)" "keeps_types (read_1 r1)"
  "keeps_types (read_state_1 rs)" "keeps_types (read_state_4 rs4)"
  by (unfold shape; rule keeps_typesI; auto simp: list_all2_Cons1 leaves_def Let_def split: prod.splits)+

lemma own_shapes_keep_types:
  fixes k :: "'w::len hw" and k64 :: "64 hw"
  shows "keeps_types (set_affinity_native k)" and "keeps_types (restore_affinity_native :: 'w native)"
    and "keeps_types (microsleep_native k)" and "keeps_types (invoke_native k)"
    and "keeps_types (register_read_native g)" and "keeps_types (register_write_native g')"
    and "hw_arrays_ok k64 \<Longrightarrow> keeps_types (cpuid_native k64)"
    and "hw_arrays_ok k64 \<Longrightarrow> keeps_types (dell_native k64)"
proof -
  note split_shape = list_all2_Cons1 leaves_def Let_def
  show "keeps_types (set_affinity_native k)"
    unfolding set_affinity_native_def
    by (rule keeps_typesI) (auto simp: split_shape cpu_set_affinity_def elements_def save_affinity_def
        split: prod.splits if_splits bind_splits)
  show "keeps_types (restore_affinity_native :: 'w native)"
    unfolding restore_affinity_native_def by (rule keeps_typesI) (auto simp: split_shape split: prod.splits)
  show "keeps_types (microsleep_native k)"
    unfolding microsleep_native_def by (rule keeps_typesI) (auto simp: split_shape split: bind_splits)
  show "keeps_types (register_read_native g)" "keeps_types (register_write_native g')"
    unfolding register_read_native_def register_write_native_def
    by (rule keeps_typesI; auto simp: split_shape split: bind_splits)+
  show "keeps_types (cpuid_native k64)" if "hw_arrays_ok k64"
    unfolding cpuid_native_def using that
    by (intro keeps_typesI) (auto simp: split_shape cpuid_def hw_arrays_ok_def)
  show "keeps_types (dell_native k64)" if "hw_arrays_ok k64"
    unfolding dell_native_def
  proof (rule keeps_typesI, goal_cases)
    case (1 vs s r vs' s')
    then obtain a b where vs: "vs = [VArr a, b]" "length a = 6" by (auto simp: list_all2_Cons1)
    have "length (fst (smm_call k64 (map ucast a))) = 6" using that vs(2) by (simp add: hw_arrays_ok_def)
    then show ?case using 1(2)
      by (auto simp: vs leaves_def Let_def query_dell_smm_def elements_def split: prod.splits)
  qed
  show "keeps_types (invoke_native k)"
    unfolding invoke_native_def
  proof (rule keeps_typesI, goal_cases)
    case (1 vs s r vs' s')
    let ?ts = "CellVal # CellRef # replicate 16 CellVal"
    have n: "length vs = 18" using list_all2_lengthD [OF 1(1)] by simp
    obtain v where v: "vs' = vs[1 := VCell v]" using 1(2) by (auto simp: Let_def split: prod.splits)
    have "leaves (?ts ! i) (vs ! i) (vs' ! i)" if "i < 18" for i
    proof (cases "i = 1")
      case True
      then show ?thesis using n by (simp add: v leaves_def)
    next
      case False
      have "well_typed (?ts ! i) (vs ! i)" using list_all2_nthD [OF 1(1), of i] that by simp
      moreover have "vs' ! i = vs ! i" using False by (simp add: v)
      ultimately show ?thesis by (simp add: leaves_def)
    qed
    then show ?case using n by (simp add: v list_all2_conv_all_nth)
  qed
qed

section \<open>Every native of every table\<close>

lemma wrapped_in: "(n, Wrapped f) \<in> set (special_natives @ wrapped ns) \<longleftrightarrow> (n, f) \<in> set ns"
  by (force simp: special_natives_def wrapped_def)

lemma common_natives_keep_types:
  assumes "keeps_types rd" and "keeps_types wr"
  shows "\<forall>e \<in> set (common_natives a k rd wr). keeps_types (snd e)"
  unfolding common_natives_def
  by (simp only: list.set ball_simps snd_conv assms shapes_keep_types own_shapes_keep_types simp_thms)

lemma x64_natives_keep_types:
  assumes "hw_arrays_ok k"
  shows "\<forall>e \<in> set (x64_natives pad k). keeps_types (snd e)"
  unfolding x64_natives_def
  by (simp only: list.set ball_simps snd_conv shapes_keep_types own_shapes_keep_types
      own_shapes_keep_types(7,8) [OF assms] simp_thms)

lemma table_keeps_types_x64:
  assumes "hw_arrays_ok k" and "(n, Wrapped f) \<in> set (NATIVES_x64 pad k)"
  shows "keeps_types f"
  using assms(2) common_natives_keep_types [OF shapes_keep_types(12) [of "msr_read k"] shapes_keep_types(4) [of "msr_write k"]]
    x64_natives_keep_types [OF assms(1)]
  unfolding NATIVES_x64_def wrapped_in by fastforce

lemma table_keeps_types_x86: "(n, Wrapped f) \<in> set (NATIVES_x86 k) \<Longrightarrow> keeps_types f"
  using common_natives_keep_types [OF shapes_keep_types(12) [of "msr_read_x86 k"] shapes_keep_types(4) [of "msr_write_x86 k"]]
  unfolding NATIVES_x86_def wrapped_in by fastforce

lemma table_keeps_types_arm64: "(n, Wrapped f) \<in> set (NATIVES_arm64 run k) \<Longrightarrow> keeps_types f"
  using common_natives_keep_types [OF shapes_keep_types(11) shapes_keep_types(4)]
  unfolding NATIVES_arm64_def wrapped_in by fastforce


section \<open>What a call can change in the module\<close>

fun wrapper_ptrs :: "'c wrapper \<Rightarrow> 'c set" where
  "wrapper_ptrs (WCellRef p v) = set_option p"
| "wrapper_ptrs (WCellVal v) = {}"
| "wrapper_ptrs (WArrRef ps vs) = {q. Some q \<in> set ps}"
| "wrapper_ptrs (WArrVal vs) = {}"

text \<open>The cells the reference arguments from argument \<open>i\<close> on refer to.\<close>

definition ref_targets ::
  "'w::len amx_mem \<Rightarrow> ('w word \<Rightarrow> 'w word) \<Rightarrow> 'w word \<Rightarrow> nat \<Rightarrow> arg_type list \<Rightarrow> 'w word set"
where
  "ref_targets am cs argv i ts = (\<Union>j < length ts. set (arg_targets am cs argv (i + j) (ts ! j)))"

lemma ref_targets_Cons:
  "ref_targets am cs argv i (t # ts) = set (arg_targets am cs argv i t) \<union> ref_targets am cs argv (Suc i) ts"
proof -
  have "{..<length (t # ts)} = insert 0 (Suc ` {..<length ts})" by (simp add: lessThan_Suc_eq_insert_0)
  then show ?thesis by (simp add: ref_targets_def image_image)
qed

lemma write_array_frame: "write_array ps vs cs = Some cs' \<Longrightarrow> Some p \<notin> set ps \<Longrightarrow> cs' p = cs p"
  by (induction ps arbitrary: vs cs) (fastforce split: option.splits)+

lemma destroy_wrapper_frame: "destroy_wrapper w cs = Some cs' \<Longrightarrow> p \<notin> wrapper_ptrs w \<Longrightarrow> cs' p = cs p"
  by (cases w) (auto simp: write_array_frame split: option.splits)

lemma destroy_wrappers_frame:
  "destroy_wrappers ws cs = Some cs' \<Longrightarrow> p \<notin> (\<Union>w \<in> set ws. wrapper_ptrs w) \<Longrightarrow> cs' p = cs p"
proof (induction ws arbitrary: cs)
  case (Cons w ws)
  then obtain cs1 where "destroy_wrapper w cs = Some cs1" "destroy_wrappers ws cs1 = Some cs'"
    by (auto split: bind_splits)
  then show ?case using Cons.IH [of cs1] Cons.prems(2) destroy_wrapper_frame [of w cs cs1 p] by simp
qed simp

lemma new_wrapper_ptrs [simp]: "wrapper_ptrs (new_wrapper t :: 'w::len word wrapper) = {}"
  by (cases t) auto

lemma init_arg_ptrs: "wrapper_ptrs (fst (init_arg am cs argv j t)) \<subseteq> set (arg_targets am cs argv j t)"
proof (cases t)
  case (ArrRef n)
  show ?thesis
  proof (cases "v2p am (argv + of_nat j * csize TYPE('a))")
    case (Some p)
    obtain es ok where es: "array_elems am cs (cs p) 0 n = (es, ok)" by (cases "array_elems am cs (cs p) 0 n")
    show ?thesis
    proof (cases ok)
      case True
      then have "set (map fst es) = set (array_targets am (cs p) n)"
        using array_elems_targets(1) [of am cs "cs p" n es] es by simp
      then show ?thesis using True ArrRef Some es by (auto simp: init_arg_def arg_targets_def arg_slot_def)
    qed (use ArrRef Some es in \<open>auto simp: init_arg_def\<close>)
  qed (use ArrRef in \<open>auto simp: init_arg_def\<close>)
qed (auto simp: init_arg_def arg_targets_def arg_slot_def Let_def split: option.splits prod.splits)

lemma init_args_ptrs:
  "(\<Union>w \<in> set (fst (init_args am cs argv i ts)). wrapper_ptrs w) \<subseteq> ref_targets am cs argv i ts"
proof (induction ts arbitrary: i)
  case (Cons t ts)
  obtain w err ws err' where w: "init_arg am cs argv i t = (w, err)" "init_args am cs argv (Suc i) ts = (ws, err')"
    by fastforce
  have "wrapper_ptrs w \<subseteq> set (arg_targets am cs argv i t)" "(\<Union>w \<in> set ws. wrapper_ptrs w) \<subseteq> ref_targets am cs argv (Suc i) ts"
    using init_arg_ptrs [of am cs argv i t] Cons.IH [of "Suc i"] w by simp_all
  then show ?case by (cases "err = AE_success") (auto simp: w ref_targets_Cons)
qed simp

lemma set_value_ptrs [simp]: "wrapper_ptrs (set_value w v) = wrapper_ptrs w"
  by (cases "(w, v)" rule: set_value.cases) auto

lemma map2_set_value_ptrs:
  "(\<Union>w \<in> set (map2 set_value ws vs). wrapper_ptrs w) \<subseteq> (\<Union>w \<in> set ws. wrapper_ptrs w)"
  by (auto dest!: set_zip_leftD)

lemma length_array_elems: "length (fst (array_elems am cs b i n)) \<le> n"
proof (induction n arbitrary: i)
  case (Suc n)
  show ?case using Suc [of "Suc i"] by (auto split: option.splits prod.splits)
qed simp

lemma init_arg_typed: "well_typed t (wrapper_value (fst (init_arg am cs argv j t)))"
proof -
  have n: "length es \<le> n" if "array_elems am cs b i n = (es, ok)" for b i n es ok
    using length_array_elems [of am cs b i n] that by simp
  show ?thesis
    by (cases t) (auto simp: init_arg_def Let_def dest: n split: option.splits prod.splits)
qed

lemma new_wrapper_typed: "well_typed t (wrapper_value (new_wrapper t :: 'w::len word wrapper))"
  by (cases t) auto

lemma init_args_typed: "list_all2 well_typed ts (map wrapper_value (fst (init_args am cs argv i ts)))"
proof (induction ts arbitrary: i)
  case (Cons t ts)
  have "list_all2 well_typed ts (map wrapper_value (map new_wrapper ts :: 'a word wrapper list))"
    by (simp add: list_all2_conv_all_nth new_wrapper_typed)
  then show ?case
    using init_arg_typed [of t am cs argv i] Cons.IH [of "Suc i"] by (auto split: prod.splits)
qed simp

lemma call_frame:
  assumes "keeps_types fn" and "native_callback_wrapper2 fn am argc argv retval st = Some (e, r, st')"
    and "p \<notin> ref_targets am (cells st) argv 0 (arg_types fn)"
  shows "cells st' p = cells st p"
proof -
  obtain ws err where ws: "init_args am (cells st) argv 0 (arg_types fn) = (ws, err)" by fastforce
  have p: "p \<notin> (\<Union>w \<in> set ws. wrapper_ptrs w)"
    using init_args_ptrs [of am "cells st" argv 0 "arg_types fn"] assms(3) ws by auto
  have typed: "list_all2 well_typed (arg_types fn) (map wrapper_value ws)"
    using init_args_typed [of "arg_types fn" am "cells st" argv 0] ws by simp
  show ?thesis
  proof (cases "argc \<noteq> of_nat (length (arg_types fn)) \<or> err \<noteq> AE_success")
    case True
    then show ?thesis
      using assms(2) destroy_wrappers_frame [OF _ p]
      by (auto simp: native_callback_wrapper2_def ws split: if_splits bind_splits)
  next
    case False
    then obtain ret vs st1 cs where b: "body fn (map wrapper_value ws) st = Some (ret, vs, st1)"
      and d: "destroy_wrappers (map2 set_value ws vs) (cells st1) = Some cs" and st': "cells st' = cs"
      using assms(2) by (auto simp: native_callback_wrapper2_def ws split: if_splits bind_splits)
    have "cells st1 = cells st" using assms(1) typed b unfolding keeps_types_def by blast
    moreover have "p \<notin> (\<Union>w \<in> set (map2 set_value ws vs). wrapper_ptrs w)"
      using p map2_set_value_ptrs [of ws vs] by blast
    ultimately show ?thesis using destroy_wrappers_frame [OF d] st' by simp
  qed
qed

section \<open>Examples\<close>

lemma quiet_hw_arrays: "hw_arrays_ok quiet_hw"
  by (simp add: hw_arrays_ok_def quiet_hw_def)


end
