(* ===== verification/Amx_Text.thy ===== *)
theory Amx_Text
  imports Native_Args Loader_Fill
begin

text \<open>
  The natives of \<open>PawnIO/vm.cpp\<close> that take strings from a module: \<open>debug_print\<close>,
  \<open>amx_strcpy\<close>, \<open>get_proc_address_wrap\<close> and \<open>get_public\<close>, with
  \<open>get_proc_address\<close> of \<open>PawnIO/natives_impl_windows.cpp\<close>.  A string of a module is
  one character per cell, in the low byte.

  The local buffers are lists of bytes, and a write outside them has no defined result.
\<close>

section \<open>Local buffers\<close>

definition write_at :: "byte list \<Rightarrow> nat \<Rightarrow> byte list \<Rightarrow> byte list option" where
  "write_at buf i bs =
    (if i + length bs \<le> length buf then Some (take i buf @ bs @ drop (i + length bs) buf) else None)"

definition char_of_cell :: "'w::len word \<Rightarrow> byte" where
  "char_of_cell c = ucast c"

section \<open>debug\_print\<close>

abbreviation ch_percent :: byte where "ch_percent \<equiv> 0x25"
abbreviation ch_l :: byte where "ch_l \<equiv> 0x6C"

text \<open>The conversions \<open>d i u o x X\<close>.\<close>

definition conversions :: "byte list" where
  "conversions = [0x64, 0x69, 0x75, 0x6F, 0x78, 0x58]"

definition print_prefix :: cstring where
  "print_prefix = cstr ''[PawnIO] debug_print: ''"

definition print_buffer :: "byte list" where
  "print_buffer = print_prefix @ replicate (1024 - length print_prefix) 0"

text \<open>One character: what to append, the new count and escape flag; or the end, or an error.\<close>

datatype fmt_step = Append "byte list" nat bool | Finish | Reject

definition format_char :: "byte \<Rightarrow> nat \<Rightarrow> bool \<Rightarrow> fmt_step" where
  "format_char c arg_count in_escape =
    (if in_escape
     then if c = ch_percent then Append [ch_percent, ch_percent] arg_count False
          else if c \<in> set conversions then Append [ch_percent, ch_l, ch_l, c] (arg_count + 1) False
          else Reject
     else if c = ch_percent then Append [] arg_count True
          else if c = 0 then Finish
          else Append [c] arg_count False)"

text \<open>
  The loop.  \<open>i\<close> is \<open>it - message\<close>.  The result is the buffer and the argument count, or
  the error.
\<close>

function format_loop ::
  "'w::len amx_mem \<Rightarrow> ('w word \<Rightarrow> 'w word) \<Rightarrow> byte list \<Rightarrow> nat \<Rightarrow> 'w word \<Rightarrow> nat \<Rightarrow> bool \<Rightarrow>
   (amx_error + byte list \<times> nat) option"
where
  "format_loop am cs message i vit arg_count in_escape =
    (case tr am vit of
       None \<Rightarrow> Some (Inl AE_access_violation)
     | Some pc \<Rightarrow>
        (case format_char (char_of_cell (cs pc)) arg_count in_escape of
           Reject \<Rightarrow> Some (Inl AE_invalid_operand)
         | Finish \<Rightarrow> Some (Inr (message, arg_count))
         | Append to_cat arg_count' in_escape' \<Rightarrow>
            (if i + length to_cat \<ge> 1024 then Some (Inr (message, arg_count'))
             else do {
               message' \<leftarrow> write_at message i (to_cat @ [0]);
               format_loop am cs message' (i + length to_cat) (vit + csize TYPE('w))
                 arg_count' in_escape' })))"
  by pat_completeness auto

termination
  by (relation "measure (\<lambda>(am, cs, message, i, vit, arg_count, in_escape).
      2 * (1024 - i) + (if in_escape then 0 else 1))")
    (auto simp: format_char_def split: if_splits)

declare format_loop.simps [simp del]

text \<open>The loop over the arguments, from argument \<open>i\<close> on.\<close>

fun read_args ::
  "'w::len amx_mem \<Rightarrow> ('w word \<Rightarrow> 'w word) \<Rightarrow> 'w word \<Rightarrow> nat \<Rightarrow> nat \<Rightarrow> 'w word list option"
where
  "read_args am cs argv i 0 = Some []"
| "read_args am cs argv i (Suc k) = do {
     pparg \<leftarrow> v2p am (argv + of_nat (i + 1) * csize TYPE('w));
     parg \<leftarrow> tr am (cs pparg);
     rest \<leftarrow> read_args am cs argv (Suc i) k;
     Some (cs parg # rest) }"

text \<open>
  \<open>debug_print\<close>: the error, and the buffer and arguments handed to \<open>vDbgPrintEx\<close>, if it
  gets there.  \<open>retval\<close> is always 0.
\<close>

definition debug_print ::
  "'w::len amx_mem \<Rightarrow> ('w word \<Rightarrow> 'w word) \<Rightarrow> 'w word \<Rightarrow> 'w word \<Rightarrow>
   (amx_error \<times> (byte list \<times> 'w word list) option) option"
where
  "debug_print am cs argc argv =
    (if argc = 0 then Some (AE_invalid_operand, None)
     else case v2p am argv of
       None \<Rightarrow> Some (AE_access_violation, None)
     | Some pvfmt \<Rightarrow> do {
         r \<leftarrow> format_loop am cs print_buffer (length print_prefix) (cs pvfmt) 0 False;
         case r of
           Inl err \<Rightarrow> Some (err, None)
         | Inr (message, arg_count) \<Rightarrow>
            (if arg_count > unat (argc - 1) then Some (AE_invalid_operand, None)
             else if arg_count > 64 then Some (AE_invalid_operand, None)
             else case read_args am cs argv 0 arg_count of
                None \<Rightarrow> Some (AE_invalid_operand, None)
              | Some args \<Rightarrow>
                  Some (AE_success, Some (message, args @ replicate (64 - arg_count) 0))) })"

section \<open>amx\_strcpy\<close>

text \<open>
  The loop of \<open>amx_strcpy\<close>: the index after the last character and the buffer, or \<open>Inl\<close>
  for the return value -1.  With \<open>dst_len = 0\<close> it only ends at a terminator.
\<close>

partial_function (option) strcpy_loop ::
  "'w::len amx_mem \<Rightarrow> ('w word \<Rightarrow> 'w word) \<Rightarrow> byte list \<Rightarrow> nat \<Rightarrow> 'w word \<Rightarrow> nat \<Rightarrow>
   (unit + nat \<times> byte list) option"
where
  "strcpy_loop am cs dst dst_len vit idx =
    (case tr am vit of
       None \<Rightarrow> Some (Inl ())
     | Some pc \<Rightarrow>
        (let c = char_of_cell (cs pc)
         in Option.bind (if dst_len \<noteq> 0 then write_at dst idx [c] else Some dst)
           (\<lambda>dst1.
             if c = 0 then Some (Inr (idx + 1, dst1))
             else if idx + 1 = dst_len
             then Option.bind (write_at dst1 (dst_len - 1) [0]) (\<lambda>dst2. Some (Inr (idx + 1, dst2)))
             else strcpy_loop am cs dst1 dst_len (vit + csize TYPE('w)) (idx + 1))))"

definition amx_strcpy ::
  "'w::len amx_mem \<Rightarrow> ('w word \<Rightarrow> 'w word) \<Rightarrow> byte list \<Rightarrow> nat \<Rightarrow> 'w word \<Rightarrow> (int \<times> byte list option) option"
where
  "amx_strcpy am cs dst dst_len vfmt =
    map_option (\<lambda>r. case r of Inl _ \<Rightarrow> (- 1, None) | Inr (idx, dst') \<Rightarrow> (int idx - 1, Some dst'))
      (strcpy_loop am cs dst dst_len vfmt 0)"

section \<open>The natives that take a name\<close>

text \<open>
  Both natives, up to what they do with the name: \<open>n\<close> is the size of the local buffer and
  \<open>look_up\<close> the function called with it.  They return the error and \<open>retval\<close>.
\<close>

definition name_native ::
  "nat \<Rightarrow> (cstring \<Rightarrow> 'w word option) \<Rightarrow> 'w::len amx_mem \<Rightarrow> ('w word \<Rightarrow> 'w word) \<Rightarrow>
   'w word \<Rightarrow> 'w word \<Rightarrow> (amx_error \<times> 'w word) option"
where
  "name_native n look_up am cs argc argv =
    (if argc = 0 then Some (AE_invalid_operand, 0)
     else case v2p am argv of
       None \<Rightarrow> Some (AE_access_violation, 0)
     | Some pvfmt \<Rightarrow> do {
         (res, func_name) \<leftarrow> amx_strcpy am cs (replicate n 0) n (cs pvfmt);
         if res = 0 then Some (AE_invalid_operand, 0)
         else if res = - 1 then Some (AE_access_violation, 0)
         else do {
           buf \<leftarrow> func_name;
           name \<leftarrow> c_string buf 0;
           r \<leftarrow> look_up name;
           Some (AE_success, r) } })"

text \<open>
  \<open>get_proc_address\<close>: the name, one \<open>wchar_t\<close> per (signed) character, cut at 1023, is
  looked up by \<open>MmGetSystemRoutineAddress\<close>, a parameter.
\<close>

definition get_proc_address :: "(u16 list \<Rightarrow> 'w::len word) \<Rightarrow> cstring \<Rightarrow> 'w word" where
  "get_proc_address mm_routine name = mm_routine (map scast (take 1023 name))"

definition get_proc_address_wrap ::
  "(u16 list \<Rightarrow> 'w::len word) \<Rightarrow> 'w amx_mem \<Rightarrow> ('w word \<Rightarrow> 'w word) \<Rightarrow> 'w word \<Rightarrow> 'w word \<Rightarrow>
   (amx_error \<times> 'w word) option"
where
  "get_proc_address_wrap mm_routine =
    name_native 1024 (\<lambda>name. Some (get_proc_address mm_routine name))"

definition get_public_native ::
  "('w, 'f, 'g, 'u, 'a) loader \<Rightarrow> 'w::len amx_mem \<Rightarrow> ('w word \<Rightarrow> 'w word) \<Rightarrow> 'w word \<Rightarrow> 'w word \<Rightarrow>
   (amx_error \<times> 'w word) option"
where
  "get_public_native l = name_native 33 (get_public l)"

section \<open>Format strings are safe\<close>

text \<open>
  Format strings with no other directives than \<open>%%\<close> and \<open>%ll\<close> with one of the six letters,
  and how many of the latter they have.
\<close>

inductive format_args :: "byte list \<Rightarrow> nat \<Rightarrow> bool" where
  fmt_end: "format_args [] 0"
| fmt_literal: "c \<noteq> ch_percent \<Longrightarrow> format_args s n \<Longrightarrow> format_args (c # s) n"
| fmt_percent: "format_args s n \<Longrightarrow> format_args (ch_percent # ch_percent # s) n"
| fmt_conv: "k \<in> set conversions \<Longrightarrow> format_args s n \<Longrightarrow>
    format_args (ch_percent # ch_l # ch_l # k # s) (Suc n)"

lemma format_args_append:
  "format_args s m \<Longrightarrow> format_args t n \<Longrightarrow> format_args (s @ t) (m + n)"
  by (induction rule: format_args.induct) (auto intro: format_args.intros)

lemma format_args_literal: "ch_percent \<notin> set s \<Longrightarrow> format_args s 0"
  by (induction s) (auto intro: format_args.intros)

lemma format_char_args:
  assumes "format_char c k esc = Append s k' esc'"
  shows "\<exists>m. format_args s m \<and> k' = k + m" and "0 \<notin> set s"
proof -
  have "k \<in> set conversions \<Longrightarrow> format_args [ch_percent, ch_l, ch_l, k] 1" for k
    using fmt_conv [OF _ fmt_end, of k] by simp
  moreover have "format_args [ch_percent, ch_percent] 0" by (rule fmt_percent [OF fmt_end])
  moreover have "c \<noteq> ch_percent \<Longrightarrow> format_args [c] 0" by (rule fmt_literal [OF _ fmt_end])
  ultimately show "\<exists>m. format_args s m \<and> k' = k + m"
    using assms fmt_end by (fastforce simp: format_char_def split: if_splits)
  show "0 \<notin> set s"
    using assms by (auto simp: format_char_def conversions_def split: if_splits)
qed

text \<open>
  The buffer during the loop: a format string of \<open>i\<close> bytes without terminator, a
  terminator, and 1024 bytes in all.
\<close>

definition buffer_ok :: "byte list \<Rightarrow> nat \<Rightarrow> nat \<Rightarrow> bool" where
  "buffer_ok message i m \<longleftrightarrow>
     length message = 1024 \<and> i < 1024 \<and> message ! i = 0 \<and> 0 \<notin> set (take i message)
     \<and> take (length print_prefix) message = print_prefix \<and> length print_prefix \<le> i
     \<and> format_args (take i message) m"

lemma buffer_ok_write:
  assumes "buffer_ok message i m" and "i + length s < 1024" and "0 \<notin> set s" and "format_args s n"
  shows "\<exists>message'. write_at message i (s @ [0]) = Some message'
    \<and> buffer_ok message' (i + length s) (m + n)"
proof -
  let ?m = "take i message @ (s @ [0]) @ drop (i + length (s @ [0])) message"
  have b: "length message = 1024" "i < 1024" "0 \<notin> set (take i message)"
    "take (length print_prefix) message = print_prefix" "length print_prefix \<le> i"
    "format_args (take i message) m"
    using assms(1) by (auto simp: buffer_ok_def)
  have w: "write_at message i (s @ [0]) = Some ?m"
    using assms(2) b(1) by (simp add: write_at_def)
  have t: "take (i + length s) ?m = take i message @ s" using b by simp
  have "?m ! (i + length s) = 0" using b by (simp add: nth_append)
  moreover have "length ?m = 1024" using assms(2) b by simp
  moreover have "take (length print_prefix) ?m = print_prefix"
    using b by (simp add: min_def)
  moreover have "format_args (take (i + length s) ?m) (m + n)"
    unfolding t using b(6) assms(4) by (rule format_args_append)
  moreover have "0 \<notin> set (take (i + length s) ?m)" unfolding t using b(3) assms(3) by simp
  ultimately show ?thesis
    using w assms(2) b(5) unfolding buffer_ok_def by (intro exI [of _ ?m]) linarith
qed

lemma format_loop_safe:
  assumes "buffer_ok message i m" and "m \<le> k"
  shows "\<exists>r. format_loop am cs message i vit k esc = Some r
    \<and> (\<forall>message' k'. r = Inr (message', k') \<longrightarrow> (\<exists>i' m'. buffer_ok message' i' m' \<and> m' \<le> k'))"
  using assms
proof (induction am cs message i vit k esc arbitrary: m rule: format_loop.induct)
  case (1 am cs message i vit k esc)
  show ?case
  proof (cases "tr am vit")
    case None
    then show ?thesis by (subst format_loop.simps) simp
  next
    case pc: (Some pc)
    show ?thesis
    proof (cases "format_char (char_of_cell (cs pc)) k esc")
      case (Append s k' esc')
      obtain n where n: "format_args s n" "k' = k + n" using format_char_args(1) [OF Append] by blast
      have z: "0 \<notin> set s" by (rule format_char_args(2) [OF Append])
      show ?thesis
      proof (cases "i + length s \<ge> 1024")
        case True
        have "m \<le> k'" using n "1.prems"(2) by simp
        then show ?thesis
          using "1.prems"(1) True by (subst format_loop.simps) (auto simp: pc Append)
      next
        case False
        then obtain message' where w: "write_at message i (s @ [0]) = Some message'"
          and ok: "buffer_ok message' (i + length s) (m + n)"
          using buffer_ok_write [OF "1.prems"(1) _ z n(1)] by auto
        have "m + n \<le> k'" using n "1.prems"(2) by simp
        from "1.IH" [OF pc Append False, OF w, OF ok this] show ?thesis
          using False by (subst format_loop.simps) (simp add: pc Append w)
      qed
    next
      case Finish
      then show ?thesis using "1.prems" by (subst format_loop.simps) (auto simp: pc)
    next
      case Reject
      then show ?thesis by (subst format_loop.simps) (simp add: pc)
    qed
  qed
qed

lemma print_prefix_eval:
  "print_prefix = [0x5B, 0x50, 0x61, 0x77, 0x6E, 0x49, 0x4F, 0x5D, 0x20, 0x64, 0x65, 0x62, 0x75, 0x67,
     0x5F, 0x70, 0x72, 0x69, 0x6E, 0x74, 0x3A, 0x20]"
  by (simp add: print_prefix_def cstr_def of_char_Char)

lemma buffer_ok_start: "buffer_ok print_buffer (length print_prefix) 0"
  unfolding buffer_ok_def print_buffer_def
  by (auto simp: nth_append print_prefix_eval intro!: format_args_literal)

lemma format_loop_error: "format_loop am cs message i vit k esc \<noteq> Some (Inl AE_success)"
proof (induction am cs message i vit k esc rule: format_loop.induct)
  case (1 am cs message i vit k esc)
  show ?case
  proof (cases "tr am vit")
    case None
    then show ?thesis by (subst format_loop.simps) simp
  next
    case pc: (Some pc)
    show ?thesis
    proof (cases "format_char (char_of_cell (cs pc)) k esc")
      case (Append s k' esc')
      show ?thesis
      proof (cases "i + length s \<ge> 1024 \<or> write_at message i (s @ [0]) = None")
        case True
        then show ?thesis by (subst format_loop.simps) (auto simp: pc Append)
      next
        case False
        then obtain message' where w: "write_at message i (s @ [0]) = Some message'" by auto
        have "\<not> i + length s \<ge> 1024" using False by simp
        from "1.IH" [OF pc Append this, OF w] show ?thesis
          using False by (subst format_loop.simps) (simp add: pc Append w)
      qed
    next
      case Finish
      then show ?thesis by (subst format_loop.simps) (auto simp: pc)
    next
      case Reject
      then show ?thesis by (subst format_loop.simps) (simp add: pc)
    qed
  qed
qed

lemma buffer_ok_string:
  assumes "buffer_ok message i m"
  shows "c_string message 0 = Some (take i message)"
proof -
  have z: "i < length message" "message ! i = 0" "0 \<notin> set (take i message)"
    using assms by (auto simp: buffer_ok_def)
  have "takeWhile (\<lambda>b. b \<noteq> 0) (take i message @ 0 # drop (Suc i) message) = take i message"
    using z(3) by (subst takeWhile_append2) auto
  then have "takeWhile (\<lambda>b. b \<noteq> 0) message = take i message"
    using id_take_nth_drop [OF z(1)] z(2) by simp
  then show ?thesis using z(1) by (simp add: c_string_def Let_def)
qed

lemma read_args_length: "read_args am cs argv i k = Some xs \<Longrightarrow> length xs = k"
  by (induction am cs argv i k arbitrary: xs rule: read_args.induct) (auto simp: bind_Some_conv)

text \<open>
  C19: \<open>debug_print\<close> always returns, whatever the module passes, and never writes outside its
  1024-byte buffer.  What it prints is a terminated string that starts with the driver's
  prefix, has no other directives than \<open>%%\<close> and the six conversions, and at most as many of
  the latter as the module passed arguments, at most 64.
\<close>

theorem debug_print_safe:
  "case debug_print am cs argc argv of
     None \<Rightarrow> False
   | Some (e, None) \<Rightarrow> e \<noteq> AE_success
   | Some (e, Some (message, args)) \<Rightarrow>
       e = AE_success \<and> length message = 1024 \<and> length args = 64
       \<and> (\<exists>s n. c_string message 0 = Some (print_prefix @ s) \<and> format_args (print_prefix @ s) n
            \<and> n \<le> 64 \<and> n < unat argc)"
proof (cases "argc = 0 \<or> v2p am argv = None")
  case True
  then show ?thesis by (auto simp: debug_print_def)
next
  case False
  then obtain p where p: "argc \<noteq> 0" "v2p am argv = Some p" by auto
  have argc: "unat (argc - 1) = unat argc - 1" "0 < unat argc"
    using p(1) by (simp_all add: unat_minus_one unat_gt_0)
  obtain r where r: "format_loop am cs print_buffer (length print_prefix) (cs p) 0 False = Some r"
    and ok: "\<And>message' k'. r = Inr (message', k') \<Longrightarrow> \<exists>i' m'. buffer_ok message' i' m' \<and> m' \<le> k'"
    using format_loop_safe [OF buffer_ok_start le_refl] by blast
  show ?thesis
  proof (cases r)
    case (Inl e)
    have "e \<noteq> AE_success" using format_loop_error r Inl by blast
    then show ?thesis using r by (simp add: debug_print_def p Inl)
  next
    case (Inr mk)
    obtain message k where mk: "mk = (message, k)" by (cases mk)
    obtain i m where b: "buffer_ok message i m" "m \<le> k" using ok Inr mk by blast
    have pre: "take i message = print_prefix @ drop (length print_prefix) (take i message)"
    proof -
      have "take (length print_prefix) (take i message) = print_prefix"
        using b(1) by (simp add: buffer_ok_def min_def)
      then show ?thesis by (metis append_take_drop_id)
    qed
    have "c_string message 0 = Some (take i message)" "format_args (take i message) m"
      "length message = 1024"
      using buffer_ok_string [OF b(1)] b(1) by (simp_all add: buffer_ok_def)
    then have str: "\<exists>s. c_string message 0 = Some (print_prefix @ s) \<and> format_args (print_prefix @ s) m"
      using pre by metis
    show ?thesis
    proof (cases "k > unat (argc - 1) \<or> k > 64 \<or> read_args am cs argv 0 k = None")
      case True
      then show ?thesis using r by (auto simp: debug_print_def p Inr mk)
    next
      case False
      then obtain args where a: "read_args am cs argv 0 k = Some args" by auto
      have "length args = k" using read_args_length [OF a] .
      moreover have "m \<le> 64" "m < unat argc" using False b(2) argc by linarith+
      ultimately show ?thesis
        using r False a str \<open>length message = 1024\<close> by (auto simp: debug_print_def p Inr mk)
    qed
  qed
qed

section \<open>The x86 argument area is too small\<close>

text \<open>The module has the string \<open>s\<close>, one character per cell, at \<open>vit\<close>.\<close>

fun module_text :: "'w::len amx_mem \<Rightarrow> ('w word \<Rightarrow> 'w word) \<Rightarrow> 'w word \<Rightarrow> byte list \<Rightarrow> bool" where
  "module_text am cs vit [] \<longleftrightarrow> True"
| "module_text am cs vit (c # s) \<longleftrightarrow>
     (case tr am vit of None \<Rightarrow> False | Some p \<Rightarrow> char_of_cell (cs p) = c)
     \<and> module_text am cs (vit + csize TYPE('w)) s"

text \<open>\<open>n\<close> times \<open>%d\<close>.\<close>

fun conv_string :: "nat \<Rightarrow> byte list" where
  "conv_string 0 = [0]"
| "conv_string (Suc n) = ch_percent # 0x64 # conv_string n"

lemma format_loop_step:
  assumes "tr am vit = Some pc" and "format_char (char_of_cell (cs pc)) k esc = Append s k' esc'"
    and "i + length s < 1024" and "write_at message i (s @ [0]) = Some message'"
  shows "format_loop am cs message i (vit :: 'w::len word) k esc =
    format_loop am cs message' (i + length s) (vit + csize TYPE('w)) k' esc'"
  using assms by (subst format_loop.simps) simp

lemma format_loop_convs:
  fixes am :: "'w::len amx_mem"
  assumes "buffer_ok message i m" and "i + 4 * n < 1024" and "module_text am cs vit (conv_string n)"
  shows "\<exists>message'. format_loop am cs message i vit k False = Some (Inr (message', k + n))
    \<and> buffer_ok message' (i + 4 * n) (m + n)"
  using assms
proof (induction n arbitrary: message i m vit k)
  case 0
  then show ?case
    by (subst format_loop.simps) (auto simp: format_char_def split: option.splits)
next
  case (Suc n)
  let ?c = "csize TYPE('w)"
  obtain p q where p: "tr am vit = Some p" "char_of_cell (cs p) = ch_percent"
    and q: "tr am (vit + ?c) = Some q" "char_of_cell (cs q) = 0x64"
    and t: "module_text am cs (vit + ?c + ?c) (conv_string n)"
    using Suc.prems(3) by (auto split: option.splits)
  obtain m1 where m1: "write_at message i ([] @ [0]) = Some m1" "buffer_ok m1 i m"
    using buffer_ok_write [OF Suc.prems(1), where s = "[]" and n = 0] Suc.prems(2) fmt_end by auto
  have f: "format_args [ch_percent, ch_l, ch_l, 0x64] 1"
    using fmt_conv [OF _ fmt_end, of "0x64"] by (simp add: conversions_def)
  obtain m2 where m2: "write_at m1 i ([ch_percent, ch_l, ch_l, 0x64] @ [0]) = Some m2"
    "buffer_ok m2 (i + 4) (Suc m)"
  proof -
    have "0 \<notin> set [ch_percent, ch_l, ch_l, 0x64 :: byte]" by simp
    then have "\<exists>m2. write_at m1 i ([ch_percent, ch_l, ch_l, 0x64] @ [0]) = Some m2
        \<and> buffer_ok m2 (i + length [ch_percent, ch_l, ch_l, 0x64]) (m + 1)"
      using Suc.prems(2) by (intro buffer_ok_write [OF m1(2) _ _ f]) simp_all
    moreover have "i + length [ch_percent, ch_l, ch_l, 0x64] = i + 4" by simp
    ultimately show thesis using that by (metis Nat.add_0_right Suc_eq_plus1)
  qed
  have "format_loop am cs message i vit k False =
      format_loop am cs m1 i (vit + ?c) k True"
    using format_loop_step [OF p(1), where k = k and esc = False and s = "[]" and k' = k and esc' = True
        and i = i and message = message and message' = m1] p(2) Suc.prems(2) m1(1)
    by (simp add: format_char_def)
  also have "\<dots> = format_loop am cs m2 (i + length [ch_percent, ch_l, ch_l, 0x64])
      (vit + ?c + ?c) (k + 1) False"
  proof (rule format_loop_step [OF q(1)])
    show "format_char (char_of_cell (cs q)) k True = Append [ch_percent, ch_l, ch_l, 0x64] (k + 1) False"
      unfolding q(2) by (simp add: format_char_def conversions_def)
  qed (use Suc.prems(2) m2(1) in simp_all)
  finally have e: "format_loop am cs message i vit k False =
      format_loop am cs m2 (i + 4) (vit + ?c + ?c) (k + 1) False"
    by (simp add: eval_nat_numeral)
  have "\<exists>message'. format_loop am cs m2 (i + 4) (vit + ?c + ?c) (k + 1) False =
      Some (Inr (message', k + 1 + n)) \<and> buffer_ok message' (i + 4 + 4 * n) (Suc m + n)"
    using Suc.prems(2) by (intro Suc.IH [OF m2(2) _ t]) simp
  then show ?case unfolding e by (simp add: add.assoc add.commute add.left_commute)
qed

text \<open>
  every conversion of the printed string reads a 64-bit argument, but on x86 the 64
  argument slots are 32-bit cells: with 33 to 64 arguments, \<open>vDbgPrintEx\<close> is asked for more
  bytes than the local array has.
\<close>

theorem debug_print_x86_overread:
  fixes am :: "32 amx_mem"
  assumes "v2p am argv = Some p" and "module_text am cs (cs p) (conv_string n)"
    and "32 < n" and "n \<le> 64" and "n < unat argc" and "read_args am cs argv 0 n \<noteq> None"
  shows "\<exists>message args s. debug_print am cs argc argv = Some (AE_success, Some (message, args))
    \<and> c_string message 0 = Some s \<and> format_args s n
    \<and> length args * sizeof_cell TYPE(32) < n * 8"
proof -
  have len: "length print_prefix = 22" by (simp add: print_prefix_eval)
  obtain message where l: "format_loop am cs print_buffer (length print_prefix) (cs p) 0 False =
      Some (Inr (message, n))" and b: "buffer_ok message (length print_prefix + 4 * n) n"
    using format_loop_convs [OF buffer_ok_start _ assms(2), where k = 0] assms(4) len by auto
  obtain args where a: "read_args am cs argv 0 n = Some args" using assms(6) by auto
  have "argc \<noteq> 0" using assms(5) by auto
  then have argc: "\<not> n > unat (argc - 1)" using assms(5) by (simp add: unat_minus_one)
  have "debug_print am cs argc argv = Some (AE_success, Some (message, args @ replicate (64 - n) 0))"
    using l a argc \<open>argc \<noteq> 0\<close> assms(1,4) by (simp add: debug_print_def)
  moreover have "length (args @ replicate (64 - n) 0) = 64"
    using read_args_length [OF a] assms(4) by simp
  moreover have "c_string message 0 = Some (take (length print_prefix + 4 * n) message)"
    by (rule buffer_ok_string [OF b])
  moreover have "format_args (take (length print_prefix + 4 * n) message) n"
    using b by (simp add: buffer_ok_def)
  ultimately show ?thesis using assms(3) by fastforce
qed

text \<open>A module on x86 with 33 times \<open>%d\<close> at address 0, and the address 0 in every other cell.\<close>

definition flat_mem :: "'w::len amx_mem" where
  "flat_mem = \<lparr>v2p = Some, tr = Some\<rparr>"

definition conv_cells :: "32 word \<Rightarrow> 32 word" where
  "conv_cells a = (if a < 264 then if a AND 4 = 0 then 0x25 else 0x64 else 0)"

lemma conv_string_numeral:
  "conv_string (numeral k) = ch_percent # 0x64 # conv_string (pred_numeral k)"
  by (simp add: numeral_eq_Suc)

lemma read_args_flat: "read_args flat_mem cs argv i k \<noteq> None"
  by (induction k arbitrary: i)
    (simp_all add: flat_mem_def Option.bind_eq_None_conv del: not_None_eq)

theorem debug_print_x86_overread_witness:
  "\<exists>message args s. debug_print flat_mem conv_cells 34 4096 = Some (AE_success, Some (message, args))
    \<and> c_string message 0 = Some s \<and> format_args s 33 \<and> length args * sizeof_cell TYPE(32) < 264"
proof -
  have "conv_cells 4096 = 0" by (simp add: conv_cells_def)
  then have t: "module_text flat_mem conv_cells (conv_cells 4096) (conv_string 33)"
    by (simp add: conv_string_numeral conv_cells_def flat_mem_def csize_def char_of_cell_def)
  show ?thesis
    using debug_print_x86_overread [OF _ t _ _ _ read_args_flat, where argc = 34 and argv = 4096]
    by (simp add: flat_mem_def)
qed

section \<open>amx\_strcpy is bounded and terminated\<close>

text \<open>
  The string of a module at \<open>vit\<close>, cut after \<open>n\<close> characters; \<open>None\<close> when a cell of it is not
  mapped.
\<close>

fun module_string :: "'w::len amx_mem \<Rightarrow> ('w word \<Rightarrow> 'w word) \<Rightarrow> nat \<Rightarrow> 'w word \<Rightarrow> cstring option" where
  "module_string am cs 0 vit = Some []"
| "module_string am cs (Suc n) vit =
    (case tr am vit of
       None \<Rightarrow> None
     | Some p \<Rightarrow>
        (let c = char_of_cell (cs p)
         in if c = 0 then Some []
            else map_option ((#) c) (module_string am cs n (vit + csize TYPE('w)))))"

lemma module_string_props:
  "module_string am cs n vit = Some s \<Longrightarrow> length s \<le> n \<and> 0 \<notin> set s"
  by (induction am cs n vit arbitrary: s rule: module_string.induct)
    (auto simp: Let_def split: option.splits if_splits)

text \<open>
  The buffer after the copy: the string, cut to fit before the terminator, and the rest as it
  was.  A string of \<open>dst_len\<close> characters has lost its last one.
\<close>

definition copied :: "byte list \<Rightarrow> nat \<Rightarrow> cstring \<Rightarrow> byte list" where
  "copied dst i s =
    (let s' = take (length dst - 1 - i) s in take i dst @ s' @ 0 # drop (i + length s' + 1) dst)"

lemma write_at_one: "i < length dst \<Longrightarrow> write_at dst i [c] = Some (dst[i := c])"
  by (simp add: write_at_def upd_conv_take_nth_drop)

lemma copied_Cons:
  assumes "i + 1 < length dst"
  shows "copied (dst[i := c]) (i + 1) s = copied dst i (c # s)"
proof -
  have m: "length dst - Suc i = Suc (length dst - Suc (Suc i))" using assms by simp
  have "take (i + 1) (dst[i := c]) = take i dst @ [c]"
    using assms by (simp add: take_Suc_conv_app_nth)
  then show ?thesis
    using m by (simp add: copied_def Let_def)
qed

lemma strcpy_loop_spec:
  assumes "length dst = dst_len" and "i < dst_len"
  shows "strcpy_loop am cs dst dst_len vit i = Some
    (case module_string am cs (dst_len - i) vit of
       None \<Rightarrow> Inl ()
     | Some s \<Rightarrow> Inr (i + min (length s) (dst_len - 1 - i) + 1, copied dst i s))"
  using assms
proof (induction "dst_len - i" arbitrary: dst i vit)
  case 0
  then show ?case by simp
next
  case (Suc k)
  have n: "dst_len - i = Suc (dst_len - (i + 1))" using Suc.prems by simp
  show ?case
  proof (cases "tr am vit")
    case None
    then show ?thesis by (subst strcpy_loop.simps) (simp add: n)
  next
    case p: (Some p)
    let ?c = "char_of_cell (cs p)"
    have w: "write_at dst i [?c] = Some (dst[i := ?c])" using Suc.prems by (intro write_at_one) simp
    show ?thesis
    proof (cases "?c = 0")
      case True
      then show ?thesis
        using Suc.prems w
        by (subst strcpy_loop.simps) (simp add: p n Let_def copied_def upd_conv_take_nth_drop)
    next
      case c: False
      show ?thesis
      proof (cases "i + 1 = dst_len")
        case True
        have w2: "write_at (dst[i := ?c]) (dst_len - 1) [0] = Some (dst[i := 0])"
        proof -
          have "dst_len - 1 = i" using True by simp
          then show ?thesis using Suc.prems write_at_one [of i "dst[i := ?c]" 0] by simp
        qed
        have "dst_len - (i + 1) = 0" using True by simp
        then show ?thesis
          using Suc.prems w w2 c True
          by (subst strcpy_loop.simps) (simp add: p n Let_def copied_def upd_conv_take_nth_drop)
      next
        case False
        have "strcpy_loop am cs (dst[i := ?c]) dst_len (vit + csize TYPE('a)) (i + 1) = Some
          (case module_string am cs (dst_len - (i + 1)) (vit + csize TYPE('a)) of
             None \<Rightarrow> Inl ()
           | Some s \<Rightarrow> Inr (i + 1 + min (length s) (dst_len - 1 - (i + 1)) + 1,
               copied (dst[i := ?c]) (i + 1) s))"
          using Suc.prems Suc.hyps(2) False by (intro Suc.hyps(1)) simp_all
        then show ?thesis
          using Suc.prems w c False copied_Cons [of i dst ?c]
          by (subst strcpy_loop.simps) (auto simp: p n Let_def split: option.splits)
      qed
    qed
  qed
qed

lemma copied_string:
  assumes "0 < length dst" and "0 \<notin> set s"
  shows "c_string (copied dst 0 s) 0 = Some (take (length dst - 1) s)" and "length (copied dst 0 s) = length dst"
proof -
  let ?s = "take (length dst - 1) s"
  have "0 \<notin> set ?s" using assms(2) by (meson in_set_takeD)
  then have "takeWhile (\<lambda>b. b \<noteq> 0) (?s @ 0 # drop (length ?s + 1) dst) = ?s"
    by (subst takeWhile_append2) auto
  then show "c_string (copied dst 0 s) 0 = Some ?s"
    by (simp add: c_string_def copied_def Let_def)
  show "length (copied dst 0 s) = length dst"
    using assms(1) by (cases dst) (auto simp: copied_def Let_def min_def)
qed

text \<open>
  with a non-empty buffer, \<open>amx_strcpy\<close> returns for every string of a module, terminated
  or not, without writing outside the buffer: -1 when a cell of the string is not mapped, else
  the length of the terminated copy, the string cut to \<open>dst_len - 1\<close> characters.
\<close>

theorem amx_strcpy_result:
  assumes "0 < length dst"
  shows "amx_strcpy am cs dst (length dst) vfmt = Some
    (case module_string am cs (length dst) vfmt of
       None \<Rightarrow> (- 1, None)
     | Some s \<Rightarrow> (int (length (take (length dst - 1) s)), Some (copied dst 0 s)))"
  using strcpy_loop_spec [of dst "length dst" 0 am cs vfmt] assms
  by (auto simp: amx_strcpy_def split: option.splits)

lemma module_string_numeral:
  "module_string am cs (numeral k) vit =
    (case tr am vit of
       None \<Rightarrow> None
     | Some p \<Rightarrow>
        (let c = char_of_cell (cs p)
         in if c = 0 then Some []
            else map_option ((#) c) (module_string am cs (pred_numeral k) (vit + csize TYPE('w)))))"
  for vit :: "'w::len word"
  by (simp add: numeral_eq_Suc)

theorem amx_strcpy_result_witness:
  "amx_strcpy flat_mem conv_cells (replicate 8 1) 8 0 =
     Some (7, Some [0x25, 0x64, 0x25, 0x64, 0x25, 0x64, 0x25, 0])"
proof -
  have t: "module_string flat_mem conv_cells 8 0 =
      Some [0x25, 0x64, 0x25, 0x64, 0x25, 0x64, 0x25, 0x64]"
    by (simp add: module_string_numeral flat_mem_def conv_cells_def csize_def char_of_cell_def Let_def)
  have "amx_strcpy flat_mem conv_cells (replicate 8 1) (length (replicate 8 (1 :: byte))) 0 = Some
    (case module_string flat_mem conv_cells (length (replicate 8 (1 :: byte))) 0 of
       None \<Rightarrow> (- 1, None)
     | Some s \<Rightarrow> (int (length (take (length (replicate 8 (1 :: byte)) - 1) s)), Some (copied (replicate 8 1) 0 s)))"
    by (rule amx_strcpy_result) simp
  then show ?thesis by (simp add: t copied_def Let_def)
qed

text \<open>
  The natives that take a name, on a table look-up that is total: the name they look up is
  the module's string cut to the buffer.
\<close>

definition name_lookup ::
  "nat \<Rightarrow> (cstring \<Rightarrow> 'w::len word) \<Rightarrow> 'w amx_mem \<Rightarrow> ('w word \<Rightarrow> 'w word) \<Rightarrow> 'w word \<Rightarrow> 'w word \<Rightarrow>
   amx_error \<times> 'w word"
where
  "name_lookup n f am cs argc argv =
    (if argc = 0 then (AE_invalid_operand, 0)
     else case v2p am argv of
       None \<Rightarrow> (AE_access_violation, 0)
     | Some p \<Rightarrow>
        (case module_string am cs n (cs p) of
           None \<Rightarrow> (AE_access_violation, 0)
         | Some s \<Rightarrow> if s = [] then (AE_invalid_operand, 0) else (AE_success, f (take (n - 1) s))))"

lemma name_native_eq:
  assumes "1 < n" and "\<And>name. look_up name = Some (f name)"
  shows "name_native n look_up am cs argc argv = Some (name_lookup n f am cs argc argv)"
proof (cases "argc = 0 \<or> v2p am argv = None")
  case True
  then show ?thesis by (auto simp: name_native_def name_lookup_def)
next
  case False
  then obtain p where p: "argc \<noteq> 0" "v2p am argv = Some p" by auto
  have r: "amx_strcpy am cs (replicate n 0) n (cs p) = Some
    (case module_string am cs n (cs p) of
       None \<Rightarrow> (- 1, None)
     | Some s \<Rightarrow> (int (length (take (n - 1) s)), Some (copied (replicate n 0) 0 s)))"
    using amx_strcpy_result [of "replicate n 0" am cs "cs p"] assms(1)
    by (cases "module_string am cs n (cs p)") simp_all
  show ?thesis
  proof (cases "module_string am cs n (cs p)")
    case None
    then show ?thesis by (simp add: name_native_def name_lookup_def p r)
  next
    case (Some s)
    have c: "c_string (copied (replicate n 0) 0 s) 0 = Some (take (n - 1) s)"
      using copied_string(1) [of "replicate n 0" s] module_string_props [OF Some] assms(1) by simp
    have "int (length (take (n - 1) s)) \<noteq> - 1" by simp
    moreover have "int (length (take (n - 1) s)) = 0 \<longleftrightarrow> s = []"
      using assms(1) by (cases s) auto
    ultimately show ?thesis
      using c by (simp add: name_native_def name_lookup_def p r Some assms(2) del: length_take)
  qed
qed

text \<open>
  the native \<open>get_public\<close> of a loaded module never faults: it answers with the address of
  the public whose name is the module's string cut to 32 characters, 0 when there is none,
  and with an error when the argument or the string is missing, empty or not mapped.
\<close>

theorem get_public_native_result:
  assumes "\<And>v. get_public l v = Some (case map_of es v of None \<Rightarrow> 0 | Some x \<Rightarrow> ucast (x :: u32))"
  shows "get_public_native l am cs argc argv =
    Some (name_lookup 33 (\<lambda>v. case map_of es v of None \<Rightarrow> 0 | Some x \<Rightarrow> ucast x) am cs argc argv)"
  unfolding get_public_native_def by (rule name_native_eq) (simp_all add: assms)

text \<open>A loader with the publics \<open>%d\<close> and \<open>d\<close>, the names at its string base.\<close>

definition sample_publics_loader :: "(32, nat, unit, unit, unit) loader" where
  "sample_publics_loader = (empty_loader ())\<lparr>publics_mem := symtab 65536 0 [([0x25, 0x64], 8), ([0x64], 16)],
     str_base := 65536, str_mem := packed [[0x25, 0x64], [0x64]]\<rparr>"

theorem get_public_native_result_witness:
  "get_public_native sample_publics_loader flat_mem (\<lambda>a. if a = 0 then 0x64 else 0) 1 4096 = Some (AE_success, 16)"
proof -
  have "get_public sample_publics_loader v =
      Some (case map_of [([0x25, 0x64], 8), ([0x64], 16)] v of None \<Rightarrow> 0 | Some x \<Rightarrow> ucast (x :: u32))" for v
    by (auto simp: get_public_def name_at_def sample_publics_loader_def empty_loader_def c_string_def
        Let_def strcmp_eq_def bind_Some_conv)
  note r = get_public_native_result [OF this, of flat_mem "\<lambda>a. if a = 0 then 0x64 else 0" 1 4096]
  show ?thesis
    unfolding r by (simp add: name_lookup_def module_string_numeral flat_mem_def csize_def char_of_cell_def)
qed

text \<open>
  \<open>get_proc_address\<close> passes the kernel the name the module gave, cut to the 1023
  characters of the buffer; a character above 127 is sign-extended to 16 bits.
\<close>

theorem get_proc_address_result:
  "get_proc_address_wrap mm_routine am cs argc argv =
    Some (name_lookup 1024 (\<lambda>v. mm_routine (map scast (take 1023 v))) am cs argc argv)"
  unfolding get_proc_address_wrap_def
  by (rule name_native_eq) (simp_all add: get_proc_address_def)

end
