(* ===== verification/Module_Calls.thy ===== *)
theory Module_Calls
  imports Loader_Total Natives_Types Amx_Text Callback_Slots
begin

text \<open>
  A loaded module and the natives together: the loader (\<open>PawnIO/amx_loader.h\<close>) puts for every
  import of the file the entry of \<open>NATIVES\<close> (\<open>PawnIO/vm.cpp\<close>) with that name into the native
  table, and a call-back of the machine runs it.
\<close>

section \<open>The world of the natives\<close>

text \<open>
  What the natives act on: the machine, the table of trampolines, and the lines printed for a
  debugger.  A machine is named by the address of its context.
\<close>

record (overloaded) ('w) module_world =
  mw_machine :: "'w::len machine"
  mw_slots :: "('w, 'w word) callback_table"
  mw_prints :: "(byte list \<times> 'w word list) list"

type_synonym 'w module_host = "('w, 'w module_world) host"

text \<open>
  The functions of the table.  \<open>user\<close> is the context of the machine; \<open>fns\<close> are the
  trampolines, \<open>mm\<close> is \<open>MmGetSystemRoutineAddress\<close>.
\<close>

definition call_special ::
  "(nat \<Rightarrow> 'w::len word) \<Rightarrow> (u16 list \<Rightarrow> 'w word) \<Rightarrow> ('w, 'f, 'g, 'u, 'a) loader \<Rightarrow> 'w word \<Rightarrow> 'w amx_mem \<Rightarrow>
   special \<Rightarrow> 'w word \<Rightarrow> 'w word \<Rightarrow> 'w word \<Rightarrow> 'w module_host \<Rightarrow> (amx_error \<times> 'w word \<times> 'w module_host) option"
where
  "call_special fns mm l user am s argc argv retval st =
    (case s of
       Debug_print \<Rightarrow> do {
         (e, line) \<leftarrow> debug_print am (cells st) argc argv;
         Some (e, 0, st\<lparr>world := (world st)\<lparr>mw_prints := mw_prints (world st)
           @ (case line of None \<Rightarrow> [] | Some p \<Rightarrow> [p])\<rparr>\<rparr>) }
     | Get_proc_address \<Rightarrow> do {
         (e, r) \<leftarrow> get_proc_address_wrap mm am (cells st) argc argv; Some (e, r, st) }
     | Get_public \<Rightarrow> do { (e, r) \<leftarrow> get_public_native l am (cells st) argc argv; Some (e, r, st) }
     | Callback_alloc \<Rightarrow>
         (let (e, r, t) = to_amx_callback_alloc_wrap fns am (cells st) (mw_slots (world st)) user argc argv retval
          in Some (e, r, st\<lparr>world := (world st)\<lparr>mw_slots := t\<rparr>\<rparr>))
     | Callback_free \<Rightarrow> do {
         (e, r, t) \<leftarrow> to_amx_callback_free_wrap fns am (cells st) (mw_slots (world st)) user argc argv;
         Some (e, r, st\<lparr>world := (world st)\<lparr>mw_slots := t\<rparr>\<rparr>) })"

definition call_native ::
  "(nat \<Rightarrow> 'w::len word) \<Rightarrow> (u16 list \<Rightarrow> 'w word) \<Rightarrow> ('w, 'f, 'g, 'u, 'a) loader \<Rightarrow> 'w word \<Rightarrow> 'w amx_mem \<Rightarrow>
   'w native entry \<Rightarrow> 'w word \<Rightarrow> 'w word \<Rightarrow> 'w word \<Rightarrow> 'w module_host \<Rightarrow>
   (amx_error \<times> 'w word \<times> 'w module_host) option"
where
  "call_native fns mm l user am e argc argv retval st =
    (case e of
       Special s \<Rightarrow> call_special fns mm l user am s argc argv retval st
     | Wrapped f \<Rightarrow> do {
         (err, r, h) \<leftarrow> native_callback_wrapper2 f am argc argv retval
           \<lparr>cells = cells st, world = mw_machine (world st)\<rparr>;
         Some (err, r, \<lparr>cells = cells h, world = (world st)\<lparr>mw_machine := world h\<rparr>\<rparr>) })"

text \<open>The call-back of the machine in a module that was loaded with the table.\<close>

definition module_callback ::
  "'w::len word \<Rightarrow> 'w word \<Rightarrow> (nat \<Rightarrow> 'w word) \<Rightarrow> (u16 list \<Rightarrow> 'w word) \<Rightarrow>
   ('w, 'w native entry, unit, 'w word, 'a) loader \<Rightarrow> 'w amx_mem \<Rightarrow>
   'w word \<Rightarrow> 'w word \<Rightarrow> 'w word \<Rightarrow> 'w module_host \<Rightarrow> (amx_error \<times> 'w word \<times> 'w module_host) option"
where
  "module_callback ss br fns mm l am index stk pri st = do {
     user \<leftarrow> l_user_data l;
     amx_callback ss br (\<lambda>_ _. None) (call_native fns mm l user am) l am index stk pri st }"

text \<open>The call-backs \<open>vm_load_binary_internal\<close> passes to the loader.\<close>

definition module_callbacks :: "(string \<times> 'n entry) list \<Rightarrow> 'u \<Rightarrow> ('n entry, unit, 'u) callbacks_arg" where
  "module_callbacks tbl user =
    \<lparr>natives = native_args tbl, on_single_step = None, on_break = None, user_data = user\<rparr>"

section \<open>Imports\<close>

lemma find_native_member:
  assumes "find_native (native_args tbl) name = Some e"
  shows "\<exists>n. (n, e) \<in> set tbl \<and> name = cstr n"
proof -
  obtain x where "find (\<lambda>n. strcmp_eq name (fst n)) (native_args tbl) = Some x" and e: "e = snd x"
    using assms by (auto simp: find_native_def)
  then have "x \<in> set (native_args tbl)" and "name = fst x"
    by (auto simp: find_Some_iff strcmp_eq_def)
  then show ?thesis by (auto simp: native_args_def e)
qed

text \<open>The names of the natives a file imports, in the order of its table.\<close>

definition import_names :: "byte list \<Rightarrow> cstring list" where
  "import_names buf =
    (let h = header_of buf in map (\<lambda>off. the (entry_name buf off)) (table_offsets h (h_natives h) (h_libraries h)))"

lemma imports_resolved:
  assumes "parse_image w version buf (native_args tbl) = Inr i"
  shows "length (im_natives i) = length (import_names buf)"
    and "\<forall>j < length (import_names buf). \<exists>n. (n, im_natives i ! j) \<in> set tbl \<and> import_names buf ! j = cstr n"
proof -
  let ?offs = "table_offsets (header_of buf) (h_natives (header_of buf)) (h_libraries (header_of buf))"
  note r = resolve_natives_entries [OF parse_image_tables(3) [OF assms]]
  have "map (\<lambda>name. find_native (native_args tbl) name) (import_names buf) = map Some (im_natives i)"
    using r(2) by (simp add: import_names_def Let_def comp_def)
  note m = this
  show len: "length (im_natives i) = length (import_names buf)" using map_eq_imp_length_eq [OF m] by simp
  show "\<forall>j < length (import_names buf). \<exists>n. (n, im_natives i ! j) \<in> set tbl \<and> import_names buf ! j = cstr n"
  proof (intro allI impI)
    fix j assume j: "j < length (import_names buf)"
    then have "find_native (native_args tbl) (import_names buf ! j) = Some (im_natives i ! j)"
      using arg_cong [OF m, of "\<lambda>xs. xs ! j"] len by simp
    from find_native_member [OF this]
    show "\<exists>n. (n, im_natives i ! j) \<in> set tbl \<and> import_names buf ! j = cstr n" .
  qed
qed

text \<open>A module loaded from \<open>buf\<close> with the table.\<close>

lemma loaded_imports:
  fixes base :: "'w::len word" and l :: "('w, 'w native entry, unit, 'w word, 'a) loader"
  assumes "init ops kern buf base (module_callbacks tbl user) l0 = Some (LE_success, l)"
    and "file_safe base (amx_version ops) buf (native_args tbl)" and "pool_sane kern"
  obtains es where "natives_mem l = map Some es" and "natives_count l = of_nat (length es)"
    and "length es < 2 ^ LENGTH('w)" and "l_single_step l = None" and "l_break l = None"
    and "l_user_data l = Some user" and "length es = length (import_names buf)"
    and "\<forall>j < length es. \<exists>n. (n, es ! j) \<in> set tbl \<and> import_names buf ! j = cstr n"
proof -
  obtain i where p: "parse_image TYPE('w) (amx_version ops) buf (native_args tbl) = Inr i" and r: "represents buf i l"
    and n: "natives_count l = of_nat (length (im_natives i))" "l_single_step l = None" "l_break l = None"
      "l_user_data l = Some user"
    using init_success [OF assms(1) _ assms(3)] assms(2) by (auto simp: module_callbacks_def)
  have im: "image_object base buf" using assms(2) by (simp add: file_safe_def)
  have "length (im_natives i) * 8 \<le> length buf"
    by (rule image_bounds(5) [OF p sizeof_cell_pos [OF image_objectD(1) [OF im]]])
  then have "length (im_natives i) < 2 ^ LENGTH('w)" using image_objectD(4) [OF im] by linarith
  then show ?thesis
    using that [of "im_natives i"] r n imports_resolved [OF p] by (simp add: represents_def)
qed

section \<open>What a call-back does\<close>

lemma module_callback_result:
  assumes "natives_mem l = map Some es" and "natives_count l = of_nat (length es)"
    and "length es < 2 ^ LENGTH('w)" and "l_single_step l = None" and "l_break l = None"
    and "l_user_data l = Some user"
  shows "module_callback ss br fns mm l am index stk pri (st :: 'w::len module_host) =
    (if index = ss \<or> index = br then Some (AE_success, pri, st)
     else if length es \<le> unat index then Some (AE_invalid_operand, pri, st)
     else case v2p am stk of
            None \<Rightarrow> Some (AE_access_violation, pri, st)
          | Some p \<Rightarrow> call_native fns mm l user am (es ! unat index) (cells st p div csize TYPE('w))
              (stk + csize TYPE('w)) pri st)"
proof -
  have n: "index \<ge> natives_count l \<longleftrightarrow> length es \<le> unat index"
    using assms(2,3) by (simp add: word_le_nat_alt unat_of_nat_small)
  show ?thesis
    using assms(1,4,5,6) unfolding module_callback_def amx_callback_def n by (auto split: option.splits)
qed

lemma call_special_frame:
  "call_special fns mm l user am s argc argv retval st = Some (e, r, st') \<Longrightarrow> cells st' = cells st"
  by (cases s) (auto simp: call_special_def split: bind_splits prod.splits)

lemma call_native_frame:
  assumes "call_native fns mm l user am en argc argv retval st = Some (e, r, st')"
    and "\<And>f. en = Wrapped f \<Longrightarrow> keeps_types f \<and> p \<notin> ref_targets am (cells st) argv 0 (arg_types f)"
  shows "cells st' p = cells st p"
proof (cases en)
  case (Special s)
  then show ?thesis using assms(1) call_special_frame by (fastforce simp: call_native_def)
next
  case (Wrapped f)
  let ?h = "\<lparr>cells = cells st, world = mw_machine (world st)\<rparr>"
  obtain h where "native_callback_wrapper2 f am argc argv retval ?h = Some (e, r, h)" and "cells st' = cells h"
    using assms(1) Wrapped by (auto simp: call_native_def split: bind_splits)
  then show ?thesis using call_frame [of f am argc argv retval ?h e r h p] assms(2) [OF Wrapped] by simp
qed

text \<open>
  C14: in a module that was loaded from a file, the call-back with index \<open>j\<close> runs the native of
  the table whose name is the \<open>j\<close>-th import of the file, with the count of arguments and the
  arguments on the stack of the module; an index past the imports is refused.
\<close>

theorem imports_run:
  fixes base :: u64 and l :: "(64, 64 native entry, unit, u64, 'a) loader"
  assumes "init ops kern buf base (module_callbacks (NATIVES_x64 pad k) user) l0 = Some (LE_success, l)"
    and "file_safe base (amx_version ops) buf (native_args (NATIVES_x64 pad k))" and "pool_sane kern"
    and "v2p am stk = Some p" and "index \<noteq> ss" and "index \<noteq> br"
  shows "if unat index < length (import_names buf)
    then \<exists>n e. (n, e) \<in> set (NATIVES_x64 pad k) \<and> import_names buf ! unat index = cstr n
      \<and> module_callback ss br fns mm l am index stk pri st =
          call_native fns mm l user am e (cells st p div 8) (stk + 8) pri st
    else module_callback ss br fns mm l am index stk pri st = Some (AE_invalid_operand, pri, st)"
proof -
  obtain es where l: "natives_mem l = map Some es" "natives_count l = of_nat (length es)" "length es < 2 ^ LENGTH(64)"
      "l_single_step l = None" "l_break l = None" "l_user_data l = Some user"
    and es: "length es = length (import_names buf)"
      "\<forall>j < length es. \<exists>n. (n, es ! j) \<in> set (NATIVES_x64 pad k) \<and> import_names buf ! j = cstr n"
    by (rule loaded_imports [OF assms(1-3)])
  note r = module_callback_result [OF l, of ss br fns mm am index stk pri st]
  show ?thesis
  proof (cases "unat index < length (import_names buf)")
    case True
    then obtain n where "(n, es ! unat index) \<in> set (NATIVES_x64 pad k)" "import_names buf ! unat index = cstr n"
      using es by auto
    then show ?thesis using True r es(1) assms(4-6) by (auto simp: csize_def)
  qed (use r es(1) assms(5,6) in simp)
qed


section \<open>Examples\<close>

text \<open>A 64-bit module that imports \<open>qpc\<close> and \<open>int3\<close>: one cell of code, one of data, one of stack.\<close>

definition native_module :: "byte list" where
  "native_module =
    [104, 0, 0, 0, 0xE1, 0xF1, 11, 0, 0, 0, 8, 0,
     88, 0, 0, 0, 96, 0, 0, 0, 104, 0, 0, 0, 112, 0, 0, 0, 8, 0, 0, 0,
     60, 0, 0, 0, 60, 0, 0, 0, 76, 0, 0, 0, 76, 0, 0, 0, 76, 0, 0, 0, 0, 0, 0, 0, 0, 0, 0, 0,
     0, 0, 0, 0, 76, 0, 0, 0,
     0, 0, 0, 0, 80, 0, 0, 0,
     113, 112, 99, 0, 105, 110, 116, 51, 0, 0, 0, 0,
     1, 0, 0, 0, 0, 0, 0, 0,
     2, 0, 0, 0, 0, 0, 0, 0]"

definition native_module_image :: "64 native entry image" where
  "native_module_image =
    \<lparr>im_header = header_of native_module, im_code = 1, im_data = 1, im_publics = [],
     im_natives = [Wrapped (cell_ref (qpc quiet_hw)), Wrapped (void_0 int3)], im_pubvars = []\<rparr>"

lemma native_module_names:
  "find_native (native_args (NATIVES_x64 0 quiet_hw)) [113, 112, 99] = Some (Wrapped (cell_ref (qpc quiet_hw)))"
  "find_native (native_args (NATIVES_x64 0 quiet_hw)) [105, 110, 116, 51] = Some (Wrapped (void_0 int3))"
proof -
  have "(''qpc'', Wrapped (cell_ref (qpc quiet_hw))) \<in> set (NATIVES_x64 0 quiet_hw)"
    and "(''int3'', Wrapped (void_0 int3)) \<in> set (NATIVES_x64 0 quiet_hw)"
    by (simp_all add: NATIVES_x64_def wrapped_def common_natives_def x64_natives_def)
  from this [THEN table_lookup [OF distinct_x64]]
  show "find_native (native_args (NATIVES_x64 0 quiet_hw)) [113, 112, 99] = Some (Wrapped (cell_ref (qpc quiet_hw)))"
    "find_native (native_args (NATIVES_x64 0 quiet_hw)) [105, 110, 116, 51] = Some (Wrapped (void_0 int3))"
    by (simp_all add: cstr_def)
qed

lemma parse_native_module:
  "parse_image TYPE(64) 11 native_module (native_args (NATIVES_x64 0 quiet_hw)) = Inr native_module_image"
  by (simp add: native_module_def native_module_image_def parse_eval native_module_names upt_conv_Cons)

lemma native_module_safe: "file_safe (16384 :: u64) 11 native_module (native_args (NATIVES_x64 0 quiet_hw))"
proof (rule file_safe_64)
  show "image_object (16384 :: u64) native_module" by (simp add: image_object_def native_module_def)
next
  fix i assume "parse_image TYPE(64) 11 native_module (native_args (NATIVES_x64 0 quiet_hw)) = Inr i"
  then have "i = native_module_image" by (simp add: parse_native_module)
  then show "fixup_inside TYPE(64) 16 i"
    by (simp add: fixup_inside_def layout_simps align_nat_def native_module_image_def image_counts_def
        data_alloc_cells_def Let_def header_of_def le_at_def image_strings_def native_module_def)
qed

lemma native_module_size: "alloc_size (mem_align small_pool) (image_counts native_module_image) = 64"
  by (simp add: alloc_size_def align_up_def sizeof_pair_def image_counts_def native_module_image_def data_alloc_cells_def
      Let_def header_of_def native_module_def le_at_def image_strings_def small_pool_def)

lemma native_module_loads:
  "\<exists>l. init sample_ops small_pool native_module 16384 (module_callbacks (NATIVES_x64 0 quiet_hw) 7)
      (empty_loader () :: (64, 64 native entry, unit, u64, unit) loader) = Some (LE_success, l)
    \<and> natives_mem l = map Some (im_natives native_module_image)"
proof -
  let ?cbs = "module_callbacks (NATIVES_x64 0 quiet_hw) (7 :: u64)"
  have p: "parse_image TYPE(64) (amx_version sample_ops) native_module (natives ?cbs) = Inr native_module_image"
    using parse_native_module by (simp add: module_callbacks_def sample_ops_def)
  have "image_safe TYPE(64) native_module_image"
    using native_module_safe parse_native_module by (simp add: file_safe_def)
  then have fits: "image_fits TYPE(64) (2 * sizeof_cell TYPE(64)) native_module_image"
    and fixup: "fixup_inside TYPE(64) (2 * sizeof_cell TYPE(64)) native_module_image"
    by (simp_all add: image_safe_def)
  have im: "image_object (16384 :: u64) native_module" by (simp add: image_object_def native_module_def)
  note acc = init_accepts [OF im p _ fits fixup, of small_pool 65536 "empty_loader ()" "()" 4096 "()" 8192]
  have "\<exists>l. init sample_ops small_pool native_module 16384 ?cbs
      (empty_loader () :: (64, 64 native entry, unit, u64, unit) loader) = Some (LE_success, l)
    \<and> represents native_module native_module_image l \<and> amx_state l = () \<and> COD l = 4096 \<and> DAT l = 8192
    \<and> loader_frees l = [65536]"
    by (rule acc) (simp_all add: native_module_size, simp_all add: small_pool_def sample_ops_def native_module_image_def)
  then show ?thesis by (auto simp: represents_def)
qed

text \<open>Argument counts and values read as zero; the debugger has seen nothing.\<close>

definition idle_host :: "64 module_host" where
  "idle_host = \<lparr>cells = \<lambda>_. 0, world = \<lparr>mw_machine = blank_machine, mw_slots = [], mw_prints = []\<rparr>\<rparr>"

text \<open>The second import is \<open>int3\<close>; there is no third.\<close>

theorem imports_run_witness:
  "\<exists>l. init sample_ops small_pool native_module 16384 (module_callbacks (NATIVES_x64 0 quiet_hw) 7)
      (empty_loader () :: (64, 64 native entry, unit, u64, unit) loader) = Some (LE_success, l)
    \<and> (\<exists>n e. (n, e) \<in> set (NATIVES_x64 0 quiet_hw) \<and> cstr ''int3'' = cstr n
        \<and> module_callback 100 101 of_nat (\<lambda>_. 0) l module_mem 1 0 0 idle_host =
            call_native of_nat (\<lambda>_. 0) l 7 module_mem e 0 8 0 idle_host)
    \<and> module_callback 100 101 of_nat (\<lambda>_. 0) l module_mem 2 0 0 idle_host = Some (AE_invalid_operand, 0, idle_host)"
proof -
  obtain l :: "(64, 64 native entry, unit, u64, unit) loader"
    where l: "init sample_ops small_pool native_module 16384 (module_callbacks (NATIVES_x64 0 quiet_hw) 7) (empty_loader ())
      = Some (LE_success, l)"
    using native_module_loads by blast
  have names: "import_names native_module = [cstr ''qpc'', cstr ''int3'']"
    by (simp add: import_names_def native_module_def parse_eval upt_conv_Cons cstr_def)
  have safe: "file_safe (16384 :: u64) (amx_version sample_ops) native_module (native_args (NATIVES_x64 0 quiet_hw))"
    using native_module_safe by (simp add: sample_ops_def)
  have v: "v2p module_mem 0 = Some 0" by (simp add: module_mem_def)
  note run = imports_run [OF l safe small_pool_sane v, where fns = of_nat and mm = "\<lambda>_. 0" and st = idle_host
      and pri = 0 and ss = 100 and br = 101]
  have c: "cells idle_host 0 = 0" by (simp add: idle_host_def)
  show ?thesis using l run [of 1] run [of 2] unfolding names by (auto simp: c)
qed


end
