(* ===== verification/Klist_Iter.thy ===== *)
theory Klist_Iter
  imports Klist
begin

text \<open>
  The iterators of \<open>PawnIO/klist.h\<close>: \<open>klist_iterator\<close> with its steps, comparison and checked
  access, the functions of \<open>klist\<close> that make iterators, and the reverse iterators of the
  standard library over them.

  The locale \<open>cursor\<close> states what a loop relies on: as long as elements remain, the cursor is
  not at the end, it gives the next of them, and a step leaves the others.  It is interpreted
  for the iterators in both directions.
\<close>

section \<open>klist_iterator\<close>

text \<open>The list is named by the address of its head.\<close>

record 'p klist_iterator =
  it_list :: 'p
  it_entry :: 'p

text \<open>The result of an access: the value, the range check that stops the machine, or an entry that is no node.\<close>

datatype 'v access = Value 'v | RangeCheckFailure | NoNode

definition iter_from_entry :: "'p \<Rightarrow> 'p \<Rightarrow> 'p klist_iterator" where
  "iter_from_entry head entry = \<lparr>it_list = head, it_entry = entry\<rparr>"

definition list_begin :: "'p \<Rightarrow> ('p, 'v) lheap \<Rightarrow> 'p klist_iterator" where
  "list_begin head h = \<lparr>it_list = head, it_entry = flink h head\<rparr>"

definition list_end :: "'p \<Rightarrow> 'p klist_iterator" where
  "list_end head = \<lparr>it_list = head, it_entry = head\<rparr>"

definition iter_deref :: "('p, 'v) lheap \<Rightarrow> 'p klist_iterator \<Rightarrow> 'v access" where
  "iter_deref h it =
    (if it_entry it = it_entry (list_end (it_list it)) then RangeCheckFailure
     else case node_value h (it_entry it) of Some v \<Rightarrow> Value v | None \<Rightarrow> NoNode)"

definition iter_inc :: "('p, 'v) lheap \<Rightarrow> 'p klist_iterator \<Rightarrow> 'p klist_iterator" where
  "iter_inc h it = it\<lparr>it_entry := flink h (it_entry it)\<rparr>"

definition iter_dec :: "('p, 'v) lheap \<Rightarrow> 'p klist_iterator \<Rightarrow> 'p klist_iterator" where
  "iter_dec h it = it\<lparr>it_entry := blink h (it_entry it)\<rparr>"

text \<open>The postfix forms: the result, then the iterator.\<close>

definition iter_post_inc :: "('p, 'v) lheap \<Rightarrow> 'p klist_iterator \<Rightarrow> 'p klist_iterator \<times> 'p klist_iterator" where
  "iter_post_inc h it = (it, it\<lparr>it_entry := flink h (it_entry it)\<rparr>)"

definition iter_post_dec :: "('p, 'v) lheap \<Rightarrow> 'p klist_iterator \<Rightarrow> 'p klist_iterator \<times> 'p klist_iterator" where
  "iter_post_dec h it = (it, it\<lparr>it_entry := blink h (it_entry it)\<rparr>)"

definition iter_eq :: "'p klist_iterator \<Rightarrow> 'p klist_iterator \<Rightarrow> bool" where
  "iter_eq a b \<longleftrightarrow> it_entry a = it_entry b"

section \<open>Reverse iterators\<close>

text \<open>\<open>std::reverse_iterator\<close>: it keeps the iterator after the element it stands for.\<close>

record 'p reverse_iterator = base :: "'p klist_iterator"

definition list_rbegin :: "'p \<Rightarrow> 'p reverse_iterator" where
  "list_rbegin head = \<lparr>base = list_end head\<rparr>"

definition list_rend :: "'p \<Rightarrow> ('p, 'v) lheap \<Rightarrow> 'p reverse_iterator" where
  "list_rend head h = \<lparr>base = list_begin head h\<rparr>"

definition riter_deref :: "('p, 'v) lheap \<Rightarrow> 'p reverse_iterator \<Rightarrow> 'v access" where
  "riter_deref h r = iter_deref h (iter_dec h (base r))"

definition riter_inc :: "('p, 'v) lheap \<Rightarrow> 'p reverse_iterator \<Rightarrow> 'p reverse_iterator" where
  "riter_inc h r = r\<lparr>base := iter_dec h (base r)\<rparr>"

definition riter_eq :: "'p reverse_iterator \<Rightarrow> 'p reverse_iterator \<Rightarrow> bool" where
  "riter_eq a b \<longleftrightarrow> iter_eq (base a) (base b)"

section \<open>Loops over a cursor\<close>

text \<open>A \<open>for\<close> loop from \<open>it\<close>: the values it visits; \<open>None\<close> when an access stops the machine or the loop does not end.\<close>

partial_function (option) traverse ::
  "('i \<Rightarrow> bool) \<Rightarrow> ('i \<Rightarrow> 'i) \<Rightarrow> ('i \<Rightarrow> 'v access) \<Rightarrow> 'i \<Rightarrow> 'v list option"
where
  "traverse at_end step deref it =
    (if at_end it then Some []
     else case deref it of
       Value v \<Rightarrow> Option.bind (traverse at_end step deref (step it)) (\<lambda>vs. Some (v # vs))
     | RangeCheckFailure \<Rightarrow> None
     | NoNode \<Rightarrow> None)"

locale cursor =
  fixes at_end :: "'i \<Rightarrow> bool"
    and step :: "'i \<Rightarrow> 'i"
    and deref :: "'i \<Rightarrow> 'v access"
    and remaining :: "'i \<Rightarrow> 'v list \<Rightarrow> bool"
  assumes at_end_iff: "remaining it vs \<Longrightarrow> at_end it \<longleftrightarrow> vs = []"
    and element: "remaining it (v # vs) \<Longrightarrow> deref it = Value v \<and> remaining (step it) vs"
begin

lemma traverse_remaining: "remaining it vs \<Longrightarrow> traverse at_end step deref it = Some vs"
proof (induction vs arbitrary: it)
  case Nil
  then show ?case using at_end_iff by (subst traverse.simps) simp
next
  case (Cons v vs)
  then show ?case using at_end_iff element by (subst traverse.simps) simp
qed

end

section \<open>The cursors of a list\<close>

definition value_at :: "('p, 'v) lheap \<Rightarrow> 'p \<Rightarrow> 'v" where
  "value_at h e = the (node_value h e)"

lemma values_of_at: "values_of h es = map (value_at h) es"
  by (simp add: values_of_def value_at_def)

text \<open>The iterator stands between \<open>xs\<close> and \<open>ys\<close>.\<close>

definition stands :: "('p, 'v) lheap \<Rightarrow> 'p \<Rightarrow> 'p klist_iterator \<Rightarrow> 'p list \<Rightarrow> 'p list \<Rightarrow> bool" where
  "stands h head it xs ys \<longleftrightarrow> ring head h (xs @ ys) \<and> it = iter_from_entry head (hd (ys @ [head]))"

lemma stands_begin: "ring head h es \<Longrightarrow> stands h head (list_begin head h) [] es"
  using ring_begin [of head h es] by (simp add: stands_def list_begin_def iter_from_entry_def klist_begin_def)

lemma stands_end: "ring head h es \<Longrightarrow> stands h head (list_end head) es []"
  by (simp add: stands_def list_end_def iter_from_entry_def)

lemma stands_at_end: "stands h head it xs ys \<Longrightarrow> iter_eq it (list_end head) \<longleftrightarrow> ys = []"
  by (cases ys) (auto simp: stands_def ring_def iter_eq_def list_end_def iter_from_entry_def)

lemma stands_at_begin:
  assumes "stands h head it xs ys"
  shows "iter_eq it (list_begin head h) \<longleftrightarrow> xs = []"
proof -
  have r: "ring head h (xs @ ys)" and it: "it_entry it = hd (ys @ [head])"
    using assms by (auto simp: stands_def iter_from_entry_def)
  have b: "it_entry (list_begin head h) = hd ((xs @ ys) @ [head])"
    using ring_begin [OF r] by (simp add: list_begin_def klist_begin_def)
  show ?thesis
  proof (cases xs)
    case (Cons x zs)
    have "hd (ys @ [head]) \<in> set (ys @ [head])" by (rule hd_in_set) simp
    then show ?thesis using r b it Cons by (auto simp: iter_eq_def ring_def)
  qed (simp add: iter_eq_def b it)
qed

lemma stands_deref: "stands h head it xs (y # ys) \<Longrightarrow> iter_deref h it = Value (value_at h y)"
  by (auto simp: stands_def ring_def iter_deref_def iter_from_entry_def list_end_def value_at_def)

lemma stands_inc: "stands h head it xs (y # ys) \<Longrightarrow> stands h head (iter_inc h it) (xs @ [y]) ys"
  by (auto simp: stands_def ring_def iter_inc_def iter_from_entry_def path_append dest: path_first)

lemma stands_dec:
  assumes "stands h head it (xs @ [x]) ys"
  shows "stands h head (iter_dec h it) xs (x # ys)"
proof -
  have "path h head ((xs @ [x]) @ ys) head" using assms by (simp add: stands_def ring_def)
  from path_ends(1) [OF this] show ?thesis
    using assms by (simp add: stands_def iter_dec_def iter_from_entry_def)
qed

definition forward_rest :: "('p, 'v) lheap \<Rightarrow> 'p \<Rightarrow> 'p klist_iterator \<Rightarrow> 'v list \<Rightarrow> bool" where
  "forward_rest h head it vs \<longleftrightarrow> (\<exists>xs ys. stands h head it xs ys \<and> vs = values_of h ys)"

definition backward_rest :: "('p, 'v) lheap \<Rightarrow> 'p \<Rightarrow> 'p reverse_iterator \<Rightarrow> 'v list \<Rightarrow> bool" where
  "backward_rest h head r vs \<longleftrightarrow> (\<exists>xs ys. stands h head (base r) xs ys \<and> vs = rev (values_of h xs))"

interpretation forward: cursor "\<lambda>it. iter_eq it (list_end head)" "iter_inc h" "iter_deref h" "forward_rest h head"
  for h :: "('p, 'v) lheap" and head
proof
  show "iter_eq it (list_end head) \<longleftrightarrow> vs = []" if "forward_rest h head it vs" for it :: "'p klist_iterator" and vs
    using that by (auto simp: forward_rest_def stands_at_end values_of_at)
  show "iter_deref h it = Value v \<and> forward_rest h head (iter_inc h it) vs"
    if rest: "forward_rest h head it (v # vs)" for it v vs
  proof -
    obtain xs y ys where s: "stands h head it xs (y # ys)" and v: "v = value_at h y" "vs = values_of h ys"
      using rest by (auto simp: forward_rest_def values_of_at Cons_eq_map_conv)
    show ?thesis unfolding forward_rest_def using stands_deref [OF s] stands_inc [OF s] v by blast
  qed
qed

interpretation backward: cursor "\<lambda>r. riter_eq r (list_rend head h)" "riter_inc h" "riter_deref h" "backward_rest h head"
  for h :: "('p, 'v) lheap" and head
proof
  show "riter_eq r (list_rend head h) \<longleftrightarrow> vs = []" if "backward_rest h head r vs" for r vs
    using that by (auto simp: backward_rest_def riter_eq_def list_rend_def stands_at_begin values_of_at)
  show "riter_deref h r = Value v \<and> backward_rest h head (riter_inc h r) vs"
    if rest: "backward_rest h head r (v # vs)" for r v vs
  proof -
    obtain xs x ys where s: "stands h head (base r) (xs @ [x]) ys" and v: "v = value_at h x" "vs = rev (values_of h xs)"
      using rest by (auto simp: backward_rest_def values_of_at rev_map Cons_eq_map_conv rev_eq_Cons_iff)
    from stands_dec [OF s] show ?thesis
      unfolding backward_rest_def using v by (auto simp: riter_deref_def riter_inc_def stands_deref)
  qed
qed

section \<open>Properties\<close>

lemma inc_dec_entry:
  assumes "ring head h es" and "e \<in> set (head # es)"
  shows "blink h (flink h e) = e" and "flink h (blink h e) = e"
proof -
  have p: "path h head es head" using assms(1) by (simp add: ring_def)
  have "blink h (flink h e) = e \<and> flink h (blink h e) = e"
  proof (cases "e = head")
    case True
    then show ?thesis using path_ends [of h head "[]" es head] path_ends [of h head es "[]" head] p by simp
  next
    case False
    then obtain xs ys where es: "es = xs @ e # ys" using assms(2) by (auto dest: split_list)
    then show ?thesis
      using path_ends [of h head "xs @ [e]" ys head] path_ends [of h head xs "e # ys" head] p by simp
  qed
  then show "blink h (flink h e) = e" "flink h (blink h e) = e" by simp_all
qed



end
