(* ===== verification/Callback_Threads.thy ===== *)
theory Callback_Threads
  imports Callbacks Klist_Iter
begin

text \<open>
  The notification lists of \<open>PawnIO/callbacks.cpp\<close> with several threads: registrations,
  removals and notifications of one list, step by step, under its \<open>wrapped_resource\<close>.

  A writer works on a heap that is arbitrary until it is done: no other thread can rely on
  anything it sees meanwhile.  A notification reads one link or one node in a step.  A callback
  may itself register, unregister and notify, on its thread, so every thread has a stack of
  operations.  When the lock of the kernel is granted is a parameter, \<open>lock_api\<close>.
\<close>

section \<open>The lock\<close>

record 't rw_lock =
  exclusive :: "'t option"
  shared :: "'t \<Rightarrow> nat"

record 't lock_api =
  grants_exclusive :: "'t \<Rightarrow> 't rw_lock \<Rightarrow> bool"
  grants_shared :: "'t \<Rightarrow> 't rw_lock \<Rightarrow> bool"

text \<open>
  The documented exclusion of \<open>ERESOURCE\<close>: a thread that does not own it exclusively gets it
  exclusively only when nobody has it, the thread itself included, and shared only when nobody
  has it exclusively.
\<close>

definition lock_api_ok :: "'t lock_api \<Rightarrow> bool" where
  "lock_api_ok a \<longleftrightarrow> (\<forall>t l. exclusive l \<noteq> Some t \<longrightarrow>
     (grants_exclusive a t l \<longrightarrow> exclusive l = None \<and> (\<forall>u. shared l u = 0))
     \<and> (grants_shared a t l \<longrightarrow> exclusive l = None))"

definition lock_excl :: "'t \<Rightarrow> 't rw_lock \<Rightarrow> 't rw_lock" where
  "lock_excl t l = l\<lparr>exclusive := Some t\<rparr>"

definition unlock_excl :: "'t rw_lock \<Rightarrow> 't rw_lock" where
  "unlock_excl l = l\<lparr>exclusive := None\<rparr>"

definition lock_shared :: "'t \<Rightarrow> 't rw_lock \<Rightarrow> 't rw_lock" where
  "lock_shared t l = l\<lparr>shared := (shared l)(t := Suc (shared l t))\<rparr>"

definition unlock_shared :: "'t \<Rightarrow> 't rw_lock \<Rightarrow> 't rw_lock" where
  "unlock_shared t l = l\<lparr>shared := (shared l)(t := shared l t - 1)\<rparr>"

section \<open>Operations in progress\<close>

datatype ('p, 'cb) list_op = AddCallback 'cb | RemoveCookie 'p

text \<open>What \<open>add\<close> and \<open>remove\<close> do between \<open>lock\<close> and \<open>unlock\<close>: the cookie, and the heap.\<close>

fun run_op ::
  "('p, 'cb) list_prims \<Rightarrow> ('p, 'k) callback_list \<Rightarrow> ('p, 'cb) list_op \<Rightarrow> 'p option \<Rightarrow> ('p, 'cb) lheap \<Rightarrow>
   ('p option \<times> ('p, 'cb) lheap) option"
where
  "run_op w c (AddCallback cb) node h = map_option (\<lambda>(cookie, h', _). (cookie, h')) (cl_add w c cb node h)"
| "run_op w c (RemoveCookie e) node h = map_option (\<lambda>(h', _). (None, h')) (cl_remove w c (Some e) h)"

text \<open>
  The operations of a thread, the newest first.  \<open>Writing\<close> has the heap the writer found;
  \<open>NotifyLoop\<close> and \<open>NotifyCall\<close> have the iterator and the callbacks called so far.
\<close>

datatype ('p, 'cb) frame =
    WriteWait "('p, 'cb) list_op"
  | Writing "('p, 'cb) list_op" "'p option" "('p, 'cb) lheap"
  | Written "'p option"
  | NotifyWait
  | NotifyLoop "'p klist_iterator" "'cb list"
  | NotifyCall "'p klist_iterator" "'cb list"
  | NotifyDone "'cb list"
  | Stopped

record ('t, 'p, 'cb) list_threads =
  links :: "('p, 'cb) lheap"
  lock :: "'t rw_lock"
  cookies :: "'p set"
  frames :: "'t \<Rightarrow> ('p, 'cb) frame list"

abbreviation set_frames ::
  "'t \<Rightarrow> ('p, 'cb) frame list \<Rightarrow> ('t, 'p, 'cb) list_threads \<Rightarrow> ('t, 'p, 'cb) list_threads"
where
  "set_frames t fs s \<equiv> s\<lparr>frames := (frames s)(t := fs)\<rparr>"

text \<open>Code runs outside every operation, or in a callback.\<close>

fun may_call :: "('p, 'cb) frame list \<Rightarrow> bool" where
  "may_call [] \<longleftrightarrow> True"
| "may_call (NotifyCall it seen # fs) \<longleftrightarrow> True"
| "may_call (_ # fs) \<longleftrightarrow> False"

text \<open>The node the allocator returns, if any, is not in use.\<close>

definition fresh_node :: "'p \<Rightarrow> ('p, 'cb) lheap \<Rightarrow> 'p option \<Rightarrow> bool" where
  "fresh_node head h node \<longleftrightarrow> (\<forall>n. node = Some n \<longrightarrow> n \<noteq> head \<and> node_value h n = None)"

text \<open>A cookie is used for one removal: the clients own \<open>cookies\<close>.\<close>

fun cookie_of :: "('p, 'cb) list_op \<Rightarrow> 'p set" where
  "cookie_of (AddCallback cb) = {}"
| "cookie_of (RemoveCookie e) = {e}"

text \<open>\<open>checks\<close>: the loop is the one of \<open>call_status\<close>, which a failing callback ends.\<close>

inductive list_step ::
  "('p, 'cb) list_prims \<Rightarrow> ('p, 'k) callback_list \<Rightarrow> 't lock_api \<Rightarrow> bool \<Rightarrow>
   ('t, 'p, 'cb) list_threads \<Rightarrow> ('t, 'p, 'cb) list_threads \<Rightarrow> bool"
  for w :: "('p, 'cb) list_prims" and c :: "('p, 'k) callback_list" and a :: "'t lock_api" and checks :: bool
where
  begin_write: "may_call (frames s t) \<Longrightarrow> cookie_of op \<subseteq> cookies s \<Longrightarrow>
    list_step w c a checks s (set_frames t (WriteWait op # frames s t) (s\<lparr>cookies := cookies s - cookie_of op\<rparr>))"
| write_lock: "frames s t = WriteWait op # fs \<Longrightarrow> grants_exclusive a t (lock s) \<Longrightarrow>
    fresh_node (list_head c) (links s) node \<Longrightarrow>
    list_step w c a checks s (set_frames t (Writing op node (links s) # fs) (s\<lparr>lock := lock_excl t (lock s)\<rparr>))"
| write_link: "frames s t = Writing op node h0 # fs \<Longrightarrow> list_step w c a checks s (s\<lparr>links := h\<rparr>)"
| write_done: "frames s t = Writing op node h0 # fs \<Longrightarrow> run_op w c op node h0 = Some (r, h) \<Longrightarrow>
    list_step w c a checks s (set_frames t (Written r # fs) (s\<lparr>links := h\<rparr>))"
| write_stop: "frames s t = Writing op node h0 # fs \<Longrightarrow> run_op w c op node h0 = None \<Longrightarrow>
    list_step w c a checks s (set_frames t (Stopped # fs) s)"
| write_unlock: "frames s t = Written r # fs \<Longrightarrow>
    list_step w c a checks s
      (set_frames t fs (s\<lparr>lock := unlock_excl (lock s), cookies := cookies s \<union> set_option r\<rparr>))"
| begin_notify: "may_call (frames s t) \<Longrightarrow> list_step w c a checks s (set_frames t (NotifyWait # frames s t) s)"
| notify_lock: "frames s t = NotifyWait # fs \<Longrightarrow> grants_shared a t (lock s) \<Longrightarrow>
    list_step w c a checks s
      (set_frames t (NotifyLoop (list_begin (list_head c) (links s)) [] # fs) (s\<lparr>lock := lock_shared t (lock s)\<rparr>))"
| notify_end: "frames s t = NotifyLoop it seen # fs \<Longrightarrow> iter_eq it (list_end (list_head c)) \<Longrightarrow>
    list_step w c a checks s (set_frames t (NotifyDone seen # fs) s)"
| notify_call: "frames s t = NotifyLoop it seen # fs \<Longrightarrow> \<not> iter_eq it (list_end (list_head c)) \<Longrightarrow>
    iter_deref (links s) it = Value cb \<Longrightarrow>
    list_step w c a checks s (set_frames t (NotifyCall it (seen @ [cb]) # fs) s)"
| notify_stop: "frames s t = NotifyLoop it seen # fs \<Longrightarrow> \<not> iter_eq it (list_end (list_head c)) \<Longrightarrow>
    iter_deref (links s) it \<in> {RangeCheckFailure, NoNode} \<Longrightarrow>
    list_step w c a checks s (set_frames t (Stopped # fs) s)"
| notify_next: "frames s t = NotifyCall it seen # fs \<Longrightarrow>
    list_step w c a checks s (set_frames t (NotifyLoop (iter_inc (links s) it) seen # fs) s)"
| notify_break: "frames s t = NotifyCall it seen # fs \<Longrightarrow> checks \<Longrightarrow>
    list_step w c a checks s (set_frames t (NotifyDone seen # fs) s)"
| notify_unlock: "frames s t = NotifyDone seen # fs \<Longrightarrow>
    list_step w c a checks s (set_frames t fs (s\<lparr>lock := unlock_shared t (lock s)\<rparr>))"

inductive list_reachable ::
  "('p, 'cb) list_prims \<Rightarrow> ('p, 'k) callback_list \<Rightarrow> 't lock_api \<Rightarrow> bool \<Rightarrow> ('t, 'p, 'cb) list_threads \<Rightarrow> bool"
  for w :: "('p, 'cb) list_prims" and c :: "('p, 'k) callback_list" and a :: "'t lock_api" and checks :: bool
where
  start: "list_reachable w c a checks
    \<lparr>links = klist_construct w (list_head c) h, lock = \<lparr>exclusive = None, shared = \<lambda>_. 0\<rparr>,
     cookies = {}, frames = \<lambda>_. []\<rparr>"
| step: "list_reachable w c a checks s \<Longrightarrow> list_step w c a checks s s' \<Longrightarrow> list_reachable w c a checks s'"

section \<open>The lock and the stacks\<close>

fun reading :: "('p, 'cb) frame \<Rightarrow> bool" where
  "reading (NotifyLoop it seen) \<longleftrightarrow> True"
| "reading (NotifyCall it seen) \<longleftrightarrow> True"
| "reading (NotifyDone seen) \<longleftrightarrow> True"
| "reading _ \<longleftrightarrow> False"

fun calling :: "('p, 'cb) frame \<Rightarrow> bool" where
  "calling (NotifyCall it seen) \<longleftrightarrow> True"
| "calling _ \<longleftrightarrow> False"

fun owns :: "('p, 'cb) frame \<Rightarrow> bool" where
  "owns (Writing op node h) \<longleftrightarrow> True"
| "owns (Written r) \<longleftrightarrow> True"
| "owns _ \<longleftrightarrow> False"

text \<open>What the newest operation is about.\<close>

fun writes :: "('p, 'cb) frame \<Rightarrow> (('p, 'cb) list_op \<times> 'p option \<times> ('p, 'cb) lheap) option" where
  "writes (Writing op node h) = Some (op, node, h)"
| "writes _ = None"

text \<open>The cookie an operation has taken from its client, or will give to it.\<close>

fun claims :: "('p, 'cb) frame \<Rightarrow> 'p option" where
  "claims (WriteWait (RemoveCookie e)) = Some e"
| "claims (Writing (RemoveCookie e) node h) = Some e"
| "claims (Written r) = r"
| "claims _ = None"

fun owning :: "('p, 'cb) frame list \<Rightarrow> bool" where
  "owning [] \<longleftrightarrow> False"
| "owning (f # fs) \<longleftrightarrow> owns f"

fun writing :: "('p, 'cb) frame list \<Rightarrow> (('p, 'cb) list_op \<times> 'p option \<times> ('p, 'cb) lheap) option" where
  "writing [] = None"
| "writing (f # fs) = writes f"

fun claim :: "('p, 'cb) frame list \<Rightarrow> 'p option" where
  "claim [] = None"
| "claim (f # fs) = claims f"

definition lock_ok :: "('t, 'p, 'cb) list_threads \<Rightarrow> bool" where
  "lock_ok s \<longleftrightarrow> (\<forall>t. shared (lock s) t = length (filter reading (frames s t)))
     \<and> (\<forall>t. exclusive (lock s) = Some t \<longleftrightarrow> owning (frames s t))
     \<and> (exclusive (lock s) \<noteq> None \<longrightarrow> (\<forall>t. shared (lock s) t = 0))
     \<and> (\<forall>t. \<forall>f \<in> set (tl (frames s t)). calling f)
     \<and> (\<forall>t. Stopped \<notin> set (frames s t))"

lemma calling_reading: "calling f \<Longrightarrow> reading f"
  by (cases f) simp_all

lemma may_call_calling: "may_call fs \<Longrightarrow> \<forall>f \<in> set (tl fs). calling f \<Longrightarrow> \<forall>f \<in> set fs. calling f"
  by (cases fs rule: may_call.cases) auto

lemma calling_idle: "calling f \<Longrightarrow> \<not> owns f \<and> writes f = None \<and> claims f = None"
  by (cases f) simp_all

lemma not_owns_writes: "\<not> owns f \<Longrightarrow> writes f = None"
  by (cases f) simp_all

lemma not_owning_writing: "\<not> owning fs \<Longrightarrow> writing fs = None"
  by (cases fs) (simp_all add: not_owns_writes)

lemma calling_not_owning:
  assumes "\<forall>f \<in> set fs. calling f"
  shows "\<not> owning fs" and "writing fs = None" and "claim fs = None"
  using assms calling_idle by (cases fs; auto)+

lemma lock_okD:
  assumes "lock_ok s"
  shows "shared (lock s) t = length (filter reading (frames s t))"
    and "exclusive (lock s) = Some t \<longleftrightarrow> owning (frames s t)"
    and "exclusive (lock s) = Some u \<Longrightarrow> shared (lock s) t = 0"
    and "\<forall>f \<in> set (tl (frames s t)). calling f"
    and "Stopped \<notin> set (frames s t)"
  using assms unfolding lock_ok_def by blast+

lemma writer_alone:
  assumes "lock_ok s" and "owning (frames s t)"
  shows "f \<in> set (frames s u) \<Longrightarrow> \<not> reading f" and "owning (frames s u) \<Longrightarrow> u = t" and "tl (frames s t) = []"
proof -
  have x: "exclusive (lock s) = Some t" using lock_okD(2) [OF assms(1)] assms(2) by simp
  have none: "\<not> reading f" if "f \<in> set (frames s u)" for f u
    using lock_okD(1,3) [OF assms(1)] x that by (metis filter_empty_conv length_0_conv)
  show "f \<in> set (frames s u) \<Longrightarrow> \<not> reading f" by (rule none)
  show "owning (frames s u) \<Longrightarrow> u = t" using lock_okD(2) [OF assms(1), of u] x by simp
  show "tl (frames s t) = []"
  proof (cases "frames s t")
    case (Cons g fs)
    have "f \<notin> set fs" for f
      using lock_okD(4) [OF assms(1), of t] none [of f t] calling_reading [of f] by (auto simp: Cons)
    then show ?thesis by (simp add: Cons) (metis hd_in_set)
  qed simp
qed

lemma lock_okI:
  assumes "\<And>t. shared (lock s) t = length (filter reading (frames s t))"
    and "\<And>t. exclusive (lock s) = Some t \<longleftrightarrow> owning (frames s t)"
    and "\<And>t u. exclusive (lock s) = Some u \<Longrightarrow> shared (lock s) t = 0"
    and "\<And>t f. f \<in> set (tl (frames s t)) \<Longrightarrow> calling f"
    and "\<And>t. Stopped \<notin> set (frames s t)"
  shows "lock_ok s"
  using assms unfolding lock_ok_def by blast

text \<open>A step that changes neither the lock nor what the top operation holds.\<close>

lemma lock_ok_top:
  assumes "lock_ok s" and "lock s' = lock s" and "frames s' = (frames s)(t := fs')"
    and "length (filter reading fs') = length (filter reading (frames s t))"
    and "owning fs' = owning (frames s t)" and "\<forall>f \<in> set (tl fs'). calling f" and "Stopped \<notin> set fs'"
  shows "lock_ok s'"
  using assms(2-) lock_okD [OF assms(1)] by (intro lock_okI) (auto split: if_splits)

lemma grants_exclusiveD:
  assumes "lock_api_ok a" and "lock_ok s" and "grants_exclusive a t (lock s)" and "\<not> owning (frames s t)"
  shows "exclusive (lock s) = None" and "shared (lock s) u = 0"
  using assms lock_okD(2) [OF assms(2), of t] unfolding lock_api_ok_def by blast+

lemma grants_sharedD:
  assumes "lock_api_ok a" and "lock_ok s" and "grants_shared a t (lock s)" and "\<not> owning (frames s t)"
  shows "exclusive (lock s) = None"
  using assms lock_okD(2) [OF assms(2), of t] unfolding lock_api_ok_def by blast

lemma tl_calling:
  assumes "lock_ok s" and "frames s t = f # fs"
  shows "\<forall>g \<in> set fs. calling g" and "\<forall>g \<in> set (tl fs). calling g" and "Stopped \<notin> set fs"
    and "\<not> owning fs" and "writing fs = None" and "claim fs = None"
  using lock_okD(4,5) [OF assms(1), of t] calling_not_owning [of fs]
  by (auto simp: assms(2)) (cases fs; simp)

section \<open>The list\<close>

definition no_writer :: "('t, 'p, 'cb) list_threads \<Rightarrow> bool" where
  "no_writer s \<longleftrightarrow> (\<forall>t. writing (frames s t) = None)"

text \<open>The nodes \<open>es\<close> form the list: in the heap a writer found, or in the heap.\<close>

definition list_ok :: "'p \<Rightarrow> ('t, 'p, 'cb) list_threads \<Rightarrow> 'p list \<Rightarrow> bool" where
  "list_ok head s es \<longleftrightarrow>
     (\<forall>t op node h0. writing (frames s t) = Some (op, node, h0) \<longrightarrow> ring head h0 es \<and> fresh_node head h0 node)
     \<and> (no_writer s \<longrightarrow> ring head (links s) es)"

definition cookies_ok :: "('t, 'p, 'cb) list_threads \<Rightarrow> 'p list \<Rightarrow> bool" where
  "cookies_ok s es \<longleftrightarrow> cookies s \<subseteq> set es
     \<and> (\<forall>t e. claim (frames s t) = Some e \<longrightarrow> e \<in> set es \<and> e \<notin> cookies s)
     \<and> (\<forall>t u e. claim (frames s t) = Some e \<longrightarrow> claim (frames s u) = Some e \<longrightarrow> t = u)"

fun frame_ok :: "('p, 'cb) lheap \<Rightarrow> 'p \<Rightarrow> bool \<Rightarrow> ('p, 'cb) frame \<Rightarrow> bool" where
  "frame_ok h head checks (NotifyLoop it seen) \<longleftrightarrow> (\<exists>xs ys. stands h head it xs ys \<and> seen = values_of h xs)"
| "frame_ok h head checks (NotifyCall it seen) \<longleftrightarrow>
     (\<exists>xs y ys. stands h head it xs (y # ys) \<and> seen = values_of h (xs @ [y]))"
| "frame_ok h head checks (NotifyDone seen) \<longleftrightarrow>
     (\<exists>xs ys. ring head h (xs @ ys) \<and> seen = values_of h xs \<and> (checks \<or> ys = []))"
| "frame_ok h head checks f \<longleftrightarrow> True"

definition frames_ok :: "'p \<Rightarrow> bool \<Rightarrow> ('t, 'p, 'cb) list_threads \<Rightarrow> bool" where
  "frames_ok head checks s \<longleftrightarrow> (\<forall>t. \<forall>f \<in> set (frames s t). frame_ok (links s) head checks f)"

definition threads_inv :: "'p \<Rightarrow> bool \<Rightarrow> ('t, 'p, 'cb) list_threads \<Rightarrow> bool" where
  "threads_inv head checks s \<longleftrightarrow>
     lock_ok s \<and> frames_ok head checks s \<and> (\<exists>es. list_ok head s es \<and> cookies_ok s es)"

lemma not_reading_ok: "\<not> reading f \<Longrightarrow> frame_ok h head checks f"
  by (cases f) simp_all

text \<open>The two operations on a well-formed list.\<close>

lemma run_op_register:
  assumes "prims_ok w" and "ring (list_head c) h es" and "fresh_node (list_head c) h node"
  shows "\<exists>h' es'. run_op w c (AddCallback cb) node h = Some (node, h') \<and> ring (list_head c) h' es'
    \<and> es' = (case node of None \<Rightarrow> es | Some n \<Rightarrow> n # es) \<and> (\<forall>n. node = Some n \<longrightarrow> n \<notin> set es)"
proof (cases node)
  case None
  then show ?thesis
    using assms(2) by (simp add: cl_add_def klist_emplace_front_def klist_emplace_def)
next
  case (Some n)
  have n: "n \<notin> set (list_head c # es)" using assms(2,3) by (auto simp: Some fresh_node_def ring_def)
  obtain h' where "klist_emplace w (list_head c) (klist_begin (list_head c) h) cb (Some n) h = Some (n, h')"
    and "ring (list_head c) h' (n # es)"
    using klist_emplace_ring [OF assms(1), of "list_head c" h "[]" es n _ cb] assms(2) n ring_begin [OF assms(2)]
    by auto
  then show ?thesis using n by (simp add: cl_add_def klist_emplace_front_def Some)
qed

lemma run_op_unregister:
  assumes "prims_ok w" and "ring (list_head c) h es" and "e \<in> set es"
  shows "\<exists>h'. run_op w c (RemoveCookie e) node h = Some (None, h') \<and> ring (list_head c) h' (remove1 e es)"
proof -
  obtain xs ys where es: "es = xs @ e # ys" "e \<notin> set xs" using split_list_first [OF assms(3)] by blast
  obtain h' where "klist_erase w e h = Some (hd (ys @ [list_head c]), h')" and "ring (list_head c) h' (xs @ ys)"
    using klist_erase_ring [OF assms(1)] assms(2) es(1) by blast
  then show ?thesis using es by (simp add: cl_remove_def remove1_append)
qed

section \<open>The steps keep the invariant\<close>

lemma frames_ok_top:
  assumes "frames_ok head checks s" and "links s' = links s" and "frames s' = (frames s)(t := fs')"
    and "\<forall>f \<in> set fs'. frame_ok (links s) head checks f"
  shows "frames_ok head checks s'"
  unfolding frames_ok_def assms(2,3) using assms(1,4) by (simp add: frames_ok_def)

lemma frames_ok_unread:
  assumes "\<And>u f. f \<in> set (frames s u) \<Longrightarrow> \<not> reading f"
  shows "frames_ok head checks s"
  unfolding frames_ok_def by (intro allI ballI not_reading_ok assms)

lemma list_ok_top:
  assumes "list_ok head s es" and "links s' = links s" and "frames s' = (frames s)(t := fs')"
    and "writing (frames s t) = None" and "writing fs' = None"
  shows "list_ok head s' es"
proof -
  have e: "writing (frames s' u) = writing (frames s u)" for u using assms(3-5) by simp
  show ?thesis using assms(1,2) by (simp add: list_ok_def no_writer_def e)
qed

lemma cookies_ok_top:
  assumes "cookies_ok s es" and "cookies s' = cookies s" and "frames s' = (frames s)(t := fs')"
    and "claim fs' = None"
  shows "cookies_ok s' es"
  using assms unfolding cookies_ok_def by (auto split: if_splits)

text \<open>The newest operation goes on without touching the lock, the list or a cookie.\<close>

lemma threads_inv_top:
  assumes "threads_inv head checks s" and "frames s t = f # fs"
    and "reading g = reading f" and "\<not> owns f" and "\<not> owns g" and "g \<noteq> Stopped" and "claims g = None"
    and "frame_ok (links s) head checks g"
  shows "threads_inv head checks (set_frames t (g # fs) s)"
proof -
  obtain es where i: "lock_ok s" "frames_ok head checks s" "list_ok head s es" "cookies_ok s es"
    using assms(1) by (auto simp: threads_inv_def)
  have w: "writes f = None" "writes g = None" using assms(4,5) not_owns_writes by blast+
  note c = tl_calling [OF i(1) assms(2)]
  have fs: "\<forall>x \<in> set fs. frame_ok (links s) head checks x"
    using i(2) assms(2) unfolding frames_ok_def by (metis list.set_intros(2))
  let ?s = "set_frames t (g # fs) s"
  have "lock_ok ?s" 
    by (rule lock_ok_top [OF i(1), where t = t and fs' = "g # fs"]) (use assms(2-6) c in auto)
  moreover have "frames_ok head checks ?s"
    by (rule frames_ok_top [OF i(2), where t = t and fs' = "g # fs"]) (use assms(8) fs in auto)
  moreover have "list_ok head ?s es" by (rule list_ok_top [OF i(3), where t = t and fs' = "g # fs"])
      (use assms(2) w in auto)
  moreover have "cookies_ok ?s es" by (rule cookies_ok_top [OF i(4), where t = t and fs' = "g # fs"])
      (use assms(7) in auto)
  ultimately show ?thesis unfolding threads_inv_def by blast
qed

lemma begin_inv:
  assumes "threads_inv head checks s" and "may_call (frames s t)"
    and "\<not> reading g" and "\<not> owns g" and "g \<noteq> Stopped" and "cookies' = cookies s - set_option (claims g)"
    and "set_option (claims g) \<subseteq> cookies s"
  shows "threads_inv head checks (set_frames t (g # frames s t) (s\<lparr>cookies := cookies'\<rparr>))"
proof -
  obtain es where i: "lock_ok s" "frames_ok head checks s" "list_ok head s es" "cookies_ok s es"
    using assms(1) by (auto simp: threads_inv_def)
  have w: "writes g = None" using assms(4) by (rule not_owns_writes)
  have c: "\<forall>f \<in> set (frames s t). calling f" using may_call_calling [OF assms(2) lock_okD(4) [OF i(1)]] .
  let ?s = "set_frames t (g # frames s t) (s\<lparr>cookies := cookies'\<rparr>)"
  have "lock_ok ?s"
    by (rule lock_ok_top [OF i(1), where t = t and fs' = "g # frames s t"])
       (use assms(3-5) c calling_not_owning [OF c] lock_okD(5) [OF i(1), of t] in auto)
  moreover have "frames_ok head checks ?s"
    by (rule frames_ok_top [OF i(2), where t = t and fs' = "g # frames s t"]) (use not_reading_ok [OF assms(3)] i(2) in \<open>auto simp: frames_ok_def\<close>)
  moreover have "list_ok head ?s es" by (rule list_ok_top [OF i(3), where t = t and fs' = "g # frames s t"])
      (use calling_not_owning [OF c] w in auto)
  moreover have "cookies_ok ?s es"
    using i(4) assms(6,7) unfolding cookies_ok_def by (auto split: if_splits)
  ultimately show ?thesis unfolding threads_inv_def by blast
qed

lemma write_lock_inv:
  assumes "lock_api_ok a" and "threads_inv head checks s" and "frames s t = WriteWait op # fs"
    and "grants_exclusive a t (lock s)" and "fresh_node head (links s) node"
  shows "threads_inv head checks (set_frames t (Writing op node (links s) # fs) (s\<lparr>lock := lock_excl t (lock s)\<rparr>))"
proof -
  obtain es where i: "lock_ok s" "frames_ok head checks s" "list_ok head s es" "cookies_ok s es"
    using assms(2) by (auto simp: threads_inv_def)
  have o: "\<not> owning (frames s t)" by (simp add: assms(3))
  note g = grants_exclusiveD [OF assms(1) i(1) assms(4) o]
  note c = tl_calling [OF i(1) assms(3)]
  have none: "\<not> owning (frames s u)" for u using lock_okD(2) [OF i(1), of u] g(1) by simp
  have quiet: "\<not> reading f" if "f \<in> set (frames s u)" for f u
    using lock_okD(1) [OF i(1), of u] g(2) [of u] that by (auto simp: filter_empty_conv)
  have nw: "writing (frames s u) = None" for u using none by (rule not_owning_writing)
  have qfs: "\<not> reading f" if "f \<in> set fs" for f using quiet [of f t] that by (simp add: assms(3))
  let ?s = "set_frames t (Writing op node (links s) # fs) (s\<lparr>lock := lock_excl t (lock s)\<rparr>)"
  have "lock_ok ?s"
    by (rule lock_okI)
       (use lock_okD [OF i(1)] g none c qfs in \<open>auto simp: lock_excl_def assms(3) filter_empty_conv split: if_splits\<close>)
  moreover have "frames_ok head checks ?s"
    by (rule frames_ok_unread) (use quiet qfs in \<open>auto split: if_splits\<close>)
  moreover have "list_ok head ?s es"
    using i(3) nw assms(5) unfolding list_ok_def no_writer_def by (auto split: if_splits)
  moreover have "cookies_ok ?s es"
  proof -
    have "claim (frames ?s u) = claim (frames s u)" for u by (cases op) (simp_all add: assms(3))
    then show ?thesis using i(4) by (simp add: cookies_ok_def)
  qed
  ultimately show ?thesis unfolding threads_inv_def by blast
qed

lemma write_link_inv:
  assumes "threads_inv head checks s" and "frames s t = Writing op node h0 # fs"
  shows "threads_inv head checks (s\<lparr>links := h\<rparr>)"
proof -
  obtain es where i: "lock_ok s" "frames_ok head checks s" "list_ok head s es" "cookies_ok s es"
    using assms(1) by (auto simp: threads_inv_def)
  have o: "owning (frames s t)" by (simp add: assms(2))
  have "lock_ok (s\<lparr>links := h\<rparr>)" by (rule lock_okI) (use lock_okD [OF i(1)] in simp_all)
  moreover have "frames_ok head checks (s\<lparr>links := h\<rparr>)"
    by (rule frames_ok_unread) (use writer_alone(1) [OF i(1) o] in simp)
  moreover have "list_ok head (s\<lparr>links := h\<rparr>) es"
    using i(3) assms(2) unfolding list_ok_def no_writer_def by (auto dest: spec [of _ t])
  moreover have "cookies_ok (s\<lparr>links := h\<rparr>) es" using i(4) by (simp add: cookies_ok_def)
  ultimately show ?thesis unfolding threads_inv_def by blast
qed

text \<open>The operation of a writer succeeds, and its result has the cookies its claim needs.\<close>

lemma run_op_result:
  assumes "prims_ok w" and "threads_inv (list_head c) checks s" and "frames s t = Writing op node h0 # fs"
  obtains r h es' where "run_op w c op node h0 = Some (r, h)" and "ring (list_head c) h es'"
    and "cookies_ok (set_frames t (Written r # fs) (s\<lparr>links := h\<rparr>)) es'"
proof -
  let ?head = "list_head c"
  obtain es where i: "list_ok ?head s es" "cookies_ok s es" using assms(2) by (auto simp: threads_inv_def)
  have r: "ring ?head h0 es" "fresh_node ?head h0 node"
    using i(1) assms(3) unfolding list_ok_def by (metis writing.simps(2) writes.simps(1))+
  show ?thesis
  proof (cases op)
    case (AddCallback cb)
    obtain h' es' where o: "run_op w c (AddCallback cb) node h0 = Some (node, h')" and r': "ring ?head h' es'"
      and es': "es' = (case node of None \<Rightarrow> es | Some n \<Rightarrow> n # es)" "\<forall>n. node = Some n \<longrightarrow> n \<notin> set es"
      using run_op_register [OF assms(1) r, of cb] by blast
    have "cookies_ok (set_frames t (Written node # fs) (s\<lparr>links := h'\<rparr>)) es'"
      using i(2) es' unfolding cookies_ok_def by (auto split: if_splits option.splits)
    with o r' show ?thesis by (intro that) (simp_all add: AddCallback)
  next
    case (RemoveCookie e)
    have e: "claim (frames s t) = Some e" by (simp add: assms(3) RemoveCookie)
    then have "e \<in> set es" "e \<notin> cookies s" and u: "\<And>u. claim (frames s u) = Some e \<Longrightarrow> u = t"
      using i(2) unfolding cookies_ok_def by blast+
    obtain h' where o: "run_op w c (RemoveCookie e) node h0 = Some (None, h')" and r': "ring ?head h' (remove1 e es)"
      using run_op_unregister [OF assms(1) r(1) \<open>e \<in> set es\<close>] by blast
    have d: "set (remove1 e es) = set es - {e}" using r(1) by (simp add: ring_def set_remove1_eq)
    have "cookies_ok (set_frames t (Written None # fs) (s\<lparr>links := h'\<rparr>)) (remove1 e es)"
      using i(2) u \<open>e \<notin> cookies s\<close> unfolding cookies_ok_def d by (auto split: if_splits)
    with o r' show ?thesis by (intro that) (simp_all add: RemoveCookie)
  qed
qed

lemma write_done_inv:
  assumes "prims_ok w" and "threads_inv (list_head c) checks s" and "frames s t = Writing op node h0 # fs"
    and "run_op w c op node h0 = Some (r, h)"
  shows "threads_inv (list_head c) checks (set_frames t (Written r # fs) (s\<lparr>links := h\<rparr>))"
proof -
  have i: "lock_ok s" using assms(2) by (simp add: threads_inv_def)
  obtain es' where e: "ring (list_head c) h es'" "cookies_ok (set_frames t (Written r # fs) (s\<lparr>links := h\<rparr>)) es'"
    using run_op_result [OF assms(1-3)] assms(4) by (metis Pair_inject option.inject)
  have o: "owning (frames s t)" by (simp add: assms(3))
  have none: "writing (frames s u) = None" if "u \<noteq> t" for u
    using writer_alone(2) [OF i o, of u] that not_owning_writing by blast
  note c = tl_calling [OF i assms(3)]
  let ?s = "set_frames t (Written r # fs) (s\<lparr>links := h\<rparr>)"
  have "lock_ok ?s"
    by (rule lock_ok_top [OF i, where t = t and fs' = "Written r # fs"]) (use c in \<open>auto simp: assms(3)\<close>)
  moreover have "frames_ok (list_head c) checks ?s"
    by (rule frames_ok_unread)
       (use writer_alone(1) [OF i o] writer_alone(3) [OF i o] in \<open>auto simp: assms(3) split: if_splits\<close>)
  moreover have "list_ok (list_head c) ?s es'"
    using e(1) none unfolding list_ok_def no_writer_def by (auto split: if_splits)
  ultimately show ?thesis using e(2) unfolding threads_inv_def by blast
qed

lemma write_unlock_inv:
  assumes "threads_inv head checks s" and "frames s t = Written r # fs"
  shows "threads_inv head checks
    (set_frames t fs (s\<lparr>lock := unlock_excl (lock s), cookies := cookies s \<union> set_option r\<rparr>))"
proof -
  obtain es where i: "lock_ok s" "frames_ok head checks s" "list_ok head s es" "cookies_ok s es"
    using assms(1) by (auto simp: threads_inv_def)
  have o: "owning (frames s t)" by (simp add: assms(2))
  have fs: "fs = []" using writer_alone(3) [OF i(1) o] by (simp add: assms(2))
  have none: "\<not> owning (frames s u)" "writing (frames s u) = None" if "u \<noteq> t" for u
    using writer_alone(2) [OF i(1) o, of u] that not_owning_writing by blast+
  let ?s = "set_frames t fs (s\<lparr>lock := unlock_excl (lock s), cookies := cookies s \<union> set_option r\<rparr>)"
  have "lock_ok ?s"
    by (rule lock_okI)
       (use lock_okD [OF i(1)] none(1) in \<open>auto simp: unlock_excl_def fs assms(2) split: if_splits\<close>)
  moreover have "frames_ok head checks ?s"
    by (rule frames_ok_unread) (use writer_alone(1) [OF i(1) o] fs in \<open>auto split: if_splits\<close>)
  moreover have "list_ok head ?s es"
  proof -
    have "writing (frames s u) = writing (frames ?s u)" for u by (simp add: assms(2) fs)
    then show ?thesis using i(3) by (simp add: list_ok_def no_writer_def)
  qed
  moreover have "cookies_ok ?s es"
  proof -
    have "claim (frames s t) = r" by (simp add: assms(2))
    then show ?thesis using i(4) unfolding cookies_ok_def fs by (auto split: if_splits)
  qed
  ultimately show ?thesis unfolding threads_inv_def by blast
qed

lemma notify_lock_inv:
  assumes "lock_api_ok a" and "threads_inv head checks s" and "frames s t = NotifyWait # fs"
    and "grants_shared a t (lock s)"
  shows "threads_inv head checks
    (set_frames t (NotifyLoop (list_begin head (links s)) [] # fs) (s\<lparr>lock := lock_shared t (lock s)\<rparr>))"
proof -
  obtain es where i: "lock_ok s" "frames_ok head checks s" "list_ok head s es" "cookies_ok s es"
    using assms(2) by (auto simp: threads_inv_def)
  have o: "\<not> owning (frames s t)" by (simp add: assms(3))
  note g = grants_sharedD [OF assms(1) i(1) assms(4) o]
  have none: "\<not> owning (frames s u)" for u using lock_okD(2) [OF i(1), of u] g by simp
  then have nw: "no_writer s" using not_owning_writing unfolding no_writer_def by blast
  then have "ring head (links s) es" using i(3) by (simp add: list_ok_def)
  from stands_begin [OF this] have b: "frame_ok (links s) head checks (NotifyLoop (list_begin head (links s)) [])"
    by (auto simp: values_of_def intro: exI [of _ "[]"])
  note c = tl_calling [OF i(1) assms(3)]
  have fs: "\<forall>x \<in> set fs. frame_ok (links s) head checks x"
    using i(2) assms(3) unfolding frames_ok_def by (metis list.set_intros(2))
  let ?g = "NotifyLoop (list_begin head (links s)) []"
  let ?s = "set_frames t (?g # fs) (s\<lparr>lock := lock_shared t (lock s)\<rparr>)"
  have "lock_ok ?s"
    by (rule lock_okI) (use lock_okD [OF i(1)] none g c in \<open>auto simp: lock_shared_def assms(3) split: if_splits\<close>)
  moreover have "frames_ok head checks ?s"
    by (rule frames_ok_top [OF i(2), where t = t and fs' = "?g # fs"]) (use b fs in auto)
  moreover have "list_ok head ?s es"
    by (rule list_ok_top [OF i(3), where t = t and fs' = "?g # fs"]) (use assms(3) in auto)
  moreover have "cookies_ok ?s es"
    by (rule cookies_ok_top [OF i(4), where t = t and fs' = "?g # fs"]) (use assms(3) in auto)
  ultimately show ?thesis unfolding threads_inv_def by blast
qed

lemma notify_unlock_inv:
  assumes "threads_inv head checks s" and "frames s t = NotifyDone seen # fs"
  shows "threads_inv head checks (set_frames t fs (s\<lparr>lock := unlock_shared t (lock s)\<rparr>))"
proof -
  obtain es where i: "lock_ok s" "frames_ok head checks s" "list_ok head s es" "cookies_ok s es"
    using assms(1) by (auto simp: threads_inv_def)
  note c = tl_calling [OF i(1) assms(2)]
  have fs: "\<forall>x \<in> set fs. frame_ok (links s) head checks x"
    using i(2) assms(2) unfolding frames_ok_def by (metis list.set_intros(2))
  let ?s = "set_frames t fs (s\<lparr>lock := unlock_shared t (lock s)\<rparr>)"
  have "lock_ok ?s"
    by (rule lock_okI) (use lock_okD [OF i(1)] c in \<open>auto simp: unlock_shared_def assms(2) split: if_splits\<close>)
  moreover have "frames_ok head checks ?s"
    by (rule frames_ok_top [OF i(2), where t = t and fs' = fs]) (use fs in auto)
  moreover have "list_ok head ?s es"
    by (rule list_ok_top [OF i(3), where t = t and fs' = fs]) (use assms(2) c in auto)
  moreover have "cookies_ok ?s es"
    by (rule cookies_ok_top [OF i(4), where t = t and fs' = fs]) (use c in auto)
  ultimately show ?thesis unfolding threads_inv_def by blast
qed

lemma frame_ok_newest:
  assumes "threads_inv head checks s" and "frames s t = f # fs"
  shows "frame_ok (links s) head checks f"
  using assms unfolding threads_inv_def frames_ok_def by (metis list.set_intros(1))

lemma loop_position:
  assumes "threads_inv head checks s" and "frames s t = NotifyLoop it seen # fs"
  obtains xs ys where "stands (links s) head it xs ys" and "seen = values_of (links s) xs"
  using frame_ok_newest [OF assms] by auto

lemma iter_deref_node: "stands h head it xs (y # ys) \<Longrightarrow> iter_deref h it = Value (the (node_value h y))"
  by (simp add: stands_deref value_at_def)

lemma threads_inv_step:
  assumes w: "prims_ok w" and a: "lock_api_ok a" and "list_step w c a checks s s'"
    and inv: "threads_inv (list_head c) checks s"
  shows "threads_inv (list_head c) checks s'"
  using assms(3)
proof cases
  case (begin_write t op)
  have "cookie_of op = set_option (claims (WriteWait op))" by (cases op) simp_all
  then show ?thesis unfolding begin_write(1) by (intro begin_inv [OF inv begin_write(2)]) (use begin_write(3) in simp_all)
next
  case (write_lock t op fs node)
  then show ?thesis using write_lock_inv [OF a inv] by simp
next
  case (write_link t op node h0 fs h)
  then show ?thesis using write_link_inv [OF inv] by simp
next
  case (write_done t op node h0 fs r h)
  then show ?thesis using write_done_inv [OF w inv] by simp
next
  case (write_stop t op node h0 fs)
  then show ?thesis using run_op_result [OF w inv write_stop(2)] by simp metis
next
  case (write_unlock t r fs)
  then show ?thesis using write_unlock_inv [OF inv] by simp
next
  case (begin_notify t)
  have "threads_inv (list_head c) checks (set_frames t (NotifyWait # frames s t) (s\<lparr>cookies := cookies s\<rparr>))"
    by (rule begin_inv [OF inv begin_notify(2)]) simp_all
  then show ?thesis by (simp add: begin_notify(1))
next
  case (notify_lock t fs)
  then show ?thesis using notify_lock_inv [OF a inv] by simp
next
  case (notify_end t it seen fs)
  obtain xs ys where p: "stands (links s) (list_head c) it xs ys" "seen = values_of (links s) xs"
    using loop_position [OF inv notify_end(2)] .
  have "ys = []" using stands_at_end [OF p(1)] notify_end(3) by simp
  then have "ring (list_head c) (links s) (xs @ [])" using p(1) by (simp add: stands_def)
  then have "frame_ok (links s) (list_head c) checks (NotifyDone seen)" unfolding frame_ok.simps using p(2) by blast
  then show ?thesis unfolding notify_end(1) by (intro threads_inv_top [OF inv notify_end(2)]) simp_all
next
  case (notify_call t it seen fs cb)
  obtain xs ys where p: "stands (links s) (list_head c) it xs ys" "seen = values_of (links s) xs"
    using loop_position [OF inv notify_call(2)] .
  obtain y zs where ys: "ys = y # zs" using stands_at_end [OF p(1)] notify_call(3) by (cases ys) auto
  have "cb = the (node_value (links s) y)" using iter_deref_node [OF p(1) [unfolded ys]] notify_call(4) by simp
  then have "frame_ok (links s) (list_head c) checks (NotifyCall it (seen @ [cb]))"
    using p by (auto simp: ys values_of_def)
  then show ?thesis unfolding notify_call(1) by (intro threads_inv_top [OF inv notify_call(2)]) simp_all
next
  case (notify_stop t it seen fs)
  obtain xs ys where p: "stands (links s) (list_head c) it xs ys" "seen = values_of (links s) xs"
    using loop_position [OF inv notify_stop(2)] .
  obtain y zs where ys: "ys = y # zs" using stands_at_end [OF p(1)] notify_stop(3) by (cases ys) auto
  show ?thesis using iter_deref_node [OF p(1) [unfolded ys]] notify_stop(4) by simp
next
  case (notify_next t it seen fs)
  obtain xs y ys where p: "stands (links s) (list_head c) it xs (y # ys)" "seen = values_of (links s) (xs @ [y])"
    using frame_ok_newest [OF inv notify_next(2)] by auto
  have "frame_ok (links s) (list_head c) checks (NotifyLoop (iter_inc (links s) it) seen)"
    using stands_inc [OF p(1)] p(2) by auto
  then show ?thesis unfolding notify_next(1) by (intro threads_inv_top [OF inv notify_next(2)]) simp_all
next
  case (notify_break t it seen fs)
  obtain xs y ys where p: "stands (links s) (list_head c) it xs (y # ys)" "seen = values_of (links s) (xs @ [y])"
    using frame_ok_newest [OF inv notify_break(2)] by auto
  have "ring (list_head c) (links s) ((xs @ [y]) @ ys)" using p(1) by (simp add: stands_def)
  then have "frame_ok (links s) (list_head c) checks (NotifyDone seen)"
    using p(2) notify_break(3) by (auto simp del: append_assoc)
  then show ?thesis unfolding notify_break(1) by (intro threads_inv_top [OF inv notify_break(2)]) simp_all
next
  case (notify_unlock t seen fs)
  then show ?thesis using notify_unlock_inv [OF inv] by simp
qed

lemma threads_inv_reachable:
  assumes "prims_ok w" and "lock_api_ok a" and "list_reachable w c a checks s"
  shows "threads_inv (list_head c) checks s"
  using assms(3)
proof induction
  case (start h)
  have "list_ok (list_head c) \<lparr>links = klist_construct w (list_head c) h, lock = \<lparr>exclusive = None, shared = \<lambda>_. 0\<rparr>,
      cookies = {}, frames = \<lambda>_. []\<rparr> []"
    by (simp add: list_ok_def klist_construct_ring)
  then show ?case
    unfolding threads_inv_def by (auto simp: lock_ok_def frames_ok_def cookies_ok_def intro!: exI [of _ "[]"])
next
  case (step s s')
  then show ?case using threads_inv_step [OF assms(1,2)] by blast
qed

section \<open>Properties\<close>

text \<open>
  C8: however registrations, removals and notifications of a list interleave, and whatever a
  writer leaves in the links until it is done, no operation stops the machine; and a
  notification calls the callbacks of one unchanging list in its order: those it has called are
  the beginning of the list while it runs and when it is done, and the whole list when no failing
  status can end the loop early.
\<close>

theorem notifications_see_one_list:
  assumes "prims_ok w" and "lock_api_ok a" and "list_reachable w c a checks s" and "f \<in> set (frames s t)"
  shows "case f of
      Stopped \<Rightarrow> False
    | NotifyLoop it seen \<Rightarrow> \<exists>rest. klist_values (list_head c) (links s) = Some (seen @ rest)
    | NotifyCall it seen \<Rightarrow> \<exists>rest. klist_values (list_head c) (links s) = Some (seen @ rest)
    | NotifyDone seen \<Rightarrow> (\<exists>rest. klist_values (list_head c) (links s) = Some (seen @ rest) \<and> (\<not> checks \<longrightarrow> rest = []))
    | _ \<Rightarrow> True"
proof -
  have inv: "threads_inv (list_head c) checks s" using threads_inv_reachable assms(1-3) by blast
  have ok: "frame_ok (links s) (list_head c) checks f" and ns: "f \<noteq> Stopped"
    using inv assms(4) by (auto simp: threads_inv_def frames_ok_def lock_ok_def)
  have v: "klist_values (list_head c) (links s) = Some (values_of (links s) xs @ values_of (links s) ys)"
    if "ring (list_head c) (links s) (xs @ ys)" for xs ys
    using klist_values_ring [OF that] by (simp add: values_of_def)
  show ?thesis
  proof (cases f)
    case (NotifyLoop it seen)
    then show ?thesis using ok v by (auto simp: stands_def)
  next
    case (NotifyCall it seen)
    then obtain xs y ys where "ring (list_head c) (links s) ((xs @ [y]) @ ys)" "seen = values_of (links s) (xs @ [y])"
      using ok by (auto simp: stands_def)
    then show ?thesis using v NotifyCall by fastforce
  next
    case (NotifyDone seen)
    then obtain xs ys where "ring (list_head c) (links s) (xs @ ys)" "seen = values_of (links s) xs" "checks \<or> ys = []"
      using ok by auto
    then show ?thesis using v NotifyDone by (auto simp: values_of_def)
  qed (use ns in auto)
qed

lemma waiting_in_callback:
  assumes "lock_api_ok a" and "lock_ok s" and "frames s t = WriteWait op # fs" and "fs \<noteq> []"
  shows "shared (lock s) t \<noteq> 0" and "exclusive (lock s) = None" and "\<not> grants_exclusive a u (lock s)"
proof -
  obtain f gs where fs: "fs = f # gs" using assms(4) by (cases fs) auto
  have "reading f" using tl_calling(1) [OF assms(2,3)] calling_reading by (auto simp: fs)
  then show n: "shared (lock s) t \<noteq> 0" using lock_okD(1) [OF assms(2), of t] by (simp add: assms(3) fs)
  then show e: "exclusive (lock s) = None" using lock_okD(3) [OF assms(2)] by (cases "exclusive (lock s)") auto
  show "\<not> grants_exclusive a u (lock s)" using assms(1) n e unfolding lock_api_ok_def by force
qed

lemma waiting_step:
  assumes "lock_api_ok a" and "lock_ok s" and "frames s t = WriteWait op # fs" and "fs \<noteq> []"
    and "list_step w c a checks s s'"
  shows "frames s' t = frames s t"
  using assms(5)
proof cases
  case (write_lock u op' fs' node)
  then show ?thesis using waiting_in_callback(3) [OF assms(1-4)] by blast
qed (use assms(3) in auto)

text \<open>
  C22: a callback that registers or unregisters a callback of the list it is called from never
  returns: its thread has the list for reading and waits for the others to leave it.  From then on
  no thread gets the list for writing.
\<close>

theorem callback_registering_waits_forever:
  assumes "prims_ok w" and "lock_api_ok a" and "list_reachable w c a checks s"
    and "frames s t = WriteWait op # fs" and "fs \<noteq> []"
    and "(list_step w c a checks)\<^sup>*\<^sup>* s s'"
  shows "frames s' t = WriteWait op # fs \<and> exclusive (lock s') = None"
proof -
  have "list_reachable w c a checks s' \<and> frames s' t = WriteWait op # fs"
    using assms(6)
  proof induction
    case (step s1 s2)
    have "lock_ok s1" using threads_inv_reachable [OF assms(1,2)] step.IH by (auto simp: threads_inv_def)
    then show ?case using waiting_step [OF assms(2) _ _ assms(5) step.hyps(2)] step by (auto intro: list_reachable.step)
  qed (use assms(3,4) in simp)
  moreover from this have "lock_ok s'" using threads_inv_reachable [OF assms(1,2)] by (auto simp: threads_inv_def)
  ultimately show ?thesis using waiting_in_callback(2) [OF assms(2) _ _ assms(5)] by blast
qed

section \<open>Witnesses\<close>

text \<open>Two threads, a lock that is granted exactly when it is free, and a list of one callback.\<close>

definition two_threads :: "bool lock_api" where
  "two_threads =
    \<lparr>grants_exclusive = \<lambda>t l. exclusive l = None \<and> shared l False = 0 \<and> shared l True = 0,
     grants_shared = \<lambda>t l. exclusive l = None\<rparr>"

lemma two_threads_ok: "lock_api_ok two_threads"
  by (simp add: lock_api_ok_def two_threads_def all_bool_eq)

definition one_list :: "(nat, unit) callback_list" where
  "one_list = \<lparr>list_head = 0, list_name = ()\<rparr>"

definition empty_links :: "(nat, nat) lheap" where
  "empty_links = \<lparr>flink = \<lambda>_. 0, blink = \<lambda>_. 0, node_value = \<lambda>_. None\<rparr>"

definition one_link :: "(nat, nat) lheap" where
  "one_link = \<lparr>flink = (\<lambda>_. 0)(1 := 0, 0 := 1), blink = (\<lambda>_. 0)(1 := 0, 0 := 1), node_value = [1 \<mapsto> 5]\<rparr>"

definition idle_lock :: "bool rw_lock" where
  "idle_lock = \<lparr>exclusive = None, shared = \<lambda>_. 0\<rparr>"

lemma register_one: "run_op doc_prims one_list (AddCallback 5) (Some 1) empty_links = Some (Some 1, one_link)"
  by (simp add: cl_add_def klist_emplace_front_def klist_emplace_def doc_prims_def klist_begin_def one_list_def
      empty_links_def one_link_def fun_eq_iff)

definition at_threads :: "(nat, nat) lheap \<Rightarrow> bool rw_lock \<Rightarrow> nat set \<Rightarrow> (nat, nat) frame list \<Rightarrow> (bool, nat, nat) list_threads" where
  "at_threads h l cs fs = \<lparr>links = h, lock = l, cookies = cs, frames = (\<lambda>_. [])(True := fs)\<rparr>"

abbreviation one_reachable :: "(bool, nat, nat) list_threads \<Rightarrow> bool" where
  "one_reachable \<equiv> list_reachable doc_prims one_list two_threads False"

lemma registered_reachable: "one_reachable (at_threads one_link idle_lock {1} [])"
proof -
  note go = list_reachable.step [where w = doc_prims and c = one_list and a = two_threads and checks = False]
  have "one_reachable (at_threads empty_links idle_lock {} [])"
    using list_reachable.start [of doc_prims one_list two_threads False empty_links]
    by (simp add: at_threads_def idle_lock_def klist_construct_def empty_links_def one_list_def fun_upd_idem)
  from go [OF this list_step.begin_write [where t = True and op = "AddCallback 5"]]
  have "one_reachable (at_threads empty_links idle_lock {} [WriteWait (AddCallback 5)])"
    by (simp add: at_threads_def)
  from go [OF this list_step.write_lock [where t = True and node = "Some 1"]]
  have "one_reachable (at_threads empty_links (lock_excl True idle_lock) {} [Writing (AddCallback 5) (Some 1) empty_links])"
    by (simp add: at_threads_def two_threads_def idle_lock_def fresh_node_def empty_links_def one_list_def)
  from go [OF this list_step.write_done [where t = True]] register_one
  have "one_reachable (at_threads one_link (lock_excl True idle_lock) {} [Written (Some 1)])"
    by (simp add: at_threads_def)
  from go [OF this list_step.write_unlock [where t = True]]
  show ?thesis by (simp add: at_threads_def lock_excl_def unlock_excl_def idle_lock_def)
qed

lemma notified_reachable:
  "one_reachable (at_threads one_link (lock_shared True idle_lock) {1} [NotifyCall \<lparr>it_list = 0, it_entry = 1\<rparr> [5]])"
proof -
  note go = list_reachable.step [where w = doc_prims and c = one_list and a = two_threads and checks = False]
  from go [OF registered_reachable list_step.begin_notify [where t = True]]
  have "one_reachable (at_threads one_link idle_lock {1} [NotifyWait])" by (simp add: at_threads_def)
  from go [OF this list_step.notify_lock [where t = True]]
  have "one_reachable (at_threads one_link (lock_shared True idle_lock) {1} [NotifyLoop \<lparr>it_list = 0, it_entry = 1\<rparr> []])"
    by (simp add: at_threads_def two_threads_def idle_lock_def list_begin_def one_list_def one_link_def)
  from go [OF this list_step.notify_call [where t = True and cb = 5]]
  show ?thesis
    by (simp add: at_threads_def iter_eq_def list_end_def one_list_def iter_deref_def one_link_def)
qed

theorem notifications_see_one_list_witness:
  "\<exists>rest. klist_values 0 one_link = Some ([5] @ rest)"
  using notifications_see_one_list [OF doc_prims_ok two_threads_ok notified_reachable,
      of "NotifyCall \<lparr>it_list = 0, it_entry = 1\<rparr> [5]" True]
  by (simp add: at_threads_def one_list_def)

theorem callback_registering_waits_forever_witness:
  "\<exists>(s :: (bool, nat, nat) list_threads) it. frames s True = [WriteWait (AddCallback 7), NotifyCall it [5]]
     \<and> (\<forall>s'. (list_step doc_prims one_list two_threads False)\<^sup>*\<^sup>* s s' \<longrightarrow> frames s' True = frames s True)"
proof -
  let ?it = "\<lparr>it_list = 0, it_entry = 1\<rparr> :: nat klist_iterator"
  let ?s = "at_threads one_link (lock_shared True idle_lock) {1} [WriteWait (AddCallback 7), NotifyCall ?it [5]]"
  have "one_reachable ?s"
    using list_reachable.step [OF notified_reachable list_step.begin_write [where t = True and op = "AddCallback 7"]]
    by (simp add: at_threads_def)
  moreover have "frames ?s True = WriteWait (AddCallback 7) # [NotifyCall ?it [5]]" by (simp add: at_threads_def)
  ultimately have "frames s' True = frames ?s True"
    if "(list_step doc_prims one_list two_threads False)\<^sup>*\<^sup>* ?s s'" for s'
    using callback_registering_waits_forever [OF doc_prims_ok two_threads_ok _ _ _ that] by simp
  then show ?thesis by (intro exI [of _ ?s] exI [of _ ?it]) (simp add: at_threads_def)
qed

end
