(* ===== verification/Vm_Threads.thy ===== *)
theory Vm_Threads
  imports Callback_Slots
begin

text \<open>
  The virtual machines of \<open>PawnIO/vm.cpp\<close> with several threads: loading, executing and closing a
  machine, and the calls of its trampolines by the kernel, under the \<open>wrapped_fast_mutex\<close> of the
  machine.

  Module code may call a kernel routine, and a notification any code of its driver, which may enter
  a machine again on the same thread: every thread has a stack of calls.  What a call does is in
  \<open>Vm_Run\<close> and \<open>Callback_Slots\<close>; here is where it waits, what it holds, and which memory it uses.
  The operations on the slots are atomic here; \<open>Callback_Slots\<close> has their single accesses.
\<close>

section \<open>Machines, calls and threads\<close>

text \<open>
  How far a machine has come, with the thread that loads or closes it; \<open>Opened\<close> is from the end of
  \<open>vm_load_binary\<close> to the start of \<open>vm_destroy\<close>, while a handle leads to the machine.
\<close>

datatype 't vm_life = Loading 't | Opened | Unloading 't | Closing 't

record 't vm_state =
  owner :: "'t option"
  life :: "'t vm_life"

text \<open>
  The sections of code under the mutex: the two notifications, the calls of the module, and the call
  through a slot.
\<close>

datatype vm_section = OnCreated | InMain | InExecute | InUnload | OnDestroyed | InCallback nat

text \<open>
  \<open>Dispatch i\<close> is at the start of \<open>to_amx_callback_dispatch\<close>, \<open>Release\<close> at \<open>vm_destroy_internal\<close>.
  \<open>Dangling\<close> is a call whose machine was freed under it.
\<close>

datatype 'v vm_call = Wait vm_section 'v | Run vm_section 'v | Release 'v | Dispatch nat | Dangling 'v

text \<open>\<open>armed\<close>: the trampolines the kernel may call.\<close>

record (overloaded) ('t, 'w, 'v) vm_threads =
  machines :: "'v \<Rightarrow> 't vm_state option"
  slots :: "('w::len, 'v) callback_table"
  armed :: "nat set"
  calls :: "'t \<Rightarrow> 'v vm_call list"
  halted :: "fast_fail option"

abbreviation set_calls ::
  "'t \<Rightarrow> 'v vm_call list \<Rightarrow> ('t, 'w::len, 'v) vm_threads \<Rightarrow> ('t, 'w, 'v) vm_threads"
where
  "set_calls t cs s \<equiv> s\<lparr>calls := (calls s)(t := cs)\<rparr>"

abbreviation set_vm ::
  "'v \<Rightarrow> 't vm_state \<Rightarrow> ('t, 'w::len, 'v) vm_threads \<Rightarrow> ('t, 'w, 'v) vm_threads"
where
  "set_vm v m s \<equiv> s\<lparr>machines := (machines s)(v \<mapsto> m)\<rparr>"

text \<open>Code that may enter a machine runs outside every call, or in a section.\<close>

fun may_enter :: "'v vm_call list \<Rightarrow> bool" where
  "may_enter [] \<longleftrightarrow> True"
| "may_enter (Run p v # cs) \<longleftrightarrow> True"
| "may_enter (_ # cs) \<longleftrightarrow> False"

text \<open>The machine whose module runs.\<close>

fun module_of :: "'v vm_call list \<Rightarrow> 'v option" where
  "module_of (Run p v # cs) = (if p \<in> {OnCreated, OnDestroyed} then None else Some v)"
| "module_of _ = None"

fun call_of :: "'v vm_call \<Rightarrow> 'v option" where
  "call_of (Wait p v) = Some v"
| "call_of (Run p v) = Some v"
| "call_of (Release v) = Some v"
| "call_of _ = None"

fun through :: "nat \<Rightarrow> 'v vm_call \<Rightarrow> bool" where
  "through i (Wait p v) \<longleftrightarrow> p = InCallback i"
| "through i (Run p v) \<longleftrightarrow> p = InCallback i"
| "through i (Dispatch j) \<longleftrightarrow> j = i"
| "through i _ \<longleftrightarrow> False"

text \<open>The memory of \<open>v\<close> is freed: the calls that use it are left without.\<close>

definition abandon :: "'v \<Rightarrow> 'v vm_call \<Rightarrow> 'v vm_call" where
  "abandon v c = (if call_of c = Some v then Dangling v else c)"

definition slotless :: "('t, 'w::len, 'v) vm_threads \<Rightarrow> 'v \<Rightarrow> bool" where
  "slotless s v \<longleftrightarrow> (\<forall>i < k_to_amx_callback_count. slot_ctx (slots s ! i) \<noteq> Some v)"

section \<open>The steps\<close>

text \<open>
  The mutex is granted when nobody owns it; a \<open>FAST_MUTEX\<close> is not recursive.

  \<open>careful\<close>: the modules keep the rules their callbacks need.  A module allocates callbacks for its
  functions only, arms only the trampolines it got, disarms them by a routine that waits for the
  calls in flight, frees its own ones after that, and holds none when its \<open>main\<close> has failed or its
  \<open>unload\<close> is done.  Nothing in the driver enforces them.

  A handle is closed when no request on it is in progress, which the I/O manager ensures.
\<close>

inductive vm_step ::
  "(nat \<Rightarrow> 'w::len word) \<Rightarrow> bool \<Rightarrow> ('t, 'w, 'v) vm_threads \<Rightarrow> ('t, 'w, 'v) vm_threads \<Rightarrow> bool"
  for fns :: "nat \<Rightarrow> 'w word" and careful :: bool
where
  begin_load: "may_enter (calls s t) \<Longrightarrow> machines s v = None \<Longrightarrow>
    vm_step fns careful s (set_calls t (Wait OnCreated v # calls s t) (set_vm v \<lparr>owner = None, life = Loading t\<rparr> s))"
| created_main: "calls s t = Run OnCreated v # cs \<Longrightarrow> machines s v = Some m \<Longrightarrow>
    vm_step fns careful s (set_calls t (Wait InMain v # cs) (set_vm v (m\<lparr>owner := None\<rparr>) s))"
| created_fails: "calls s t = Run OnCreated v # cs \<Longrightarrow> machines s v = Some m \<Longrightarrow>
    vm_step fns careful s (set_calls t (Wait OnDestroyed v # cs) (set_vm v \<lparr>owner = None, life = Closing t\<rparr> s))"
| created_only: "calls s t = Run OnCreated v # cs \<Longrightarrow> machines s v = Some m \<Longrightarrow>
    vm_step fns careful s (set_calls t cs (set_vm v \<lparr>owner = None, life = Opened\<rparr> s))"
| main_done: "calls s t = Run InMain v # cs \<Longrightarrow> machines s v = Some m \<Longrightarrow>
    vm_step fns careful s (set_calls t cs (set_vm v \<lparr>owner = None, life = Opened\<rparr> s))"
| main_fails: "calls s t = Run InMain v # cs \<Longrightarrow> machines s v = Some m \<Longrightarrow> careful \<longrightarrow> slotless s v \<Longrightarrow>
    vm_step fns careful s (set_calls t (Wait OnDestroyed v # cs) (set_vm v \<lparr>owner = None, life = Closing t\<rparr> s))"
| begin_execute: "may_enter (calls s t) \<Longrightarrow> machines s v = Some m \<Longrightarrow> life m = Opened \<Longrightarrow>
    vm_step fns careful s (set_calls t (Wait InExecute v # calls s t) s)"
| execute_done: "calls s t = Run InExecute v # cs \<Longrightarrow> machines s v = Some m \<Longrightarrow>
    vm_step fns careful s (set_calls t cs (set_vm v (m\<lparr>owner := None\<rparr>) s))"
| begin_close: "may_enter (calls s t) \<Longrightarrow> machines s v = Some m \<Longrightarrow> life m = Opened \<Longrightarrow>
    \<forall>u. {Wait InExecute v, Run InExecute v} \<inter> set (calls s u) = {} \<Longrightarrow>
    vm_step fns careful s (set_calls t (Wait InUnload v # calls s t) (set_vm v (m\<lparr>life := Unloading t\<rparr>) s))"
| begin_destroy: "may_enter (calls s t) \<Longrightarrow> machines s v = Some m \<Longrightarrow> life m = Opened \<Longrightarrow>
    \<forall>u. {Wait InExecute v, Run InExecute v} \<inter> set (calls s u) = {} \<Longrightarrow> careful \<longrightarrow> slotless s v \<Longrightarrow>
    vm_step fns careful s (set_calls t (Wait OnDestroyed v # calls s t) (set_vm v (m\<lparr>life := Closing t\<rparr>) s))"
| unload_done: "calls s t = Run InUnload v # cs \<Longrightarrow> machines s v = Some m \<Longrightarrow> careful \<longrightarrow> slotless s v \<Longrightarrow>
    vm_step fns careful s (set_calls t (Wait OnDestroyed v # cs) (set_vm v \<lparr>owner = None, life = Closing t\<rparr> s))"
| destroyed_done: "calls s t = Run OnDestroyed v # cs \<Longrightarrow> machines s v = Some m \<Longrightarrow>
    vm_step fns careful s (set_calls t (Release v # cs) (set_vm v (m\<lparr>owner := None\<rparr>) s))"
| release: "calls s t = Release v # cs \<Longrightarrow>
    vm_step fns careful s
      (s\<lparr>machines := (machines s)(v := None), calls := (\<lambda>u. map (abandon v) (((calls s)(t := cs)) u))\<rparr>)"
| take_mutex: "calls s t = Wait p v # cs \<Longrightarrow> machines s v = Some m \<Longrightarrow> owner m = None \<Longrightarrow>
    \<forall>i. p = InCallback i \<longrightarrow> slot_cip (slots s ! i) \<noteq> 0 \<Longrightarrow>
    vm_step fns careful s (set_calls t (Run p v # cs) (set_vm v (m\<lparr>owner := Some t\<rparr>) s))"
| call_trampoline: "may_enter (calls s t) \<Longrightarrow> i \<in> armed s \<Longrightarrow>
    vm_step fns careful s (set_calls t (Dispatch i # calls s t) s)"
| dispatch: "calls s t = Dispatch i # cs \<Longrightarrow> slot_ctx (slots s ! i) = Some v \<Longrightarrow> machines s v \<noteq> None \<Longrightarrow>
    vm_step fns careful s (set_calls t (Wait (InCallback i) v # cs) s)"
| dispatch_freed: "calls s t = Dispatch i # cs \<Longrightarrow> slot_ctx (slots s ! i) = Some v \<Longrightarrow> machines s v = None \<Longrightarrow>
    vm_step fns careful s (set_calls t (Dangling v # cs) s)"
| dispatch_empty: "calls s t = Dispatch i # cs \<Longrightarrow> slot_ctx (slots s ! i) = None \<Longrightarrow>
    vm_step fns careful s (s\<lparr>halted := Some FAST_FAIL_INVALID_JUMP_BUFFER\<rparr>)"
| dispatch_no_cip: "calls s t = Wait (InCallback i) v # cs \<Longrightarrow> machines s v = Some m \<Longrightarrow> owner m = None \<Longrightarrow>
    slot_cip (slots s ! i) = 0 \<Longrightarrow>
    vm_step fns careful s (s\<lparr>halted := Some FAST_FAIL_INVALID_JUMP_BUFFER\<rparr>)"
| callback_refused: "calls s t = Run (InCallback i) v # cs \<Longrightarrow>
    vm_step fns careful s (s\<lparr>halted := Some FAST_FAIL_GUARD_ICALL_CHECK_FAILURE\<rparr>)"
| callback_fails: "calls s t = Run (InCallback i) v # cs \<Longrightarrow>
    vm_step fns careful s (s\<lparr>halted := Some FAST_FAIL_INVALID_THREAD_STATE\<rparr>)"
| callback_done: "calls s t = Run (InCallback i) v # cs \<Longrightarrow> machines s v = Some m \<Longrightarrow>
    vm_step fns careful s (set_calls t cs (set_vm v (m\<lparr>owner := None\<rparr>) s))"
| alloc: "module_of (calls s t) = Some v \<Longrightarrow> to_amx_callback_alloc fns (slots s) v cip = (r, tab) \<Longrightarrow>
    careful \<longrightarrow> cip \<noteq> 0 \<Longrightarrow> vm_step fns careful s (s\<lparr>slots := tab\<rparr>)"
| free: "module_of (calls s t) = Some v \<Longrightarrow> to_amx_callback_free fns (slots s) v pfn = Some tab \<Longrightarrow>
    careful \<longrightarrow> pfn \<notin> fns ` armed s \<Longrightarrow> vm_step fns careful s (s\<lparr>slots := tab\<rparr>)"
| free_crash: "module_of (calls s t) = Some v \<Longrightarrow> to_amx_callback_free fns (slots s) v pfn = None \<Longrightarrow>
    \<not> careful \<Longrightarrow> vm_step fns careful s (s\<lparr>halted := Some FAST_FAIL_ASAN_ERROR\<rparr>)"
| arm: "module_of (calls s t) = Some v \<Longrightarrow> i < k_to_amx_callback_count \<Longrightarrow>
    careful \<longrightarrow> slot_ctx (slots s ! i) = Some v \<Longrightarrow> vm_step fns careful s (s\<lparr>armed := insert i (armed s)\<rparr>)"
| disarm: "module_of (calls s t) = Some v \<Longrightarrow> careful \<longrightarrow> (\<forall>u. \<forall>c \<in> set (calls s u). \<not> through i c) \<Longrightarrow>
    vm_step fns careful s (s\<lparr>armed := armed s - {i}\<rparr>)"

text \<open>After \<open>__fastfail\<close> nothing runs.\<close>

inductive vm_next ::
  "(nat \<Rightarrow> 'w::len word) \<Rightarrow> bool \<Rightarrow> ('t, 'w, 'v) vm_threads \<Rightarrow> ('t, 'w, 'v) vm_threads \<Rightarrow> bool"
  for fns :: "nat \<Rightarrow> 'w word" and careful :: bool
where
  running: "halted s = None \<Longrightarrow> vm_step fns careful s s' \<Longrightarrow> vm_next fns careful s s'"

definition vm_start :: "('t, 'w::len, 'v) vm_threads" where
  "vm_start = \<lparr>machines = \<lambda>_. None,
     slots = replicate k_to_amx_callback_count \<lparr>slot_cip = 0, slot_ctx = None\<rparr>,
     armed = {}, calls = \<lambda>_. [], halted = None\<rparr>"

definition vm_reachable :: "(nat \<Rightarrow> 'w::len word) \<Rightarrow> bool \<Rightarrow> ('t, 'w, 'v) vm_threads \<Rightarrow> bool" where
  "vm_reachable fns careful s \<longleftrightarrow> (vm_next fns careful)\<^sup>*\<^sup>* vm_start s"

section \<open>Who has a machine\<close>

fun runs :: "'v \<Rightarrow> 'v vm_call \<Rightarrow> bool" where
  "runs v (Run p u) \<longleftrightarrow> u = v"
| "runs v _ \<longleftrightarrow> False"

text \<open>The calls that carry a machine through its life.\<close>

fun carries :: "'v \<Rightarrow> 'v vm_call \<Rightarrow> bool" where
  "carries v (Wait p u) \<longleftrightarrow> u = v \<and> p \<in> {OnCreated, InMain, InUnload, OnDestroyed}"
| "carries v (Run p u) \<longleftrightarrow> u = v \<and> p \<in> {OnCreated, InMain, InUnload, OnDestroyed}"
| "carries v (Release u) \<longleftrightarrow> u = v"
| "carries v _ \<longleftrightarrow> False"

fun carrier :: "'t vm_life \<Rightarrow> 't option" where
  "carrier (Loading t) = Some t"
| "carrier Opened = None"
| "carrier (Unloading t) = Some t"
| "carrier (Closing t) = Some t"

definition holder :: "('t, 'w::len, 'v) vm_threads \<Rightarrow> 'v \<Rightarrow> 't option" where
  "holder s v = Option.bind (machines s v) owner"

definition keeper :: "('t, 'w::len, 'v) vm_threads \<Rightarrow> 'v \<Rightarrow> 't option" where
  "keeper s v = Option.bind (machines s v) (\<lambda>m. carrier (life m))"

fun section_ok :: "vm_section \<Rightarrow> 't vm_life \<Rightarrow> bool" where
  "section_ok OnCreated l \<longleftrightarrow> (\<exists>t. l = Loading t)"
| "section_ok InMain l \<longleftrightarrow> (\<exists>t. l = Loading t)"
| "section_ok InExecute l \<longleftrightarrow> l = Opened"
| "section_ok InUnload l \<longleftrightarrow> (\<exists>t. l = Unloading t)"
| "section_ok OnDestroyed l \<longleftrightarrow> (\<exists>t. l = Closing t)"
| "section_ok (InCallback i) l \<longleftrightarrow> True"

fun call_ok :: "('v \<Rightarrow> 't vm_state option) \<Rightarrow> 'v vm_call \<Rightarrow> bool" where
  "call_ok ms (Wait p v) \<longleftrightarrow> (\<exists>m. ms v = Some m \<and> section_ok p (life m))"
| "call_ok ms (Run p v) \<longleftrightarrow> (\<exists>m. ms v = Some m \<and> section_ok p (life m))"
| "call_ok ms (Release v) \<longleftrightarrow> (\<exists>m t. ms v = Some m \<and> life m = Closing t)"
| "call_ok ms _ \<longleftrightarrow> True"

text \<open>
  The invariant: the machine is in as many sections of a thread as the thread has its mutex, and in
  as many hands as its life says.
\<close>

definition counts :: "('v \<Rightarrow> 'v vm_call \<Rightarrow> bool) \<Rightarrow> ('v \<Rightarrow> 't option) \<Rightarrow> ('t \<Rightarrow> 'v vm_call list) \<Rightarrow> bool" where
  "counts P h cs \<longleftrightarrow> (\<forall>v t. length (filter (P v) (cs t)) = (if h v = Some t then 1 else 0))"

definition calls_ok :: "('v \<Rightarrow> 't vm_state option) \<Rightarrow> ('t \<Rightarrow> 'v vm_call list) \<Rightarrow> bool" where
  "calls_ok ms cs \<longleftrightarrow> (\<forall>t. \<forall>c \<in> set (cs t). call_ok ms c)"

definition vm_inv :: "('t, 'w::len, 'v) vm_threads \<Rightarrow> bool" where
  "vm_inv s \<longleftrightarrow> counts runs (holder s) (calls s) \<and> counts carries (keeper s) (calls s)
     \<and> calls_ok (machines s) (calls s)"


lemma countsD: "counts P h cs \<Longrightarrow> length (filter (P v) (cs t)) = (if h v = Some t then 1 else 0)"
  by (simp add: counts_def)

lemma counts_update:
  assumes "counts P h cs" and "cs t = old @ rest"
    and "\<And>v. length (filter (P v) new) + (if h v = Some t then 1 else 0)
      = length (filter (P v) old) + (if h' v = Some t then 1 else 0)"
    and "\<And>v u. u \<noteq> t \<Longrightarrow> h' v = Some u \<longleftrightarrow> h v = Some u"
  shows "counts P h' (cs(t := new @ rest))"
proof -
  have "length (filter (P v) ((cs(t := new @ rest)) u)) = (if h' v = Some u then 1 else 0)" for v u
    using countsD [OF assms(1), of v u] assms(2) assms(3) [of v] assms(4) [of u v] by (cases "u = t") auto
  then show ?thesis by (simp add: counts_def)
qed

text \<open>Only the call that is counted is in the hands of \<open>t\<close>.\<close>

lemma counts_only:
  assumes "counts P h cs" and "cs t = c # rest" and "P v c"
  shows "h v = Some t" and "d \<in> set rest \<Longrightarrow> \<not> P v d" and "u \<noteq> t \<Longrightarrow> d \<in> set (cs u) \<Longrightarrow> \<not> P v d"
proof -
  show h: "h v = Some t" using countsD [OF assms(1), of v t] assms(2,3) by (simp split: if_splits)
  show "d \<in> set rest \<Longrightarrow> \<not> P v d"
    using countsD [OF assms(1), of v t] assms(2,3) h by (auto simp: filter_empty_conv)
  show "u \<noteq> t \<Longrightarrow> d \<in> set (cs u) \<Longrightarrow> \<not> P v d"
    using countsD [OF assms(1), of v u] h by (auto simp: filter_empty_conv)
qed

lemma counts_none:
  assumes "counts P h cs" and "h v = None" and "d \<in> set (cs u)"
  shows "\<not> P v d"
  using countsD [OF assms(1), of v u] assms(2,3) by (auto simp: filter_empty_conv)

lemma holder_update: "holder (s\<lparr>machines := (machines s)(v := x), calls := c\<rparr>) u = (if u = v then Option.bind x owner else holder s u)"
  by (simp add: holder_def)

lemma keeper_update:
  "keeper (s\<lparr>machines := (machines s)(v := x), calls := c\<rparr>) u
    = (if u = v then Option.bind x (\<lambda>m. carrier (life m)) else keeper s u)"
  by (simp add: keeper_def)

lemma holder_calls: "holder (s\<lparr>calls := c\<rparr>) = holder s" "keeper (s\<lparr>calls := c\<rparr>) = keeper s"
  by (simp_all add: holder_def keeper_def fun_eq_iff)

lemma call_ok_life:
  assumes "call_ok ms c" and "ms v = Some m" and "life m' = life m"
  shows "call_ok (ms(v \<mapsto> m')) c"
  using assms by (cases c) auto

lemma call_ok_carried:
  assumes "call_ok ms c" and "\<not> carries v c" and "c \<notin> {Wait InExecute v, Run InExecute v}"
  shows "call_ok (ms(v \<mapsto> m')) c"
proof (cases c)
  case (Wait p u)
  with assms show ?thesis by (cases p) auto
next
  case (Run p u)
  with assms show ?thesis by (cases p) auto
qed (use assms in auto)

text \<open>
  The newest call of a thread goes on with the machine \<open>v\<close>, which has changed from \<open>m\<close> to \<open>m'\<close>;
  \<open>old\<close> and \<open>new\<close> are that call, or nothing.
\<close>

lemma vm_inv_move:
  assumes inv: "vm_inv s" and cs: "calls s t = old @ rest" and ms: "machines s v = Some m"
    and about: "\<And>c u. c \<in> set (old @ new) \<Longrightarrow> u \<noteq> v \<Longrightarrow> \<not> runs u c \<and> \<not> carries u c"
    and own: "owner m \<in> {None, Some t} \<or> owner m' = owner m" "owner m' \<in> {None, Some t} \<or> owner m' = owner m"
      "length (filter (runs v) new) + (if owner m = Some t then 1 else 0)
        = length (filter (runs v) old) + (if owner m' = Some t then 1 else 0)"
    and carr: "carrier (life m) \<in> {None, Some t} \<or> life m' = life m"
      "carrier (life m') \<in> {None, Some t} \<or> life m' = life m"
      "length (filter (carries v) new) + (if carrier (life m) = Some t then 1 else 0)
        = length (filter (carries v) old) + (if carrier (life m') = Some t then 1 else 0)"
    and ok: "\<And>c. c \<in> set new \<Longrightarrow> call_ok ((machines s)(v \<mapsto> m')) c"
    and rest: "life m' = life m \<or> (\<forall>u. \<forall>c \<in> set (((calls s)(t := rest)) u). \<not> carries v c \<and> c \<notin> {Wait InExecute v, Run InExecute v})"
  shows "vm_inv (set_calls t (new @ rest) (set_vm v m' s))"
proof -
  note i = inv [unfolded vm_inv_def]
  let ?s = "set_calls t (new @ rest) (set_vm v m' s)"
  have h: "holder s v = owner m" "keeper s v = carrier (life m)" using ms by (simp_all add: holder_def keeper_def)
  have none: "filter (runs u) old = [] \<and> filter (runs u) new = [] \<and> filter (carries u) old = [] \<and> filter (carries u) new = []"
    if "u \<noteq> v" for u
    using about that by (auto simp: filter_empty_conv)
  have "counts runs (holder ?s) ((calls s)(t := new @ rest))"
  proof (rule counts_update [where h = "holder s" and old = old and cs = "calls s" and t = t, OF _ cs])
    show "counts runs (holder s) (calls s)" using i by blast
  next
    fix u
    show "length (filter (runs u) new) + (if holder s u = Some t then 1 else 0)
      = length (filter (runs u) old) + (if holder ?s u = Some t then 1 else 0)"
      using own(3) none [of u] h(1) by (cases "u = v") (auto simp: holder_def)
  next
    fix u x assume "x \<noteq> t"
    then show "holder ?s u = Some x \<longleftrightarrow> holder s u = Some x" using own(1,2) h(1) by (cases "u = v") (auto simp: holder_def)
  qed
  moreover have "counts carries (keeper ?s) ((calls s)(t := new @ rest))"
  proof (rule counts_update [where h = "keeper s" and old = old and cs = "calls s" and t = t, OF _ cs])
    show "counts carries (keeper s) (calls s)" using i by blast
  next
    fix u
    show "length (filter (carries u) new) + (if keeper s u = Some t then 1 else 0)
      = length (filter (carries u) old) + (if keeper ?s u = Some t then 1 else 0)"
      using carr(3) none [of u] h(2) by (cases "u = v") (auto simp: keeper_def)
  next
    fix u x assume "x \<noteq> t"
    then show "keeper ?s u = Some x \<longleftrightarrow> keeper s u = Some x" using carr(1,2) h(2) by (cases "u = v") (auto simp: keeper_def)
  qed
  moreover have "call_ok ((machines s)(v \<mapsto> m')) c" if c: "c \<in> set (((calls s)(t := new @ rest)) u)" for u c
  proof (cases "c \<in> set new")
    case True
    then show ?thesis by (rule ok)
  next
    case False
    then have u: "c \<in> set (((calls s)(t := rest)) u)" using c by (auto split: if_splits)
    then have "c \<in> set (calls s u)" using cs by (auto split: if_splits)
    then have k: "call_ok (machines s) c" using i by (simp add: calls_ok_def)
    then show ?thesis using rest call_ok_life [of "machines s" c v m m'] call_ok_carried [of "machines s" c v m'] ms u by blast
  qed
  ultimately show ?thesis by (simp add: vm_inv_def calls_ok_def)
qed


section \<open>The steps keep the invariant\<close>

lemma vm_inv_calls:
  assumes "vm_inv s" and "calls s t = old @ rest"
    and "\<And>c v. c \<in> set (old @ new) \<Longrightarrow> \<not> runs v c \<and> \<not> carries v c"
    and "\<And>c. c \<in> set new \<Longrightarrow> call_ok (machines s) c"
  shows "vm_inv (set_calls t (new @ rest) s)"
proof -
  note i = assms(1) [unfolded vm_inv_def]
  have "filter (runs v) old = [] \<and> filter (runs v) new = [] \<and> filter (carries v) old = [] \<and> filter (carries v) new = []" for v
    using assms(3) by (auto simp: filter_empty_conv)
  note f = this
  have "counts runs (holder s) ((calls s)(t := new @ rest))"
    by (rule counts_update [where h = "holder s" and old = old and cs = "calls s", OF _ assms(2)]) (use i f in auto)
  moreover have "counts carries (keeper s) ((calls s)(t := new @ rest))"
    by (rule counts_update [where h = "keeper s" and old = old and cs = "calls s", OF _ assms(2)]) (use i f in auto)
  moreover have "call_ok (machines s) c" if "c \<in> set (((calls s)(t := new @ rest)) u)" for c u
  proof (cases "c \<in> set new")
    case False
    then have "c \<in> set (calls s u)" using that assms(2) by (auto split: if_splits)
    then show ?thesis using i by (simp add: calls_ok_def)
  qed (rule assms(4))
  ultimately show ?thesis by (simp add: vm_inv_def holder_calls calls_ok_def)
qed

lemma vm_inv_fields:
  "vm_inv s \<Longrightarrow> machines s' = machines s \<Longrightarrow> calls s' = calls s \<Longrightarrow> vm_inv s'"
  by (simp add: vm_inv_def holder_def [abs_def] keeper_def [abs_def])

lemma vm_inv_runs:
  assumes "vm_inv s" and "calls s t = Run p v # cs"
  shows "holder s v = Some t" and "\<exists>m. machines s v = Some m \<and> owner m = Some t \<and> section_ok p (life m)"
proof -
  show h: "holder s v = Some t"
    using counts_only(1) [of runs "holder s" "calls s" t "Run p v" cs v] assms by (simp add: vm_inv_def)
  have "call_ok (machines s) (Run p v)" using assms by (simp add: vm_inv_def calls_ok_def) 
      (metis call_ok.simps(2) list.set_intros(1))
  then show "\<exists>m. machines s v = Some m \<and> owner m = Some t \<and> section_ok p (life m)"
    using h by (auto simp: holder_def)
qed

lemma vm_inv_carried:
  assumes "vm_inv s" and "calls s t = c # cs" and "carries v c"
  shows "\<exists>m. machines s v = Some m \<and> carrier (life m) = Some t"
    and "\<forall>u. \<forall>d \<in> set (((calls s)(t := cs)) u). \<not> carries v d \<and> d \<notin> {Wait InExecute v, Run InExecute v}"
proof -
  note i = assms(1) [unfolded vm_inv_def]
  note k = counts_only [OF i [THEN conjunct2, THEN conjunct1] assms(2,3)]
  show m: "\<exists>m. machines s v = Some m \<and> carrier (life m) = Some t"
    using k(1) by (auto simp: keeper_def bind_eq_Some_conv)
  have "d \<notin> {Wait InExecute v, Run InExecute v}" if "d \<in> set (calls s u)" for d u
    using i m that by (fastforce simp: calls_ok_def)
  then show "\<forall>u. \<forall>d \<in> set (((calls s)(t := cs)) u). \<not> carries v d \<and> d \<notin> {Wait InExecute v, Run InExecute v}"
    using k(2,3) assms(2) by (metis fun_upd_apply list.set_intros(2))
qed

text \<open>A section is over, and the machine goes on to \<open>l\<close>, with the call \<open>new\<close> or without one.\<close>

lemma vm_inv_leave:
  assumes inv: "vm_inv s" and cs: "calls s t = Run p v # cs" and ms: "machines s v = Some m"
    and p: "carries v (Run p v)"
    and new: "length (filter (carries v) new) = (if carrier l = Some t then 1 else 0)" "carrier l \<in> {None, Some t}"
      "\<And>c u. c \<in> set new \<Longrightarrow> \<not> runs u c" "\<And>c u. c \<in> set new \<Longrightarrow> u \<noteq> v \<Longrightarrow> \<not> carries u c"
      "\<And>c. c \<in> set new \<Longrightarrow> call_ok [v \<mapsto> \<lparr>owner = None, life = l\<rparr>] c"
  shows "vm_inv (set_calls t (new @ cs) (set_vm v \<lparr>owner = None, life = l\<rparr> s))"
proof (rule vm_inv_move [where old = "[Run p v]" and m = m, OF inv])
  have o: "owner m = Some t" using vm_inv_runs(2) [OF inv cs] ms by auto
  have l: "carrier (life m) = Some t" using vm_inv_carried(1) [OF inv cs p] ms by auto
  have n: "filter (runs v) new = []" using new(3) by (auto simp: filter_empty_conv)
  show "calls s t = [Run p v] @ cs" and "machines s v = Some m" using cs ms by simp_all
  show "length (filter (runs v) new) + (if owner m = Some t then 1 else 0)
      = length (filter (runs v) [Run p v]) + (if owner \<lparr>owner = None, life = l\<rparr> = Some t then 1 else 0)"
    using o n by simp
  show "length (filter (carries v) new) + (if carrier (life m) = Some t then 1 else 0)
      = length (filter (carries v) [Run p v]) + (if carrier (life \<lparr>owner = None, life = l\<rparr>) = Some t then 1 else 0)"
    using l new(1) p by simp
  show "life \<lparr>owner = None, life = l\<rparr> = life m
      \<or> (\<forall>u. \<forall>c \<in> set (((calls s)(t := cs)) u). \<not> carries v c \<and> c \<notin> {Wait InExecute v, Run InExecute v})"
    using vm_inv_carried(2) [OF inv cs p] by blast
  show "call_ok ((machines s)(v \<mapsto> \<lparr>owner = None, life = l\<rparr>)) c" if "c \<in> set new" for c
    using new(5) [OF that] by (cases c) (auto split: if_splits)
qed (use new vm_inv_runs(2) [OF inv cs] vm_inv_carried(1) [OF inv cs p] ms in auto)


lemma vm_inv_begin_load:
  assumes "vm_inv s" and "machines s v = None"
  shows "vm_inv (set_calls t (Wait OnCreated v # calls s t) (set_vm v \<lparr>owner = None, life = Loading t\<rparr> s))"
proof -
  note i = assms(1) [unfolded vm_inv_def]
  let ?s = "set_calls t (Wait OnCreated v # calls s t) (set_vm v \<lparr>owner = None, life = Loading t\<rparr> s)"
  have n: "holder s v = None" "keeper s v = None" using assms(2) by (simp_all add: holder_def keeper_def)
  have "counts runs (holder ?s) ((calls s)(t := [Wait OnCreated v] @ calls s t))"
    by (rule counts_update [where h = "holder s" and old = "[]"]) (use i n in \<open>auto simp: holder_def\<close>)
  moreover have "counts carries (keeper ?s) ((calls s)(t := [Wait OnCreated v] @ calls s t))"
    by (rule counts_update [where h = "keeper s" and old = "[]"]) (use i n in \<open>auto simp: keeper_def\<close>)
  moreover have "call_ok (machines ?s) c" if "call_ok (machines s) c" for c
    using that assms(2) by (cases c) auto
  then have "calls_ok (machines ?s) ((calls s)(t := [Wait OnCreated v] @ calls s t))"
    using i by (simp add: calls_ok_def)
  ultimately show ?thesis by (simp add: vm_inv_def)
qed

lemma abandon_counted:
  "runs u (abandon v c) \<longleftrightarrow> u \<noteq> v \<and> runs u c"
  "carries u (abandon v c) \<longleftrightarrow> u \<noteq> v \<and> carries u c"
  by (cases c; auto simp: abandon_def)+

lemma abandon_ok: "call_ok ms c \<Longrightarrow> call_ok (ms(v := None)) (abandon v c)"
  by (cases c) (auto simp: abandon_def)

lemma counts_abandon:
  assumes "counts P h cs" and "\<And>u c. P u (abandon v c) \<longleftrightarrow> u \<noteq> v \<and> P u c"
  shows "counts P (h(v := None)) (\<lambda>t. map (abandon v) (cs t))"
proof -
  have "length (filter (P u) (map (abandon v) (cs t))) = (if (h(v := None)) u = Some t then 1 else 0)" for u t
  proof -
    have "length (filter (P u) (map (abandon v) (cs t))) = length (filter (\<lambda>c. u \<noteq> v \<and> P u c) (cs t))"
      by (simp add: filter_map o_def assms(2))
    then show ?thesis using countsD [OF assms(1), of u t] by (cases "u = v") auto
  qed
  then show ?thesis by (simp add: counts_def)
qed

lemma vm_inv_release:
  assumes "vm_inv s" and "calls s t = Release v # cs"
  shows "vm_inv (s\<lparr>machines := (machines s)(v := None), calls := (\<lambda>u. map (abandon v) (((calls s)(t := cs)) u))\<rparr>)"
    (is "vm_inv ?s")
proof -
  note i = assms(1) [unfolded vm_inv_def]
  let ?cs = "(calls s)(t := cs)"
  have k: "keeper s v = Some t" using counts_only(1) [of carries "keeper s" "calls s" t "Release v" cs v] i assms(2) by simp
  have u: "?cs = (calls s)(t := [] @ cs)" by simp
  have "counts runs (holder s) ?cs" unfolding u
    by (rule counts_update [where h = "holder s" and old = "[Release v]"]) (use i assms(2) in auto)
  moreover have "holder ?s = (holder s)(v := None)" by (auto simp: holder_def)
  ultimately have "counts runs (holder ?s) (calls ?s)"
    using counts_abandon [of runs "holder s" ?cs v, OF _ abandon_counted(1)] by simp
  moreover have "counts carries ((keeper s)(v := None)) ?cs" unfolding u
    by (rule counts_update [where h = "keeper s" and old = "[Release v]"]) (use i assms(2) k in auto)
  moreover have "keeper ?s = (keeper s)(v := None)" by (auto simp: keeper_def)
  ultimately have "counts runs (holder ?s) (calls ?s) \<and> counts carries (keeper ?s) (calls ?s)"
    using counts_abandon [of carries "(keeper s)(v := None)" ?cs v, OF _ abandon_counted(2)] by simp
  moreover have "call_ok (machines s) c" if "c \<in> set (?cs u)" for c u
  proof -
    have "c \<in> set (calls s u)" using that assms(2) by (auto split: if_splits)
    then show ?thesis using i by (simp add: calls_ok_def)
  qed
  note ok = this
  have "call_ok (machines ?s) c" if "c \<in> set (calls ?s u)" for c u
    using that ok [of _ u] by (auto intro: abandon_ok)
  then have "calls_ok (machines ?s) (calls ?s)" by (simp add: calls_ok_def)
  ultimately show ?thesis by (simp add: vm_inv_def)
qed

lemma vm_inv_step:
  assumes "vm_step fns careful s s'" and inv: "vm_inv s"
  shows "vm_inv s'"
  using assms(1)
proof cases
  case (begin_load t v)
  then show ?thesis using vm_inv_begin_load [OF inv] by simp
next
  case (created_main t v cs m)
  have "vm_inv (set_calls t ([Wait InMain v] @ cs) (set_vm v (m\<lparr>owner := None\<rparr>) s))"
    by (rule vm_inv_move [where old = "[Run OnCreated v]", OF inv _ created_main(3)]) (use created_main vm_inv_runs(2) [OF inv created_main(2)] in auto)
  then show ?thesis using created_main(1) by simp
next
  case (created_fails t v cs m)
  then show ?thesis using vm_inv_leave [OF inv created_fails(2,3), of "[Wait OnDestroyed v]" "Closing t"] by simp
next
  case (created_only t v cs m)
  then show ?thesis using vm_inv_leave [OF inv created_only(2,3), of "[]" Opened] by simp
next
  case (main_done t v cs m)
  then show ?thesis using vm_inv_leave [OF inv main_done(2,3), of "[]" Opened] by simp
next
  case (main_fails t v cs m)
  then show ?thesis using vm_inv_leave [OF inv main_fails(2,3), of "[Wait OnDestroyed v]" "Closing t"] by simp
next
  case (begin_execute t v m)
  then show ?thesis using vm_inv_calls [OF inv, of t "[]" "calls s t" "[Wait InExecute v]"] by simp
next
  case (execute_done t v cs m)
  have "vm_inv (set_calls t ([] @ cs) (set_vm v (m\<lparr>owner := None\<rparr>) s))"
    by (rule vm_inv_move [where old = "[Run InExecute v]", OF inv _ execute_done(3)]) (use execute_done vm_inv_runs(2) [OF inv execute_done(2)] in auto)
  then show ?thesis using execute_done(1) by simp
next
  case (begin_close t v m)
  have "\<not> carries v c" if "c \<in> set (calls s u)" for c u
    by (rule counts_none [of carries "keeper s" "calls s"])
      (use inv that begin_close(3,4) in \<open>auto simp: vm_inv_def keeper_def\<close>)
  note none = this
  have "vm_inv (set_calls t ([Wait InUnload v] @ calls s t) (set_vm v (m\<lparr>life := Unloading t\<rparr>) s))"
    by (rule vm_inv_move [where old = "[]", OF inv _ begin_close(3)]) (use begin_close none in auto)
  then show ?thesis using begin_close(1) by simp
next
  case (begin_destroy t v m)
  have "\<not> carries v c" if "c \<in> set (calls s u)" for c u
    by (rule counts_none [of carries "keeper s" "calls s"])
      (use inv that begin_destroy(3,4) in \<open>auto simp: vm_inv_def keeper_def\<close>)
  note none = this
  have "vm_inv (set_calls t ([Wait OnDestroyed v] @ calls s t) (set_vm v (m\<lparr>life := Closing t\<rparr>) s))"
    by (rule vm_inv_move [where old = "[]", OF inv _ begin_destroy(3)]) (use begin_destroy none in auto)
  then show ?thesis using begin_destroy(1) by simp
next
  case (unload_done t v cs m)
  then show ?thesis using vm_inv_leave [OF inv unload_done(2,3), of "[Wait OnDestroyed v]" "Closing t"] by simp
next
  case (destroyed_done t v cs m)
  have "vm_inv (set_calls t ([Release v] @ cs) (set_vm v (m\<lparr>owner := None\<rparr>) s))"
    by (rule vm_inv_move [where old = "[Run OnDestroyed v]", OF inv _ destroyed_done(3)]) (use destroyed_done vm_inv_runs(2) [OF inv destroyed_done(2)] in auto)
  then show ?thesis using destroyed_done(1) by simp
next
  case (release t v cs)
  then show ?thesis using vm_inv_release [OF inv] by simp
next
  case (take_mutex t p v cs m)
  have "call_ok (machines s) (Wait p v)"
    using inv take_mutex(2) unfolding vm_inv_def calls_ok_def by (metis list.set_intros(1))
  note ok = this
  have "vm_inv (set_calls t ([Run p v] @ cs) (set_vm v (m\<lparr>owner := Some t\<rparr>) s))"
    by (rule vm_inv_move [where old = "[Wait p v]", OF inv _ take_mutex(3)]) (use take_mutex ok in auto)
  then show ?thesis using take_mutex(1) by simp
next
  case (call_trampoline t i)
  then show ?thesis using vm_inv_calls [OF inv, of t "[]" "calls s t" "[Dispatch i]"] by simp
next
  case (dispatch t i cs v)
  have "vm_inv (set_calls t ([Wait (InCallback i) v] @ cs) s)"
    by (rule vm_inv_calls [where old = "[Dispatch i]", OF inv]) (use dispatch in auto)
  then show ?thesis using dispatch(1) by simp
next
  case (dispatch_freed t i cs v)
  have "vm_inv (set_calls t ([Dangling v] @ cs) s)"
    by (rule vm_inv_calls [where old = "[Dispatch i]", OF inv]) (use dispatch_freed in auto)
  then show ?thesis using dispatch_freed(1) by simp
next
  case (callback_done t i v cs m)
  have "vm_inv (set_calls t ([] @ cs) (set_vm v (m\<lparr>owner := None\<rparr>) s))"
    by (rule vm_inv_move [where old = "[Run (InCallback i) v]", OF inv _ callback_done(3)]) (use callback_done vm_inv_runs(2) [OF inv callback_done(2)] in auto)
  then show ?thesis using callback_done(1) by simp
qed (simp; rule vm_inv_fields [OF inv]; simp)+

lemma vm_inv_start: "vm_inv vm_start"
  by (simp add: vm_inv_def vm_start_def counts_def holder_def keeper_def calls_ok_def)

lemma vm_inv_reachable: "vm_reachable fns careful s \<Longrightarrow> vm_inv s"
  unfolding vm_reachable_def
  by (induction rule: rtranclp_induct) (auto intro: vm_inv_start vm_inv_step elim: vm_next.cases)


lemma filter_unique:
  assumes "length (filter P xs) \<le> 1" and "i < length xs" and "j < length xs" and "P (xs ! i)" and "P (xs ! j)"
  shows "i = j"
proof -
  have "card {k. k < length xs \<and> P (xs ! k)} \<le> Suc 0" using assms(1) by (simp add: length_filter_conv_card)
  then show ?thesis using assms(2-) by (simp add: card_le_Suc0_iff_eq)
qed

text \<open>
  C9: two calls never run in one machine at once, not even on one thread: the mutex of a machine
  is with the thread that runs in it, and the section it runs is one the life of the machine allows,
  so that requests run only between the end of the load and the start of the close.
\<close>

theorem machine_runs_once:
  assumes "vm_reachable fns careful s" and "j < length (calls s t)" and "calls s t ! j = Run p v"
  shows "(\<exists>m. machines s v = Some m \<and> owner m = Some t \<and> section_ok p (life m))
    \<and> (\<forall>u k q. k < length (calls s u) \<longrightarrow> calls s u ! k = Run q v \<longrightarrow> u = t \<and> k = j)"
proof -
  note inv = vm_inv_reachable [OF assms(1)]
  have c: "counts runs (holder s) (calls s)" using inv by (simp add: vm_inv_def)
  have mem: "calls s u ! k \<in> set (calls s u)" if "k < length (calls s u)" for u k using that by simp
  have h: "holder s v = Some u" if "k < length (calls s u)" and "calls s u ! k = Run q v" for u k q
    using countsD [OF c, of v u] mem [OF that(1)] that(2) by (auto simp: filter_empty_conv split: if_splits)
  have "call_ok (machines s) (Run p v)" using inv mem [OF assms(2)] assms(3) by (metis calls_ok_def vm_inv_def)
  then have "\<exists>m. machines s v = Some m \<and> owner m = Some t \<and> section_ok p (life m)"
    using h [OF assms(2,3)] by (auto simp: holder_def)
  moreover have "u = t \<and> k = j" if u: "k < length (calls s u)" "calls s u ! k = Run q v" for u k q
  proof -
    have "u = t" using h [OF u] h [OF assms(2,3)] by simp
    moreover have "length (filter (runs v) (calls s t)) \<le> 1" using countsD [OF c, of v t] by simp
    ultimately show ?thesis using filter_unique [of "runs v" "calls s t" k j] u assms(2,3) by simp
  qed
  ultimately show ?thesis by blast
qed

section \<open>Waiting in a circle\<close>

text \<open>Every thread of \<open>D\<close> waits for a mutex of a thread of \<open>D\<close>, or has lost its machine.\<close>

definition stuck :: "('t, 'w::len, 'v) vm_threads \<Rightarrow> 't set \<Rightarrow> bool" where
  "stuck s D \<longleftrightarrow> (\<forall>t \<in> D. (\<exists>v cs. calls s t = Dangling v # cs)
     \<or> (\<exists>p v cs u. calls s t = Wait p v # cs \<and> u \<in> D \<and> holder s v = Some u))"

text \<open>
  The thread that takes a step: it runs, or waits for a mutex nobody has.  The mutexes of the others
  stay where they are, except that a release takes a machine from everybody.
\<close>

definition moves :: "('t, 'w::len, 'v) vm_threads \<Rightarrow> 't \<Rightarrow> bool" where
  "moves s t \<longleftrightarrow> may_enter (calls s t) \<or> (\<exists>v cs. calls s t = Release v # cs) \<or> (\<exists>i cs. calls s t = Dispatch i # cs)
     \<or> (\<exists>p v cs. calls s t = Wait p v # cs \<and> holder s v = None)"

definition others_keep ::
  "('t, 'w::len, 'v) vm_threads \<Rightarrow> 't \<Rightarrow> ('t, 'w, 'v) vm_threads \<Rightarrow> bool"
where
  "others_keep s t s' \<longleftrightarrow> (\<forall>u. u \<noteq> t \<longrightarrow> calls s' u = calls s u)
     \<and> (\<forall>v u. u \<noteq> t \<longrightarrow> holder s v = Some u \<longrightarrow> holder s' v = Some u)"

definition others_lose ::
  "('t, 'w::len, 'v) vm_threads \<Rightarrow> 't \<Rightarrow> 'v \<Rightarrow> ('t, 'w, 'v) vm_threads \<Rightarrow> bool"
where
  "others_lose s t v s' \<longleftrightarrow> (\<forall>u. u \<noteq> t \<longrightarrow> calls s' u = map (abandon v) (calls s u))
     \<and> (\<forall>w. w \<noteq> v \<longrightarrow> holder s' w = holder s w)"

lemma moves_run: "calls s t = Run p v # cs \<Longrightarrow> moves s t"
  by (simp add: moves_def)

lemma moves_module: "module_of (calls s t) = Some v \<Longrightarrow> moves s t"
  by (cases "calls s t" rule: may_enter.cases) (simp_all add: moves_def)

lemma others_keep_run:
  assumes "vm_inv s" and "calls s t = Run p v # cs"
  shows "others_keep s t (set_calls t new (set_vm v m s))"
  using vm_inv_runs(1) [OF assms] by (auto simp: others_keep_def holder_def)

lemma others_keep_same:
  assumes "machines s' = machines s" and "\<And>u. u \<noteq> t \<Longrightarrow> calls s' u = calls s u"
  shows "others_keep s t s'"
  using assms by (simp add: others_keep_def holder_def)

lemma vm_step_moves:
  assumes "vm_step fns careful s s'" and inv: "vm_inv s"
  shows "\<exists>t. moves s t \<and> (others_keep s t s' \<or> (\<exists>v. others_lose s t v s'))"
  using assms(1)
proof cases
  case (begin_load t v)
  then show ?thesis by (intro exI [of _ t]) (auto simp: moves_def others_keep_def holder_def)
next
  case (begin_close t v m)
  then show ?thesis by (intro exI [of _ t]) (auto simp: moves_def others_keep_def holder_def)
next
  case (begin_destroy t v m)
  then show ?thesis by (intro exI [of _ t]) (auto simp: moves_def others_keep_def holder_def)
next
  case (release t v cs)
  then show ?thesis by (intro exI [of _ t]) (auto simp: moves_def others_lose_def holder_def)
next
  case (take_mutex t p v cs m)
  then show ?thesis by (intro exI [of _ t]) (auto simp: moves_def others_keep_def holder_def)
next
  case (begin_execute t v m)
  then show ?thesis by (intro exI [of _ t]) (simp add: moves_def others_keep_same)
next
  case (call_trampoline t i)
  then show ?thesis by (intro exI [of _ t]) (simp add: moves_def others_keep_same)
next
  case (dispatch t i cs v)
  then show ?thesis by (intro exI [of _ t]) (simp add: moves_def others_keep_same)
next
  case (dispatch_freed t i cs v)
  then show ?thesis by (intro exI [of _ t]) (simp add: moves_def others_keep_same)
next
  case (dispatch_empty t i cs)
  then show ?thesis by (intro exI [of _ t]) (simp add: moves_def others_keep_same)
next
  case (dispatch_no_cip t i v cs m)
  then show ?thesis by (intro exI [of _ t]) (simp add: moves_def others_keep_same holder_def)
qed (blast intro: others_keep_run [OF inv] moves_run moves_module | rule exI, rule conjI, erule moves_run moves_module, simp add: others_keep_same)+

lemma stuck_not_moves: "stuck s D \<Longrightarrow> t \<in> D \<Longrightarrow> \<not> moves s t"
  unfolding stuck_def moves_def by fastforce

lemma stuck_step:
  assumes "vm_step fns careful s s'" and "vm_inv s" and st: "stuck s D"
  shows "stuck s' D \<and> (\<forall>t \<in> D. length (calls s' t) = length (calls s t))"
proof -
  obtain x where x: "moves s x" "others_keep s x s' \<or> (\<exists>v. others_lose s x v s')"
    using vm_step_moves [OF assms(1,2)] by blast
  have d: "t \<noteq> x" if "t \<in> D" for t using stuck_not_moves [OF st that] x(1) by blast
  show ?thesis using x(2)
  proof (elim disjE exE)
    assume k: "others_keep s x s'"
    then show ?thesis using st d unfolding stuck_def others_keep_def by metis
  next
    fix v assume l: "others_lose s x v s'"
    have c: "calls s' t = map (abandon v) (calls s t)" if "t \<in> D" for t
      using l d [OF that] by (simp add: others_lose_def)
    have "(\<exists>w cs. calls s' t = Dangling w # cs) \<or> (\<exists>p w cs u. calls s' t = Wait p w # cs \<and> u \<in> D \<and> holder s' w = Some u)"
      if t: "t \<in> D" for t
    proof -
      from st t consider (lost) w ds where "calls s t = Dangling w # ds"
        | (wait) p w ds u where "calls s t = Wait p w # ds" "u \<in> D" "holder s w = Some u"
        unfolding stuck_def by blast
      then show ?thesis
      proof cases
        case lost
        then show ?thesis using c [OF t] by (simp add: abandon_def)
      next
        case wait
        then show ?thesis using c [OF t] l by (cases "w = v") (auto simp: abandon_def others_lose_def)
      qed
    qed
    then show ?thesis using c by (simp add: stuck_def)
  qed
qed

lemma stuck_forever:
  assumes "(vm_next fns careful)\<^sup>*\<^sup>* s s'" and "vm_inv s" and "stuck s D"
  shows "vm_inv s' \<and> stuck s' D \<and> (\<forall>t \<in> D. length (calls s' t) = length (calls s t))"
  using assms(1)
proof induction
  case (step s1 s2)
  then have "vm_step fns careful s1 s2" by (auto elim: vm_next.cases)
  then show ?case using vm_inv_step [of fns careful s1 s2] stuck_step [of fns careful s1 s2 D] step.IH by auto
qed (use assms in simp)

text \<open>
  C23: threads that wait for mutexes of machines they run themselves wait forever: when every thread
  of \<open>D\<close> waits for a machine in which a thread of \<open>D\<close> runs, none of them returns from its call.
  One thread is enough: a machine whose module, or whose notification, makes the kernel call one of
  its trampolines on the same thread, or closes its own handle.
\<close>

theorem waiting_circle_is_final:
  assumes "vm_reachable fns careful s"
    and "\<forall>t \<in> D. \<exists>p q v cs. \<exists>u \<in> D. calls s t = Wait p v # cs \<and> Run q v \<in> set (calls s u)"
    and "(vm_next fns careful)\<^sup>*\<^sup>* s s'" and "t \<in> D"
  shows "length (calls s' t) = length (calls s t) \<and> \<not> may_enter (calls s' t)"
proof -
  note inv = vm_inv_reachable [OF assms(1)]
  have c: "counts runs (holder s) (calls s)" using inv by (simp add: vm_inv_def)
  have h: "holder s v = Some u" if "Run q v \<in> set (calls s u)" for q u v
    using countsD [OF c, of v u] that by (auto simp: filter_empty_conv split: if_splits)
  have "stuck s D" unfolding stuck_def using assms(2) h by blast
  then have f: "stuck s' D \<and> (\<forall>t \<in> D. length (calls s' t) = length (calls s t))"
    using stuck_forever [OF assms(3) inv] by blast
  moreover have "\<not> may_enter (calls s' t)"
    using stuck_not_moves [of s' D t] f assms(4) by (auto simp: moves_def)
  ultimately show ?thesis using assms(4) by blast
qed

section \<open>Careful modules\<close>

text \<open>
  A slot leads to a machine that is not being closed, and whose module has run; the kernel may call
  the trampolines of taken slots only; and a call through a slot is one of the machine it leads to.
\<close>

definition slots_ok :: "('t, 'w::len, 'v) vm_threads \<Rightarrow> bool" where
  "slots_ok s \<longleftrightarrow> length (slots s) = k_to_amx_callback_count
     \<and> (\<forall>i v. i < k_to_amx_callback_count \<longrightarrow> slot_ctx (slots s ! i) = Some v \<longrightarrow>
          slot_cip (slots s ! i) \<noteq> 0
          \<and> (\<exists>m. machines s v = Some m \<and> (\<forall>t. life m \<noteq> Closing t))
          \<and> (\<forall>t. {Wait OnCreated v, Run OnCreated v} \<inter> set (calls s t) = {}))"

definition armed_ok :: "('t, 'w::len, 'v) vm_threads \<Rightarrow> bool" where
  "armed_ok s \<longleftrightarrow> (\<forall>i \<in> armed s. i < k_to_amx_callback_count \<and> slot_ctx (slots s ! i) \<noteq> None)"

fun leads :: "('w::len, 'v) callback_table \<Rightarrow> nat set \<Rightarrow> 'v vm_call \<Rightarrow> bool" where
  "leads tab A (Wait (InCallback i) v) \<longleftrightarrow> i \<in> A \<and> slot_ctx (tab ! i) = Some v"
| "leads tab A (Run (InCallback i) v) \<longleftrightarrow> i \<in> A \<and> slot_ctx (tab ! i) = Some v"
| "leads tab A (Dispatch i) \<longleftrightarrow> i \<in> A"
| "leads tab A (Dangling v) \<longleftrightarrow> False"
| "leads tab A _ \<longleftrightarrow> True"

definition calls_lead :: "('t, 'w::len, 'v) vm_threads \<Rightarrow> bool" where
  "calls_lead s \<longleftrightarrow> (\<forall>t. \<forall>c \<in> set (calls s t). leads (slots s) (armed s) c)"

definition careful_inv :: "('t, 'w::len, 'v) vm_threads \<Rightarrow> bool" where
  "careful_inv s \<longleftrightarrow> slots_ok s \<and> armed_ok s \<and> calls_lead s
     \<and> halted s \<notin> {Some FAST_FAIL_INVALID_JUMP_BUFFER, Some FAST_FAIL_ASAN_ERROR}"


lemma careful_lead: "careful_inv s \<Longrightarrow> c \<in> set (calls s t) \<Longrightarrow> leads (slots s) (armed s) c"
  by (simp add: careful_inv_def calls_lead_def)

lemma careful_top: "careful_inv s \<Longrightarrow> calls s t = c # cs \<Longrightarrow> leads (slots s) (armed s) c"
  by (rule careful_lead [where t = t]) simp_all

lemma careful_armed:
  assumes "careful_inv s" and "i \<in> armed s"
  shows "i < k_to_amx_callback_count" and "\<exists>v. slot_ctx (slots s ! i) = Some v"
  using assms by (auto simp: careful_inv_def armed_ok_def)

lemma careful_slot:
  assumes "careful_inv s" and "i < k_to_amx_callback_count" and "slot_ctx (slots s ! i) = Some v"
  shows "slot_cip (slots s ! i) \<noteq> 0" and "\<exists>m. machines s v = Some m \<and> (\<forall>t. life m \<noteq> Closing t)"
    and "c \<in> {Wait OnCreated v, Run OnCreated v} \<Longrightarrow> c \<notin> set (calls s t)"
  using assms unfolding careful_inv_def slots_ok_def by blast+

lemma slotless_machine: "careful_inv s \<Longrightarrow> machines s v = None \<Longrightarrow> slotless s v"
  using careful_slot(2) by (fastforce simp: slotless_def)

lemma slotless_closing: "careful_inv s \<Longrightarrow> machines s v = Some m \<Longrightarrow> life m = Closing t \<Longrightarrow> slotless s v"
  using careful_slot(2) by (fastforce simp: slotless_def)

lemma slotless_created:
  "careful_inv s \<Longrightarrow> c \<in> {Wait OnCreated v, Run OnCreated v} \<Longrightarrow> c \<in> set (calls s t) \<Longrightarrow> slotless s v"
  using careful_slot(3) by (fastforce simp: slotless_def)

text \<open>A step that leaves the slots alone.\<close>

lemma careful_goes:
  assumes inv: "careful_inv s" and same: "slots s' = slots s" "armed s' = armed s"
    and halt: "halted s' \<notin> {Some FAST_FAIL_INVALID_JUMP_BUFFER, Some FAST_FAIL_ASAN_ERROR}"
    and cs: "\<And>u c. c \<in> set (calls s' u) \<Longrightarrow> c \<in> set (calls s u)
      \<or> leads (slots s) (armed s) c \<and> (\<forall>v. c \<in> {Wait OnCreated v, Run OnCreated v} \<longrightarrow> slotless s v)"
    and ms: "\<And>v m. \<not> slotless s v \<Longrightarrow> machines s v = Some m \<Longrightarrow> \<forall>t. life m \<noteq> Closing t
      \<Longrightarrow> \<exists>m'. machines s' v = Some m' \<and> (\<forall>t. life m' \<noteq> Closing t)"
  shows "careful_inv s'"
proof -
  have "\<exists>m. machines s' v = Some m \<and> (\<forall>t. life m \<noteq> Closing t)"
    and "{Wait OnCreated v, Run OnCreated v} \<inter> set (calls s' t) = {}"
    if i: "i < k_to_amx_callback_count" "slot_ctx (slots s ! i) = Some v" for i v t
  proof -
    have n: "\<not> slotless s v" using i by (auto simp: slotless_def)
    then show "\<exists>m. machines s' v = Some m \<and> (\<forall>t. life m \<noteq> Closing t)"
      using ms careful_slot(2) [OF inv i] by blast
    show "{Wait OnCreated v, Run OnCreated v} \<inter> set (calls s' t) = {}"
      using cs [of _ t] n careful_slot(3) [OF inv i] by blast
  qed
  note m = this
  have "length (slots s) = k_to_amx_callback_count" using inv by (simp add: careful_inv_def slots_ok_def)
  then have "slots_ok s'" unfolding slots_ok_def same by (simp add: m careful_slot(1) [OF inv] del: insert_disjoint)
  moreover have "armed_ok s'" using inv by (simp add: armed_ok_def same careful_inv_def)
  moreover have "calls_lead s'" unfolding calls_lead_def same using cs careful_lead [OF inv] by blast
  ultimately show ?thesis using halt by (simp add: careful_inv_def)
qed

text \<open>The operations on the slots.\<close>

lemma alloc_changes:
  assumes "to_amx_callback_alloc fns tab v cip = (r, tab')"
  shows "tab' = tab \<or> (\<exists>i < k_to_amx_callback_count. slot_ctx (tab ! i) = None
    \<and> tab' = tab[i := \<lparr>slot_cip = cip, slot_ctx = Some v\<rparr>])"
proof (cases "find (\<lambda>i. slot_ctx (tab ! i) = None) [0..<k_to_amx_callback_count]")
  case None
  then show ?thesis using assms(1) by (simp add: to_amx_callback_alloc_def)
next
  case (Some i)
  then have "i < k_to_amx_callback_count" and "slot_ctx (tab ! i) = None" by (simp_all only: find_upt_Some)
  moreover have "tab' = tab[i := \<lparr>slot_cip = cip, slot_ctx = Some v\<rparr>]"
    using assms(1) Some by (simp add: to_amx_callback_alloc_def)
  ultimately show ?thesis by blast
qed

lemma free_changes:
  assumes "to_amx_callback_free fns tab v pfn = Some tab'"
  shows "\<exists>i < k_to_amx_callback_count. pfn = fns i \<and> slot_ctx (tab ! i) = Some v
    \<and> tab' = tab[i := \<lparr>slot_cip = 0, slot_ctx = None\<rparr>]"
proof (cases "find (\<lambda>i. pfn = fns i) [0..<k_to_amx_callback_count]")
  case None
  then show ?thesis using assms by (simp add: to_amx_callback_free_def)
next
  case (Some i)
  then have "i < k_to_amx_callback_count" and "pfn = fns i" by (simp_all only: find_upt_Some)
  then show ?thesis using assms Some by (auto simp: to_amx_callback_free_def split: if_splits)
qed

lemma module_running: "module_of cs = Some v \<Longrightarrow> \<exists>p ds. cs = Run p v # ds \<and> p \<notin> {OnCreated, OnDestroyed}"
  by (cases cs rule: module_of.cases) (auto split: if_splits)

lemma leads_alloc:
  assumes "leads tab A c" and "slot_ctx (tab ! i) = None"
  shows "leads (tab[i := x]) A c"
proof -
  have "tab[i := x] ! j = tab ! j" if "slot_ctx (tab ! j) = Some v" for j v
    using that assms(2) by (cases "j = i") auto
  then show ?thesis using assms(1) by (cases "(tab, A, c)" rule: leads.cases) auto
qed

lemma leads_free:
  assumes "leads tab A c" and "i \<notin> A"
  shows "leads (tab[i := x]) A c"
proof -
  have "tab[i := x] ! j = tab ! j" if "j \<in> A" for j using that assms(2) by (cases "j = i") auto
  then show ?thesis using assms(1) by (cases "(tab, A, c)" rule: leads.cases) auto
qed

lemma leads_arm: "leads tab A c \<Longrightarrow> leads tab (insert i A) c"
  by (cases "(tab, A, c)" rule: leads.cases) auto

lemma leads_disarm: "leads tab A c \<Longrightarrow> \<not> through i c \<Longrightarrow> leads tab (A - {i}) c"
  by (cases "(tab, A, c)" rule: leads.cases) auto


lemma careful_alloc:
  assumes inv: "careful_inv s" and v: "vm_inv s" and m: "module_of (calls s t) = Some v"
    and a: "to_amx_callback_alloc fns (slots s) v cip = (r, tab)" and cip: "cip \<noteq> 0"
  shows "careful_inv (s\<lparr>slots := tab\<rparr>)"
  using alloc_changes [OF a]
proof (elim disjE exE conjE)
  assume "tab = slots s"
  then show ?thesis using careful_goes [OF inv, of "s\<lparr>slots := tab\<rparr>"] inv by (simp add: careful_inv_def)
next
  fix i
  assume i: "i < k_to_amx_callback_count" "slot_ctx (slots s ! i) = None"
    and tab: "tab = (slots s)[i := \<lparr>slot_cip = cip, slot_ctx = Some v\<rparr>]"
  have len: "length (slots s) = k_to_amx_callback_count" using inv by (simp add: careful_inv_def slots_ok_def)
  obtain p cs where c: "calls s t = Run p v # cs" "p \<notin> {OnCreated, OnDestroyed}" using module_running [OF m] by blast
  obtain ms where ms: "machines s v = Some ms" "section_ok p (life ms)" using vm_inv_runs(2) [OF v c(1)] by blast
  have open_v: "life ms \<noteq> Closing u \<and> d \<notin> {Wait OnCreated v, Run OnCreated v}" if d: "d \<in> set (calls s x)" for d u x
  proof (cases p)
    case (InCallback j)
    then have "j \<in> armed s" "slot_ctx (slots s ! j) = Some v" using careful_top [OF inv c(1)] by simp_all
    then show ?thesis using careful_slot(2,3) [OF inv careful_armed(1) [OF inv, of j], of v] ms(1) d by auto
  next
    case InMain
    then have "carries v (Run p v)" by simp
    then have "d = Run p v \<or> \<not> carries v d"
      using counts_only(2,3) [of carries "keeper s" "calls s" t "Run p v" cs v] v c(1) d
      by (cases "x = t") (auto simp: vm_inv_def)
    then show ?thesis using ms(2) InMain by auto
  next
    case InUnload
    then have "carries v (Run p v)" by simp
    then have "d = Run p v \<or> \<not> carries v d"
      using counts_only(2,3) [of carries "keeper s" "calls s" t "Run p v" cs v] v c(1) d
      by (cases "x = t") (auto simp: vm_inv_def)
    then show ?thesis using ms(2) InUnload by auto
  next
    case InExecute
    have "call_ok (machines s) d" using v d by (simp add: vm_inv_def calls_ok_def)
    then show ?thesis using ms InExecute by auto
  qed (use c(2) in simp_all)
  have not_closing: "life ms \<noteq> Closing u" for u using open_v [of "Run p v" t] c(1) by simp
  have "slots_ok (s\<lparr>slots := tab\<rparr>)"
  proof -
    have "slot_cip (tab ! j) \<noteq> 0 \<and> (\<exists>m. machines s w = Some m \<and> (\<forall>t. life m \<noteq> Closing t))
        \<and> (\<forall>t. {Wait OnCreated w, Run OnCreated w} \<inter> set (calls s t) = {})"
      if j: "j < k_to_amx_callback_count" "slot_ctx (tab ! j) = Some w" for j w
    proof (cases "j = i")
      case True
      then show ?thesis using j tab len cip ms(1) not_closing open_v by auto
    next
      case False
      then have "slots s ! j = tab ! j" by (simp add: tab)
      then show ?thesis using careful_slot [OF inv j(1), of w] j(2) by auto
    qed
    then show ?thesis by (simp add: slots_ok_def tab len)
  qed
  moreover have "armed_ok (s\<lparr>slots := tab\<rparr>)"
    using inv i len by (auto simp: careful_inv_def armed_ok_def tab nth_list_update)
  moreover have "calls_lead (s\<lparr>slots := tab\<rparr>)"
    using careful_lead [OF inv] leads_alloc [OF _ i(2)] by (simp add: calls_lead_def tab)
  ultimately show ?thesis using inv by (simp add: careful_inv_def)
qed

lemma careful_free:
  assumes inv: "careful_inv s" and f: "to_amx_callback_free fns (slots s) v pfn = Some tab" and a: "pfn \<notin> fns ` armed s"
  shows "careful_inv (s\<lparr>slots := tab\<rparr>)"
proof -
  obtain i where i: "i < k_to_amx_callback_count" "pfn = fns i"
    and tab: "tab = (slots s)[i := \<lparr>slot_cip = 0, slot_ctx = None\<rparr>]"
    using free_changes [OF f] by blast
  have n: "i \<notin> armed s" using a i(2) by blast
  have len: "length (slots s) = k_to_amx_callback_count" using inv by (simp add: careful_inv_def slots_ok_def)
  have "slot_ctx (tab ! j) = Some w \<Longrightarrow> slots s ! j = tab ! j" for j w
    using i(1) len by (cases "j = i") (auto simp: tab)
  then have "slots_ok (s\<lparr>slots := tab\<rparr>)"
    using inv by (auto simp: careful_inv_def slots_ok_def tab)
  moreover have "slots s ! j = tab ! j" if "j \<in> armed s" for j using that n by (cases "j = i") (auto simp: tab)
  then have "armed_ok (s\<lparr>slots := tab\<rparr>)" using inv by (simp add: careful_inv_def armed_ok_def)
  moreover have "calls_lead (s\<lparr>slots := tab\<rparr>)"
    by (auto simp: calls_lead_def tab intro!: leads_free n careful_lead [OF inv])
  ultimately show ?thesis using inv by (simp add: careful_inv_def)
qed


lemma careful_arm:
  assumes inv: "careful_inv s" and i: "i < k_to_amx_callback_count" "slot_ctx (slots s ! i) = Some v"
  shows "careful_inv (s\<lparr>armed := insert i (armed s)\<rparr>)"
proof -
  have "calls_lead (s\<lparr>armed := insert i (armed s)\<rparr>)"
    by (auto simp: calls_lead_def intro!: leads_arm careful_lead [OF inv])
  then show ?thesis using inv i by (auto simp: careful_inv_def slots_ok_def armed_ok_def)
qed

lemma careful_disarm:
  assumes inv: "careful_inv s" and "\<forall>u. \<forall>c \<in> set (calls s u). \<not> through i c"
  shows "careful_inv (s\<lparr>armed := armed s - {i}\<rparr>)"
proof -
  have "calls_lead (s\<lparr>armed := armed s - {i}\<rparr>)"
    using assms(2) by (auto simp: calls_lead_def intro!: leads_disarm careful_lead [OF inv])
  then show ?thesis using inv by (auto simp: careful_inv_def slots_ok_def armed_ok_def)
qed

text \<open>Nobody else uses a machine when it is released.\<close>

lemma careful_release:
  assumes inv: "careful_inv s" and v: "vm_inv s" and c: "calls s t = Release v # cs"
  shows "careful_inv (s\<lparr>machines := (machines s)(v := None), calls := (\<lambda>u. map (abandon v) (((calls s)(t := cs)) u))\<rparr>)"
proof -
  have "call_ok (machines s) (Release v)" using v c by (simp add: vm_inv_def calls_ok_def) (metis call_ok.simps(3) list.set_intros(1))
  then obtain m x where m: "machines s v = Some m" "life m = Closing x" by auto
  have n: "slotless s v" by (rule slotless_closing [OF inv m])
  have free: "\<not> leads (slots s) (armed s) (Wait (InCallback i) v)" for i
    using n careful_armed(1) [OF inv, of i] by (auto simp: slotless_def)
  note gone = vm_inv_carried(2) [OF v c, of v, simplified]
  have "call_of d \<noteq> Some v" if d: "d \<in> set (((calls s)(t := cs)) u)" for d u
  proof -
    have "d \<in> set (calls s u)" using d c by (auto split: if_splits)
    then have l: "leads (slots s) (armed s) d" by (rule careful_lead [OF inv])
    have g: "\<not> carries v d" "d \<noteq> Wait InExecute v" "d \<noteq> Run InExecute v" using gone d by (auto split: if_splits)
    show ?thesis
    proof (cases d)
      case (Wait p w)
      then show ?thesis using l g free by (cases p) auto
    next
      case (Run p w)
      then show ?thesis using l g free by (cases p) auto
    qed (use g in auto)
  qed
  then have keep: "map (abandon v) (((calls s)(t := cs)) u) = ((calls s)(t := cs)) u" for u
    by (intro map_idI) (simp add: abandon_def)
  show ?thesis unfolding keep
    by (rule careful_goes [OF inv]) (use inv c n in \<open>auto simp: careful_inv_def split: if_splits\<close>)
qed

lemma careful_step:
  assumes "vm_step fns True s s'" and v: "vm_inv s" and inv: "careful_inv s"
  shows "careful_inv s'"
proof -
  have h: "halted s \<notin> {Some FAST_FAIL_INVALID_JUMP_BUFFER, Some FAST_FAIL_ASAN_ERROR}"
    using inv by (simp add: careful_inv_def)
  note goes = careful_goes [OF inv, of s']
  note top = careful_top [OF inv]
  note created = slotless_created [OF inv]
  show ?thesis using assms(1)
  proof cases
    case (begin_load t v)
    then show ?thesis using h slotless_machine [OF inv begin_load(3)] by (intro goes) (auto split: if_splits)
  next
    case (created_main t v cs m)
    then show ?thesis using h by (intro goes) (auto split: if_splits)
  next
    case (created_fails t v cs m)
    then show ?thesis using h created [of "Run OnCreated v" v t] by (intro goes) (auto split: if_splits)
  next
    case (created_only t v cs m)
    then show ?thesis using h by (intro goes) (auto split: if_splits)
  next
    case (main_done t v cs m)
    then show ?thesis using h by (intro goes) (auto split: if_splits)
  next
    case (main_fails t v cs m)
    then show ?thesis using h by (intro goes) (auto split: if_splits)
  next
    case (begin_execute t v m)
    then show ?thesis using h by (intro goes) (auto split: if_splits)
  next
    case (execute_done t v cs m)
    then show ?thesis using h by (intro goes) (auto split: if_splits)
  next
    case (begin_close t v m)
    then show ?thesis using h by (intro goes) (auto split: if_splits)
  next
    case (begin_destroy t v m)
    then show ?thesis using h by (intro goes) (auto split: if_splits)
  next
    case (unload_done t v cs m)
    then show ?thesis using h by (intro goes) (auto split: if_splits)
  next
    case (destroyed_done t v cs m)
    then show ?thesis using h by (intro goes) (auto split: if_splits)
  next
    case (release t v cs)
    then show ?thesis using careful_release [OF inv v release(2)] by simp
  next
    case (take_mutex t p v cs m)
    have "leads (slots s) (armed s) (Run p v)" using top [OF take_mutex(2)] by (cases p) auto
    moreover have "p = OnCreated \<Longrightarrow> slotless s v" using created [of "Wait OnCreated v" v t] take_mutex(2) by simp
    ultimately show ?thesis using take_mutex h by (intro goes) (auto split: if_splits)
  next
    case (call_trampoline t i)
    then show ?thesis using h by (intro goes) (auto split: if_splits)
  next
    case (dispatch t i cs v)
    then show ?thesis using h top [OF dispatch(2)] by (intro goes) (auto split: if_splits)
  next
    case (dispatch_freed t i cs v)
    then show ?thesis using top [OF dispatch_freed(2)] careful_armed(1) [OF inv, of i] careful_slot(2) [OF inv, of i v] by auto
  next
    case (dispatch_empty t i cs)
    then show ?thesis using top [OF dispatch_empty(2)] careful_armed(2) [OF inv, of i] by auto
  next
    case (dispatch_no_cip t i v cs m)
    then show ?thesis using top [OF dispatch_no_cip(2)] careful_armed(1) [OF inv, of i] careful_slot(1) [OF inv, of i v] by auto
  next
    case (callback_refused t i v cs)
    then show ?thesis by (intro goes) auto
  next
    case (callback_fails t i v cs)
    then show ?thesis by (intro goes) auto
  next
    case (callback_done t i v cs m)
    then show ?thesis using h by (intro goes) (auto split: if_splits)
  next
    case (alloc t v cip r tab)
    then show ?thesis using careful_alloc [OF inv v alloc(2,3)] by simp
  next
    case (free t v pfn tab)
    then show ?thesis using careful_free [OF inv free(3)] by simp
  next
    case (arm t v i)
    then show ?thesis using careful_arm [OF inv] by simp
  next
    case (disarm t v i)
    then show ?thesis using careful_disarm [OF inv] by simp
  qed simp
qed

lemma careful_start: "careful_inv vm_start"
  by (simp add: careful_inv_def slots_ok_def armed_ok_def calls_lead_def vm_start_def k_to_amx_callback_count_def)

lemma careful_inv_reachable: "vm_reachable fns True s \<Longrightarrow> careful_inv s"
proof -
  assume "vm_reachable fns True s"
  then have "vm_inv s \<and> careful_inv s" unfolding vm_reachable_def
    by (induction rule: rtranclp_induct) (auto intro: vm_inv_start careful_start vm_inv_step careful_step elim: vm_next.cases)
  then show ?thesis by blast
qed

text \<open>
  C7: modules that keep the rules for callbacks are safe with any number of threads and machines:
  no call ever uses a machine that was freed, every call of a trampoline waits for or runs in the
  machine the slot leads to, and the driver never stops the system because a slot is empty, has
  no function, or is freed by a machine it does not belong to.
\<close>

theorem careful_modules_are_safe:
  assumes "vm_reachable fns True s"
  shows "Dangling v \<notin> set (calls s t)
    \<and> (\<forall>p i. p = InCallback i \<longrightarrow> {Wait p v, Run p v} \<inter> set (calls s t) \<noteq> {} \<longrightarrow>
         slot_ctx (slots s ! i) = Some v \<and> slot_cip (slots s ! i) \<noteq> 0 \<and> machines s v \<noteq> None)
    \<and> halted s \<noteq> Some FAST_FAIL_INVALID_JUMP_BUFFER \<and> halted s \<noteq> Some FAST_FAIL_ASAN_ERROR"
proof -
  have inv: "careful_inv s" by (rule careful_inv_reachable [OF assms])
  have "slot_ctx (slots s ! i) = Some v \<and> slot_cip (slots s ! i) \<noteq> 0 \<and> machines s v \<noteq> None"
    if "leads (slots s) (armed s) (Wait (InCallback i) v)" for i
    using that careful_armed(1) [OF inv, of i] careful_slot(1,2) [OF inv, of i v] by auto
  then show ?thesis using careful_lead [OF inv, of _ t] inv by (fastforce simp: careful_inv_def)
qed


section \<open>Waiting that is not in a circle\<close>

definition waits_for :: "('t, 'w::len, 'v) vm_threads \<Rightarrow> 't \<Rightarrow> 't \<Rightarrow> bool" where
  "waits_for s t u \<longleftrightarrow> (\<exists>p v cs. calls s t = Wait p v # cs \<and> holder s v = Some u)"

lemma moves_or_waits:
  assumes "\<And>v cs. calls s t \<noteq> Dangling v # cs"
  shows "moves s t \<or> (\<exists>u. waits_for s t u)"
proof (cases "calls s t")
  case (Cons c cs)
  then show ?thesis using assms by (cases c) (auto simp: moves_def waits_for_def)
qed (simp add: moves_def)

text \<open>In a finite relation a walk ends, or comes to a circle.\<close>

lemma walk_ends:
  assumes "finite (UNIV :: 't set)"
  shows "\<exists>u :: 't. r\<^sup>*\<^sup>* t u \<and> ((\<forall>w. \<not> r u w) \<or> r\<^sup>+\<^sup>+ u u)"
proof (rule ccontr)
  assume n: "\<not> ?thesis"
  let ?R = "{(x, y). r\<^sup>*\<^sup>* t x \<and> r x y}"
  have sub: "r\<^sup>*\<^sup>* t x \<and> r\<^sup>+\<^sup>+ x y" if "(x, y) \<in> ?R\<^sup>+" for x y
    using that
  proof (induction rule: trancl_induct)
    case (base y)
    then show ?case by (simp add: tranclp.r_into_trancl)
  next
    case (step y z)
    then have "r y z" by simp
    with step.IH show ?case by (blast intro: tranclp.trancl_into_trancl)
  qed
  have "acyclic ?R" unfolding acyclic_def
  proof (intro allI notI)
    fix x assume "(x, x) \<in> ?R\<^sup>+"
    from sub [OF this] n show False by blast
  qed
  moreover have "finite ?R" by (rule finite_subset [OF subset_UNIV finite_Prod_UNIV [OF assms assms]])
  ultimately have "wf (?R\<inverse>)" by (intro finite_acyclic_wf_converse)
  then have "\<exists>z \<in> {x. r\<^sup>*\<^sup>* t x}. \<forall>y. (y, z) \<in> ?R\<inverse> \<longrightarrow> y \<notin> {x. r\<^sup>*\<^sup>* t x}"
    unfolding wf_eq_minimal
    by (elim allE [where x = "{x. r\<^sup>*\<^sup>* t x}"] allE [where x = t]) simp
  then obtain z where z: "z \<in> {x. r\<^sup>*\<^sup>* t x}" and least: "\<And>y. (y, z) \<in> ?R\<inverse> \<Longrightarrow> y \<notin> {x. r\<^sup>*\<^sup>* t x}"
    by blast
  have "\<not> r z w" for w
  proof
    assume w: "r z w"
    then have "(w, z) \<in> ?R\<inverse>" using z by simp
    from least [OF this] have "\<not> r\<^sup>*\<^sup>* t w" by simp
    with rtranclp.rtrancl_into_rtrancl [OF z [simplified] w] show False by contradiction
  qed
  moreover have "\<exists>w. r z w" using n z by blast
  ultimately show False by blast
qed


section \<open>Examples\<close>

text \<open>
  Machine 7 allocates slot 0 for its function at 5 in its \<open>main\<close>, arms the trampoline, and is
  executed; meanwhile the kernel calls the trampoline on the same thread.
\<close>

definition one_slot :: "(64, nat) callback_table" where
  "one_slot = empty_table[0 := \<lparr>slot_cip = 5, slot_ctx = Some 7\<rparr>]"

lemma one_slot_nth: "one_slot ! 0 = \<lparr>slot_cip = 5, slot_ctx = Some 7\<rparr>"
  by (simp add: one_slot_def length_empty_table k_to_amx_callback_count_def)

definition vm_at ::
  "bool vm_state option \<Rightarrow> (64, nat) callback_table \<Rightarrow> nat set \<Rightarrow> nat vm_call list \<Rightarrow> (bool, 64, nat) vm_threads"
where
  "vm_at m tab a cs = \<lparr>machines = (\<lambda>_. None)(7 := m), slots = tab, armed = a,
     calls = (\<lambda>_. [])(True := cs), halted = None\<rparr>"

lemma vm_goes:
  "vm_reachable fns careful s \<Longrightarrow> vm_step fns careful s s' \<Longrightarrow> halted s = None \<Longrightarrow> vm_reachable fns careful s'"
  unfolding vm_reachable_def by (meson rtranclp.rtrancl_into_rtrancl vm_next.running)

lemma vm_takes:
  assumes "vm_reachable fns careful (vm_at (Some m) tab a (Wait p 7 # cs))" and "owner m = None" and "\<And>i. p \<noteq> InCallback i"
  shows "vm_reachable fns careful (vm_at (Some (m\<lparr>owner := Some True\<rparr>)) tab a (Run p 7 # cs))"
proof -
  have "vm_step fns careful (vm_at (Some m) tab a (Wait p 7 # cs))
      (set_calls True (Run p 7 # cs) (set_vm 7 (m\<lparr>owner := Some True\<rparr>) (vm_at (Some m) tab a (Wait p 7 # cs))))"
    by (rule vm_step.take_mutex) (use assms(2,3) in \<open>simp_all add: vm_at_def\<close>)
  from vm_goes [OF assms(1) this] show ?thesis by (simp add: vm_at_def)
qed

lemma vm_opened_reachable:
  "vm_reachable sample_fns careful (vm_at (Some \<lparr>owner = None, life = Opened\<rparr>) one_slot {0} [])"
proof -
  note go = vm_goes [where fns = sample_fns and careful = careful]
  have "vm_reachable sample_fns careful (vm_at None empty_table {} [])"
    by (simp add: vm_reachable_def vm_at_def vm_start_def empty_table_def)
  from go [OF this vm_step.begin_load [where t = True and v = 7]]
  have "vm_reachable sample_fns careful (vm_at (Some \<lparr>owner = None, life = Loading True\<rparr>) empty_table {} [Wait OnCreated 7])"
    by (simp add: vm_at_def)
  from vm_takes [OF this]
  have "vm_reachable sample_fns careful (vm_at (Some \<lparr>owner = Some True, life = Loading True\<rparr>) empty_table {} [Run OnCreated 7])"
    by simp
  from go [OF this vm_step.created_main [where t = True and v = 7 and m = "\<lparr>owner = Some True, life = Loading True\<rparr>"]]
  have "vm_reachable sample_fns careful (vm_at (Some \<lparr>owner = None, life = Loading True\<rparr>) empty_table {} [Wait InMain 7])"
    by (simp add: vm_at_def)
  from vm_takes [OF this]
  have "vm_reachable sample_fns careful (vm_at (Some \<lparr>owner = Some True, life = Loading True\<rparr>) empty_table {} [Run InMain 7])"
    by simp
  from go [OF this vm_step.alloc [where t = True and v = 7 and cip = 5, OF _ _ impI]] alloc_first [of 7 5]
  have "vm_reachable sample_fns careful (vm_at (Some \<lparr>owner = Some True, life = Loading True\<rparr>) one_slot {} [Run InMain 7])"
    by (simp add: vm_at_def one_slot_def)
  from go [OF this vm_step.arm [where t = True and v = 7 and i = 0]]
  have "vm_reachable sample_fns careful (vm_at (Some \<lparr>owner = Some True, life = Loading True\<rparr>) one_slot {0} [Run InMain 7])"
    by (simp add: vm_at_def one_slot_nth k_to_amx_callback_count_def)
  from go [OF this vm_step.main_done [where t = True]]
  show ?thesis by (simp add: vm_at_def)
qed

lemma vm_reentered_reachable:
  "vm_reachable sample_fns careful
     (vm_at (Some \<lparr>owner = Some True, life = Opened\<rparr>) one_slot {0} [Wait (InCallback 0) 7, Run InExecute 7])"
proof -
  note go = vm_goes [where fns = sample_fns and careful = careful]
  from go [OF vm_opened_reachable vm_step.begin_execute [where t = True and v = 7]]
  have "vm_reachable sample_fns careful (vm_at (Some \<lparr>owner = None, life = Opened\<rparr>) one_slot {0} [Wait InExecute 7])"
    by (simp add: vm_at_def)
  from vm_takes [OF this]
  have "vm_reachable sample_fns careful (vm_at (Some \<lparr>owner = Some True, life = Opened\<rparr>) one_slot {0} [Run InExecute 7])"
    by simp
  from go [OF this vm_step.call_trampoline [where t = True and i = 0]]
  have "vm_reachable sample_fns careful (vm_at (Some \<lparr>owner = Some True, life = Opened\<rparr>) one_slot {0} [Dispatch 0, Run InExecute 7])"
    by (simp add: vm_at_def)
  from go [OF this vm_step.dispatch [where t = True and i = 0 and v = 7]]
  show ?thesis by (simp add: vm_at_def one_slot_nth)
qed

theorem machine_runs_once_witness:
  "let s = vm_at (Some \<lparr>owner = Some True, life = Opened\<rparr>) one_slot {0} [Wait (InCallback 0) 7, Run InExecute 7]
   in \<forall>u k q. k < length (calls s u) \<longrightarrow> calls s u ! k = Run q 7 \<longrightarrow> u = True \<and> k = 1"
proof -
  define s where "s = vm_at (Some \<lparr>owner = Some True, life = Opened\<rparr>) one_slot {0} [Wait (InCallback 0) 7, Run InExecute 7]"
  have r: "vm_reachable sample_fns True s" unfolding s_def by (rule vm_reentered_reachable)
  have "1 < length (calls s True)" and "calls s True ! 1 = Run InExecute 7" by (simp_all add: s_def vm_at_def)
  from machine_runs_once [OF r this, THEN conjunct2] show ?thesis unfolding Let_def s_def [symmetric] .
qed

theorem waiting_circle_is_final_witness:
  "let s = vm_at (Some \<lparr>owner = Some True, life = Opened\<rparr>) one_slot {0} [Wait (InCallback 0) 7, Run InExecute 7]
   in vm_reachable sample_fns True s \<and> (\<forall>s'. (vm_next sample_fns True)\<^sup>*\<^sup>* s s' \<longrightarrow> \<not> may_enter (calls s' True))"
proof -
  define s where "s = vm_at (Some \<lparr>owner = Some True, life = Opened\<rparr>) one_slot {0} [Wait (InCallback 0) 7, Run InExecute 7]"
  have r: "vm_reachable sample_fns True s" unfolding s_def by (rule vm_reentered_reachable)
  have top: "calls s True = Wait (InCallback 0) 7 # [Run InExecute 7]" by (simp add: s_def vm_at_def)
  then have "\<exists>p q v cs. \<exists>u \<in> {True}. calls s True = Wait p v # cs \<and> Run q v \<in> set (calls s u)" by fastforce
  then have c: "\<forall>t \<in> {True}. \<exists>p q v cs. \<exists>u \<in> {True}. calls s t = Wait p v # cs \<and> Run q v \<in> set (calls s u)" by blast
  have "\<not> may_enter (calls s' True)" if "(vm_next sample_fns True)\<^sup>*\<^sup>* s s'" for s'
    by (rule waiting_circle_is_final [OF r c that singletonI, THEN conjunct2])
  with r show ?thesis unfolding Let_def s_def [symmetric] by blast
qed

theorem careful_modules_are_safe_witness:
  "let s = vm_at (Some \<lparr>owner = Some True, life = Opened\<rparr>) one_slot {0} [Wait (InCallback 0) 7, Run InExecute 7]
   in slot_cip (slots s ! 0) \<noteq> 0 \<and> machines s 7 \<noteq> None \<and> Dangling 7 \<notin> set (calls s True)"
  using careful_modules_are_safe [OF vm_reentered_reachable [where careful = True], of 7 True]
  by (simp add: vm_at_def one_slot_nth)


text \<open>
  Without the rules: machine 7 is closed with its trampoline armed, and the kernel calls it.
\<close>

lemma vm_released_reachable:
  "vm_reachable sample_fns False (vm_at None one_slot {0} [])"
proof -
  note go = vm_goes [where fns = sample_fns and careful = False]
  from go [OF vm_opened_reachable vm_step.begin_destroy [where t = True and v = 7]]
  have "vm_reachable sample_fns False (vm_at (Some \<lparr>owner = None, life = Closing True\<rparr>) one_slot {0} [Wait OnDestroyed 7])"
    by (simp add: vm_at_def)
  from vm_takes [OF this]
  have "vm_reachable sample_fns False (vm_at (Some \<lparr>owner = Some True, life = Closing True\<rparr>) one_slot {0} [Run OnDestroyed 7])"
    by simp
  from go [OF this vm_step.destroyed_done [where t = True and v = 7 and m = "\<lparr>owner = Some True, life = Closing True\<rparr>"]]
  have "vm_reachable sample_fns False (vm_at (Some \<lparr>owner = None, life = Closing True\<rparr>) one_slot {0} [Release 7])"
    by (simp add: vm_at_def)
  from go [OF this vm_step.release [where t = True and v = 7 and cs = "[]"]]
  have "vm_reachable sample_fns False (vm_at None one_slot {0} [Release 7]
      \<lparr>calls := \<lambda>u. map (abandon 7) (((calls (vm_at None one_slot {0} [Release 7]))(True := [])) u)\<rparr>)"
    by (simp add: vm_at_def)
  moreover have "(\<lambda>u. map (abandon 7) (((calls (vm_at None one_slot {0} [Release 7]))(True := [])) u))
      = calls (vm_at None one_slot {0} [])"
    by (auto simp: vm_at_def)
  ultimately show ?thesis by (simp add: vm_at_def)
qed


end
