(* ===== verification/Smm.thy ===== *)
theory Smm
  imports Natives_Types
begin

text \<open>
  The stubs that enter system management mode: \<open>_dell\<close> of \<open>PawnIO/x64.asm\<close> and \<open>___dell@4\<close> of
  \<open>PawnIO/x86.asm\<close>, instruction by instruction, and the natives \<open>query_dell_smm\<close> that call them.

  What a write to an I/O port does to the registers and the carry flag is a parameter,
  \<open>smi\<close>; it keeps the stack pointer and the pointer to the array.
\<close>

section \<open>Instructions\<close>

datatype reg = RAX | RBX | RCX | RDX | RSI | RDI

text \<open>
  The instructions of the stubs.  \<open>LoadSlot\<close> and \<open>StoreSlot\<close> access the array of six
  \<open>ULONG\<close>s, a 32-bit load clears the upper half of the register; \<open>LoadStack\<close> reads the
  \<open>n\<close>-th word of the stack.
\<close>

datatype instr =
    Push reg
  | Pop reg
  | LoadSlot reg nat
  | StoreSlot nat reg
  | LoadStack reg nat
  | MovDx u16
  | OutImm u16
  | OutDx
  | SetbAl
  | MovzxEaxAl

record (overloaded) ('w) cpu =
  regs :: "reg \<Rightarrow> 'w::len word"
  carry :: bool
  stack :: "'w word list"
  slots :: "u32 list"

type_synonym 'w smi = "u16 \<Rightarrow> (reg \<Rightarrow> 'w word) \<times> bool \<Rightarrow> (reg \<Rightarrow> 'w word) \<times> bool"

definition port_write :: "'w::len smi \<Rightarrow> u16 \<Rightarrow> 'w cpu \<Rightarrow> 'w cpu" where
  "port_write smi port s = (let (rs, c) = smi port (regs s, carry s) in s\<lparr>regs := rs, carry := c\<rparr>)"

text \<open>\<open>None\<close>: an access outside the array or the stack.\<close>

fun exec :: "'w::len smi \<Rightarrow> instr \<Rightarrow> 'w cpu \<Rightarrow> 'w cpu option" where
  "exec smi (Push r) s = Some (s\<lparr>stack := regs s r # stack s\<rparr>)"
| "exec smi (Pop r) s =
     (case stack s of [] \<Rightarrow> None | v # st \<Rightarrow> Some (s\<lparr>regs := (regs s)(r := v), stack := st\<rparr>))"
| "exec smi (LoadSlot r i) s =
     (if i < length (slots s) then Some (s\<lparr>regs := (regs s)(r := ucast (slots s ! i))\<rparr>) else None)"
| "exec smi (StoreSlot i r) s =
     (if i < length (slots s) then Some (s\<lparr>slots := (slots s)[i := ucast (regs s r)]\<rparr>) else None)"
| "exec smi (LoadStack r n) s =
     (if n < length (stack s) then Some (s\<lparr>regs := (regs s)(r := stack s ! n)\<rparr>) else None)"
| "exec smi (MovDx v) s = Some (s\<lparr>regs := (regs s)(RDX := (regs s RDX AND NOT 0xFFFF) OR ucast v)\<rparr>)"
| "exec smi (OutImm port) s = Some (port_write smi port s)"
| "exec smi OutDx s = Some (port_write smi (ucast (regs s RDX)) s)"
| "exec smi SetbAl s = Some (s\<lparr>regs := (regs s)(RAX := (regs s RAX AND NOT 0xFF) OR of_bool (carry s))\<rparr>)"
| "exec smi MovzxEaxAl s = Some (s\<lparr>regs := (regs s)(RAX := regs s RAX AND 0xFF)\<rparr>)"

fun run_stub_code :: "'w::len smi \<Rightarrow> instr list \<Rightarrow> 'w cpu \<Rightarrow> 'w cpu option" where
  "run_stub_code smi [] s = Some s"
| "run_stub_code smi (i # is) s = do { s' \<leftarrow> exec smi i s; run_stub_code smi is s' }"

section \<open>The stubs\<close>

text \<open>\<open>_dell\<close>: the order of the array is eax, ecx, edx, ebx, esi, edi.\<close>

definition dell_code :: "instr list" where
  "dell_code =
    [Push RBX, Push RSI, Push RDI,
     LoadSlot RAX 0, LoadSlot RCX 1, LoadSlot RDX 2, LoadSlot RBX 3, LoadSlot RSI 4, LoadSlot RDI 5,
     OutImm 0xB2, OutImm 0x84,
     StoreSlot 0 RAX, StoreSlot 1 RCX, StoreSlot 2 RDX, StoreSlot 3 RBX, StoreSlot 4 RSI, StoreSlot 5 RDI,
     SetbAl, MovzxEaxAl,
     Pop RDI, Pop RSI, Pop RBX]"

text \<open>\<open>___dell@4\<close>: five registers are on the stack, above them the return address and the argument.\<close>

definition dell_x86_code :: "instr list" where
  "dell_x86_code =
    [Push RBX, Push RCX, Push RDX, Push RSI, Push RDI,
     LoadStack RAX 6,
     MovDx 0xB2, OutDx,
     Push RAX, Pop RAX,
     Pop RDI, Pop RSI, Pop RDX, Pop RCX, Pop RBX]"

text \<open>The registers and the flag after both writes, from the registers the array asks for.\<close>

definition smi_regs :: "u32 list \<Rightarrow> reg \<Rightarrow> u64" where
  "smi_regs a r = ucast (a ! (case r of RAX \<Rightarrow> 0 | RCX \<Rightarrow> 1 | RDX \<Rightarrow> 2 | RBX \<Rightarrow> 3 | RSI \<Rightarrow> 4 | RDI \<Rightarrow> 5))"

definition after_smi :: "64 smi \<Rightarrow> u32 list \<Rightarrow> bool \<Rightarrow> (reg \<Rightarrow> u64) \<times> bool" where
  "after_smi smi a c = smi 0x84 (smi 0xB2 (smi_regs a, c))"

definition slots_of :: "(reg \<Rightarrow> u64) \<Rightarrow> u32 list" where
  "slots_of rs = map (\<lambda>r. ucast (rs r)) [RAX, RCX, RDX, RBX, RSI, RDI]"

lemma six_slots: "length a = 6 \<Longrightarrow> \<exists>a0 a1 a2 a3 a4 a5. a = [a0, a1, a2, a3, a4, a5]"
  by (auto simp: length_Suc_conv numeral_eq_Suc)

lemma low_byte_carry:
  "((x AND - 256) OR 1) AND 255 = (1 :: 'w::len word)" "(x AND - 256) AND 255 = (0 :: 'w word)"
proof -
  have m: "(255 :: 'w word) = mask 8" "(- 256 :: 'w word) = NOT (mask 8)"
    by (simp_all add: mask_eq_decr_exp not_eq_complement)
  show "((x AND - 256) OR 1) AND 255 = (1 :: 'w word)" "(x AND - 256) AND 255 = (0 :: 'w word)"
    unfolding m by (rule bit_word_eqI; auto simp: bit_simps bit_1_iff)+
qed

lemma all_regs: "(rs = (rs' :: reg \<Rightarrow> 'v)) \<longleftrightarrow> (\<forall>r \<in> {RAX, RBX, RCX, RDX, RSI, RDI}. rs r = rs' r)"
proof
  assume eq: "\<forall>r \<in> {RAX, RBX, RCX, RDX, RSI, RDI}. rs r = rs' r"
  show "rs = rs'"
  proof
    show "rs r = rs' r" for r using eq by (cases r) simp_all
  qed
qed simp

lemma each_reg: "(\<forall>r. P r) \<longleftrightarrow> P RAX \<and> P RBX \<and> P RCX \<and> P RDX \<and> P RSI \<and> P RDI"
  by (metis reg.exhaust)

lemma loaded_regs:
  "(\<lambda>r. if r = RDI then ucast a5 else if r = RSI then ucast a4 else if r = RBX then ucast a3
     else if r = RDX then ucast a2 else if r = RCX then ucast a1 else if r = RAX then ucast a0 else rs r)
   = smi_regs [a0, a1, a2, a3, a4, a5]"
  by (subst all_regs) (simp add: smi_regs_def)

lemma dell_run:
  assumes "length (slots s) = 6"
  shows "\<exists>s'. run_stub_code smi dell_code s = Some s'
    \<and> slots s' = slots_of (fst (after_smi smi (slots s) (carry s)))
    \<and> regs s' RAX = of_bool (snd (after_smi smi (slots s) (carry s)))
    \<and> stack s' = stack s \<and> (\<forall>r \<in> {RBX, RSI, RDI}. regs s' r = regs s r)"
proof -
  obtain a0 a1 a2 a3 a4 a5 where a: "slots s = [a0, a1, a2, a3, a4, a5]" using six_slots [OF assms] by blast
  obtain rs1 c1 where b2: "smi 0xB2 (smi_regs [a0, a1, a2, a3, a4, a5], carry s) = (rs1, c1)" by fastforce
  obtain rs2 c2 where x84: "smi 0x84 (rs1, c1) = (rs2, c2)" by fastforce
  have after: "after_smi smi [a0, a1, a2, a3, a4, a5] (carry s) = (rs2, c2)" by (simp add: after_smi_def b2 x84)
  show ?thesis
    by (cases c2) (simp_all add: dell_code_def a after port_write_def fun_upd_def loaded_regs b2 x84 slots_of_def
        low_byte_carry)
qed

text \<open>\<open>_dell\<close> as the function the native calls: the array and whether it returns something other than 0.\<close>

definition dell_stub :: "64 smi \<Rightarrow> 64 cpu \<Rightarrow> u32 list \<Rightarrow> u32 list \<times> bool" where
  "dell_stub smi s a =
    (case run_stub_code smi dell_code (s\<lparr>slots := a\<rparr>) of
       None \<Rightarrow> ([], False)
     | Some s' \<Rightarrow> (slots s', regs s' RAX \<noteq> 0))"

lemma dell_stub_result:
  assumes "length a = 6"
  shows "dell_stub smi s a = (slots_of (fst (after_smi smi a (carry s))), snd (after_smi smi a (carry s)))"
  using dell_run [of "s\<lparr>slots := a\<rparr>" smi] assms by (auto simp: dell_stub_def)

lemma dell_stub_length: "length a = 6 \<Longrightarrow> length (fst (dell_stub smi s a)) = 6"
  by (simp add: dell_stub_result slots_of_def)

text \<open>The stub keeps the shape the wrapper of the native needs.\<close>

lemma dell_stub_shape:
  "smm_call k = dell_stub smi s \<Longrightarrow> (\<And>l sl. length (cpuidex k l sl) = 4) \<Longrightarrow> hw_arrays_ok k"
  by (simp add: hw_arrays_ok_def dell_stub_length)

text \<open>The stub of x86: the result is the register EAX after the one write, every other register is restored.\<close>

definition x86_smi_regs :: "32 cpu \<Rightarrow> u32 \<Rightarrow> reg \<Rightarrow> u32" where
  "x86_smi_regs s v = (regs s)(RAX := v, RDX := (regs s RDX AND NOT 0xFFFF) OR 0xB2)"

lemma dell_x86_run:
  assumes "stack s = ret # v # st"
  shows "\<exists>s'. run_stub_code smi dell_x86_code s = Some s'
    \<and> regs s' RAX = fst (smi 0xB2 (x86_smi_regs s v, carry s)) RAX
    \<and> stack s' = stack s \<and> (\<forall>r. r \<noteq> RAX \<longrightarrow> regs s' r = regs s r)"
proof -
  obtain rs c where b2: "smi 0xB2 (x86_smi_regs s v, carry s) = (rs, c)" by fastforce
  have low: "ucast ((x AND - 65536) OR 178 :: u32) = (178 :: u16)" for x
  proof -
    have m: "(- 65536 :: u32) = NOT (mask 16)" by (simp add: mask_eq_decr_exp not_eq_complement)
    have "ucast (x AND NOT (mask 16) :: u32) = (0 :: u16)" by (rule bit_word_eqI) (auto simp: bit_simps)
    then show ?thesis by (simp add: m unsigned_or_eq)
  qed
  have regs: "(regs s)(RAX := v, RDX := (regs s RDX AND - 65536) OR 178) = x86_smi_regs s v"
    by (simp add: x86_smi_regs_def)
  have port: "ucast (x86_smi_regs s v RDX) = (178 :: u16)" by (simp add: x86_smi_regs_def low)
  have smi: "smi 178 (x86_smi_regs s v, carry s) = (rs, c)" using b2 by simp
  show ?thesis
    by (simp add: dell_x86_code_def assms port_write_def regs port smi each_reg)
qed

section \<open>The native on the stub\<close>

text \<open>
  C32: \<open>query_dell_smm\<close> of x64 with its assembly stub: the two writes to the ports 0xB2 and 0x84 see the six
  registers of the input, cut to 32 bits; the output is the six registers after them.  The native
  returns 1 when the handler left the carry flag clear, AX is not 0xFFFF and EAX has changed.  The stub
  restores RBX, RSI, RDI and the stack, and never leaves the array.
\<close>

theorem dell_stub_registers:
  assumes "smm_call k = dell_stub smi s" and "length inp = 6"
    and "after_smi smi (map ucast inp) (carry s) = (rs, c)"
  shows "query_dell_smm k inp m =
      (of_bool (\<not> c \<and> (ucast (rs RAX) :: u32) AND 0xFFFF \<noteq> 0xFFFF \<and> (ucast (rs RAX) :: u32) \<noteq> ucast (inp ! 0)),
       map ucast (slots_of rs), hw_do (Smm (map ucast inp)) m)
    \<and> (\<exists>s'. run_stub_code smi dell_code (s\<lparr>slots := map ucast inp\<rparr>) = Some s' \<and> stack s' = stack s
         \<and> (\<forall>r \<in> {RBX, RSI, RDI}. regs s' r = regs s r))"
proof
  have call: "smm_call k (map ucast inp) = (slots_of rs, c)"
    using assms by (simp add: dell_stub_result)
  show "query_dell_smm k inp m =
      (of_bool (\<not> c \<and> (ucast (rs RAX) :: u32) AND 0xFFFF \<noteq> 0xFFFF \<and> (ucast (rs RAX) :: u32) \<noteq> ucast (inp ! 0)),
       map ucast (slots_of rs), hw_do (Smm (map ucast inp)) m)"
    by (simp add: query_dell_smm_def call slots_of_def)
  show "\<exists>s'. run_stub_code smi dell_code (s\<lparr>slots := map ucast inp\<rparr>) = Some s' \<and> stack s' = stack s
      \<and> (\<forall>r \<in> {RBX, RSI, RDI}. regs s' r = regs s r)"
    using dell_run [of "s\<lparr>slots := map ucast inp\<rparr>" smi] assms(2) by auto
qed

text \<open>A handler that answers ``DELL'' in EAX to the write on 0xB2, and does nothing on 0x84.\<close>

definition dell_smi :: "64 smi" where
  "dell_smi port st = (if port = 0xB2 then ((fst st)(RAX := 0x44454C4C), False) else st)"

definition idle_cpu :: "64 cpu" where
  "idle_cpu = \<lparr>regs = \<lambda>r. 7, carry = True, stack = [], slots = []\<rparr>"

theorem dell_stub_registers_witness:
  "fst (query_dell_smm (quiet_hw\<lparr>smm_call := dell_stub dell_smi idle_cpu\<rparr>) [0x1A3, 1, 2, 3, 4, 0x100000005] blank_machine) = 1
   \<and> fst (snd (query_dell_smm (quiet_hw\<lparr>smm_call := dell_stub dell_smi idle_cpu\<rparr>) [0x1A3, 1, 2, 3, 4, 0x100000005] blank_machine))
     = [0x44454C4C, 1, 2, 3, 4, 5]"
proof -
  let ?k = "quiet_hw\<lparr>smm_call := dell_stub dell_smi idle_cpu\<rparr>"
  let ?a = "[0x1A3, 1, 2, 3, 4, 0x100000005] :: u64 list"
  obtain rs c where rs: "after_smi dell_smi (map ucast ?a) (carry idle_cpu) = (rs, c)" by fastforce
  then have r: "rs RAX = 0x44454C4C" "rs RCX = 1" "rs RDX = 2" "rs RBX = 3" "rs RSI = 4" "rs RDI = 5" "\<not> c"
    by (auto simp: after_smi_def dell_smi_def smi_regs_def)
  have "smm_call ?k = dell_stub dell_smi idle_cpu" "length ?a = 6" by simp_all
  from dell_stub_registers [OF this rs, of blank_machine] show ?thesis by (simp add: r slots_of_def)
qed

end
