(* ===== verification/Natives_Declared.thy ===== *)
theory Natives_Declared
  imports Natives_Table
begin

text \<open>
  The declarations of \<open>PawnIO/natives_impl.h\<close>, and their agreement with the table \<open>NATIVES\<close> of
  \<open>PawnIO/vm.cpp\<close>: the template \<open>native_callback_wrapper\<close> takes the types of a native from
  its declaration.
\<close>

section \<open>Declarations\<close>

text \<open>The types of the parameters: \<open>cell\<close>, \<open>cell&\<close>, \<open>std::array<cell, n>\<close> by value and by reference, and text.\<close>

datatype c_type = Cell | CellReference | CellArray nat | CellArrayReference nat | ConstCharPointer

record native_decl =
  native_name :: string
  returns_cell :: bool
  parameters :: "c_type list"

definition cell_fn :: "string \<Rightarrow> c_type list \<Rightarrow> native_decl" where
  "cell_fn name ps = \<lparr>native_name = name, returns_cell = True, parameters = ps\<rparr>"

definition void_fn :: "string \<Rightarrow> c_type list \<Rightarrow> native_decl" where
  "void_fn name ps = \<lparr>native_name = name, returns_cell = False, parameters = ps\<rparr>"

definition common_declarations :: "native_decl list" where
  "common_declarations =
    [cell_fn ''get_arch'' [],
     cell_fn ''cpu_count'' [],
     cell_fn ''cpu_set_affinity'' [Cell, CellArrayReference 2],
     cell_fn ''cpu_restore_affinity'' [CellArray 2],
     cell_fn ''msr_read'' [Cell, CellReference],
     cell_fn ''msr_write'' [Cell, Cell],
     void_fn ''interrupts_disable'' [],
     void_fn ''interrupts_enable'' [],
     cell_fn ''physical_read_byte'' [Cell, CellReference],
     cell_fn ''physical_read_word'' [Cell, CellReference],
     cell_fn ''physical_read_dword'' [Cell, CellReference],
     cell_fn ''physical_read_qword'' [Cell, CellReference],
     cell_fn ''physical_write_byte'' [Cell, Cell],
     cell_fn ''physical_write_word'' [Cell, Cell],
     cell_fn ''physical_write_dword'' [Cell, Cell],
     cell_fn ''physical_write_qword'' [Cell, Cell],
     cell_fn ''io_space_map'' [Cell, Cell],
     void_fn ''io_space_unmap'' [Cell, Cell],
     cell_fn ''virtual_read_byte'' [Cell, CellReference],
     cell_fn ''virtual_read_word'' [Cell, CellReference],
     cell_fn ''virtual_read_dword'' [Cell, CellReference],
     cell_fn ''virtual_read_qword'' [Cell, CellReference],
     cell_fn ''virtual_write_byte'' [Cell, Cell],
     cell_fn ''virtual_write_word'' [Cell, Cell],
     cell_fn ''virtual_write_dword'' [Cell, Cell],
     cell_fn ''virtual_write_qword'' [Cell, Cell],
     cell_fn ''virtual_cmpxchg_byte2'' [Cell, Cell, Cell],
     cell_fn ''virtual_cmpxchg_word2'' [Cell, Cell, Cell],
     cell_fn ''virtual_cmpxchg_dword2'' [Cell, Cell, Cell],
     cell_fn ''virtual_cmpxchg_qword2'' [Cell, Cell, Cell],
     cell_fn ''virtual_alloc'' [Cell],
     void_fn ''virtual_free'' [Cell],
     cell_fn ''pci_config_read_byte'' [Cell, Cell, Cell, Cell, CellReference],
     cell_fn ''pci_config_read_word'' [Cell, Cell, Cell, Cell, CellReference],
     cell_fn ''pci_config_read_dword'' [Cell, Cell, Cell, Cell, CellReference],
     cell_fn ''pci_config_read_qword'' [Cell, Cell, Cell, Cell, CellReference],
     cell_fn ''pci_config_write_byte'' [Cell, Cell, Cell, Cell, Cell],
     cell_fn ''pci_config_write_word'' [Cell, Cell, Cell, Cell, Cell],
     cell_fn ''pci_config_write_dword'' [Cell, Cell, Cell, Cell, Cell],
     cell_fn ''pci_config_write_qword'' [Cell, Cell, Cell, Cell, Cell],
     cell_fn ''get_proc_address'' [ConstCharPointer],
     cell_fn ''invoke'' [Cell, CellReference, Cell, Cell, Cell, Cell, Cell, Cell, Cell, Cell,
       Cell, Cell, Cell, Cell, Cell, Cell, Cell, Cell],
     cell_fn ''microsleep'' [Cell],
     cell_fn ''microsleep2'' [Cell],
     cell_fn ''qpc'' [CellReference]]"

definition x64_declarations :: "native_decl list" where
  "x64_declarations =
    [cell_fn ''query_dell_smm'' [CellArray 6, CellArrayReference 6],
     void_fn ''io_out_byte'' [Cell, Cell],
     void_fn ''io_out_word'' [Cell, Cell],
     void_fn ''io_out_dword'' [Cell, Cell],
     cell_fn ''io_in_byte'' [Cell],
     cell_fn ''io_in_word'' [Cell],
     cell_fn ''io_in_dword'' [Cell],
     void_fn ''llwpcb'' [Cell],
     cell_fn ''slwpcb'' [],
     void_fn ''cpuid'' [Cell, Cell, CellArrayReference 4],
     cell_fn ''cr_read'' [Cell],
     void_fn ''cr_write'' [Cell, Cell],
     cell_fn ''dr_read'' [Cell],
     void_fn ''dr_write'' [Cell, Cell],
     cell_fn ''xcr_read'' [Cell, CellReference],
     cell_fn ''xcr_write'' [Cell, Cell],
     void_fn ''invlpg'' [Cell],
     void_fn ''invpcid'' [Cell, Cell],
     cell_fn ''readpmc'' [Cell, CellReference],
     cell_fn ''rdtsc'' [],
     cell_fn ''rdtscp'' [CellReference],
     cell_fn ''rdrand'' [CellReference],
     cell_fn ''rdseed'' [CellReference],
     void_fn ''lidt'' [Cell, Cell],
     void_fn ''sidt'' [CellReference, CellReference],
     void_fn ''lgdt'' [Cell, Cell],
     void_fn ''sgdt'' [CellReference, CellReference],
     cell_fn ''mxcsr_read'' [],
     void_fn ''mxcsr_write'' [Cell],
     void_fn ''stac'' [],
     void_fn ''clac'' [],
     void_fn ''halt'' [],
     void_fn ''ud2'' [],
     void_fn ''int3'' [],
     void_fn ''int2c'' [],
     void_fn ''wbinvd'' []]"

definition declarations :: "arch \<Rightarrow> native_decl list" where
  "declarations a = common_declarations @ (if a = X64 then x64_declarations else [])"

section \<open>What the template can pass\<close>

text \<open>The specialisations of \<open>arg_wrapper\<close>: the general template is empty, so there is none for text.\<close>

fun wrapped_type :: "c_type \<Rightarrow> arg_type option" where
  "wrapped_type Cell = Some CellVal"
| "wrapped_type CellReference = Some CellRef"
| "wrapped_type (CellArray n) = Some (ArrVal n)"
| "wrapped_type (CellArrayReference n) = Some (ArrRef n)"
| "wrapped_type ConstCharPointer = None"

definition wrapped_types :: "native_decl \<Rightarrow> arg_type list option" where
  "wrapped_types d = those (map wrapped_type (parameters d))"

definition passable :: "native_decl \<Rightarrow> bool" where
  "passable d \<longleftrightarrow> wrapped_types d \<noteq> None"

text \<open>The result of a native: a \<open>cell\<close> always, or never.\<close>

definition gives_cell :: "'w::len native \<Rightarrow> bool \<Rightarrow> bool" where
  "gives_cell f b \<longleftrightarrow> (\<forall>vs st r vs' st'. body f vs st = Some (r, vs', st') \<longrightarrow> (r \<noteq> None) = b)"

definition as_declared :: "native_decl \<Rightarrow> string \<times> 'w::len native \<Rightarrow> bool" where
  "as_declared d nf \<longleftrightarrow> fst nf = native_name d \<and> wrapped_types d = Some (arg_types (snd nf))
     \<and> gives_cell (snd nf) (returns_cell d)"

lemmas shapes = cell_0_def void_0_def cell_1_def cell_2_def cell_3_def cell_5_def void_1_def void_2_def cell_ref_def
  void_ref_2_def read_1_def read_state_1_def read_state_4_def set_affinity_native_def restore_affinity_native_def
  microsleep_native_def invoke_native_def dell_native_def cpuid_native_def register_read_native_def
  register_write_native_def native_def

lemma shape_types [simp]:
  "arg_types (cell_0 c) = []" "arg_types (void_0 g0) = []" "arg_types (cell_1 g1) = [CellVal]"
  "arg_types (cell_2 g2) = [CellVal, CellVal]" "arg_types (cell_3 g3) = [CellVal, CellVal, CellVal]"
  "arg_types (cell_5 g5) = [CellVal, CellVal, CellVal, CellVal, CellVal]" "arg_types (void_1 v1) = [CellVal]"
  "arg_types (void_2 v2) = [CellVal, CellVal]" "arg_types (cell_ref p) = [CellRef]"
  "arg_types (void_ref_2 p) = [CellRef, CellRef]" "arg_types (read_1 r1) = [CellVal, CellRef]"
  "arg_types (read_state_1 s1) = [CellVal, CellRef]"
  "arg_types (read_state_4 s4) = [CellVal, CellVal, CellVal, CellVal, CellRef]"
  "arg_types (set_affinity_native k) = [CellVal, ArrRef 2]" "arg_types restore_affinity_native = [ArrVal 2]"
  "arg_types (microsleep_native k) = [CellVal]" "arg_types (invoke_native k) = CellVal # CellRef # replicate 16 CellVal"
  "arg_types (dell_native k) = [ArrVal 6, ArrRef 6]" "arg_types (cpuid_native k) = [CellVal, CellVal, ArrRef 4]"
  "arg_types (register_read_native rr) = [CellVal]" "arg_types (register_write_native rw) = [CellVal, CellVal]"
  by (simp_all add: shapes)

lemma shape_results [simp]:
  "gives_cell (cell_0 c) True" "gives_cell (void_0 g0) False" "gives_cell (cell_1 g1) True"
  "gives_cell (cell_2 g2) True" "gives_cell (cell_3 g3) True" "gives_cell (cell_5 g5) True"
  "gives_cell (void_1 v1) False" "gives_cell (void_2 v2) False" "gives_cell (cell_ref p) True"
  "gives_cell (void_ref_2 p) False" "gives_cell (read_1 r1) True" "gives_cell (read_state_1 s1) True"
  "gives_cell (read_state_4 s4) True" "gives_cell (set_affinity_native k) True"
  "gives_cell restore_affinity_native True" "gives_cell (microsleep_native k) True" "gives_cell (invoke_native k) True"
  "gives_cell (dell_native k) True" "gives_cell (cpuid_native k) False" "gives_cell (register_read_native rr) True"
  "gives_cell (register_write_native rw) False"
  by (auto simp: gives_cell_def shapes Let_def split: prod.splits Option.bind_splits)

definition template_declarations :: "arch \<Rightarrow> native_decl list" where
  "template_declarations a = filter passable (declarations a)"

lemmas declaration_defs = declarations_def common_declarations_def x64_declarations_def cell_fn_def void_fn_def
  wrapped_types_def passable_def

lemma common_as_declared:
  assumes "arg_types rd = [CellVal, CellRef]" and "arg_types wr = [CellVal, CellVal]"
    and "gives_cell rd True" and "gives_cell wr True"
  shows "list_all2 as_declared (filter passable common_declarations) (common_natives a k rd wr)"
  by (simp add: common_natives_def declaration_defs as_declared_def assms numeral_eq_Suc)

lemma x64_as_declared:
  "list_all2 as_declared (filter passable x64_declarations) (x64_natives pad k)"
  by (simp add: x64_natives_def declaration_defs as_declared_def)

section \<open>Property\<close>

text \<open>
  C31: on every architecture the table has, in the order of the header, exactly the declared
  natives whose types the template can pass, each with the types of its declaration and with a
  result exactly when it is not \<open>void\<close>; the one declared native that the template cannot take,
  for its text, is \<open>get_proc_address\<close>, and it is among the hand-written entries.
\<close>

theorem natives_as_declared:
  "(\<exists>ns. NATIVES_x64 pad k = special_natives @ wrapped ns \<and> list_all2 as_declared (template_declarations X64) ns)
   \<and> (\<exists>ns. NATIVES_x86 k' = special_natives @ wrapped ns \<and> list_all2 as_declared (template_declarations X86) ns)
   \<and> (\<exists>ns. NATIVES_arm64 run k = special_natives @ wrapped ns \<and> list_all2 as_declared (template_declarations A64) ns)
   \<and> map native_name (filter (\<lambda>d. \<not> passable d) (declarations a)) = [''get_proc_address'']
   \<and> (''get_proc_address'', Special Get_proc_address) \<in> set (special_natives :: (string \<times> 64 native entry) list)"
proof (intro conjI)
  show "\<exists>ns. NATIVES_x64 pad k = special_natives @ wrapped ns \<and> list_all2 as_declared (template_declarations X64) ns"
    unfolding NATIVES_x64_def template_declarations_def declarations_def filter_append
    by (intro exI conjI, rule refl) (simp add: list_all2_appendI common_as_declared x64_as_declared)
  show "\<exists>ns. NATIVES_x86 k' = special_natives @ wrapped ns \<and> list_all2 as_declared (template_declarations X86) ns"
    unfolding NATIVES_x86_def template_declarations_def declarations_def
    by (intro exI conjI, rule refl) (simp add: common_as_declared)
  show "\<exists>ns. NATIVES_arm64 run k = special_natives @ wrapped ns \<and> list_all2 as_declared (template_declarations A64) ns"
    unfolding NATIVES_arm64_def template_declarations_def declarations_def
    by (intro exI conjI, rule refl) (simp add: common_as_declared)
  show "map native_name (filter (\<lambda>d. \<not> passable d) (declarations a)) = [''get_proc_address'']"
    by (simp add: declaration_defs)
  show "(''get_proc_address'', Special Get_proc_address) \<in> set special_natives" by (simp add: special_natives_def)
qed

end
