(* ===== verification/Trusted_Keys.thy ===== *)
theory Trusted_Keys
  imports Signature
begin

text \<open>
  The trusted keys (\<open>PawnIO/vm.cpp\<close>, declared in \<open>PawnIO/public.h\<close>): the array
  \<open>k_trusted_keys\<close> with the one key of the driver, and what \<open>check_signature\<close> makes of it.
\<close>

section \<open>The array\<close>

text \<open>\<open>pubkey_data\<close>: what is at the pointer, or null.\<close>

record trusted_pubkey =
  pubkey_data :: "byte list option"
  pubkey_len :: nat

definition k_pubkey_namazso_2023 :: "byte list" where
  "k_pubkey_namazso_2023 =
    [
     0x52, 0x53, 0x41, 0x31, 0, 0x10, 0, 0, 3, 0, 0, 0, 0, 2, 0, 0, 0, 0, 0, 0, 0, 0, 0, 0, 1, 0, 1,
     0xB5, 0x45, 0xB8, 0x15, 0xF0, 0x2A, 0xEB, 0xCA, 0xC9, 0x35, 0x8F, 0x54, 0x15, 0x83, 0x12, 0x2C, 0xC3, 0xF3, 0x5E, 0x1E, 0xE7, 0xFB, 0xD3, 0xE1, 0x68, 0x73, 0x3B,
     0x36, 0xC0, 0x5C, 0x6F, 0xD3, 0xBA, 0xF4, 0xD0, 0xA9, 0x9B, 0x6E, 0x9C, 0x66, 0x43, 0x2F, 0xC9, 0xB2, 0x82, 0xDF, 0x24, 0x6D, 0x8F, 0x5F, 0x45, 0xAF, 2, 0xDD,
     0x6A, 0xEF, 4, 1, 0x74, 0x69, 0xC3, 0x20, 0x70, 0xDB, 0x3F, 5, 0x97, 0x9E, 0xE6, 1, 0x6B, 0x9E, 0x28, 0x53, 3, 0x59, 2, 0x98, 0x4C, 0x41, 0xAB,
     0xB2, 0x56, 0x5F, 0xD6, 0x24, 0x98, 0xD1, 0xB3, 0xF9, 0xF8, 0x46, 0xC7, 0x21, 0x4B, 0xDF, 0xFD, 0xF2, 0x88, 0x2A, 0xCE, 0xDC, 0x75, 0x36, 0x40, 0xC2, 0x5E, 0x0B,
     0x26, 0x17, 0x7A, 0x3D, 0xD6, 0x34, 0xD7, 0x47, 0xD6, 0x61, 0xE1, 0x33, 0xD7, 0x7A, 0, 0x7E, 0x9F, 0xEB, 0x92, 0x33, 0x52, 0x65, 0x8E, 0xF8, 0x7C, 0x49, 0xD4,
     0x22, 0xB8, 0x22, 0xBD, 0x59, 0x56, 0xBC, 0xD5, 0x1B, 0x64, 0x4C, 0x91, 0x50, 0xAB, 0x1F, 0x67, 0x9F, 0x84, 0xDD, 0x8B, 0x4F, 0xFC, 0x28, 0x26, 0x52, 0x36, 0x49,
     0x67, 0x0D, 0x6C, 0xA4, 0xA1, 0xAA, 0xEC, 0x2B, 0xB0, 5, 9, 8, 0x20, 0x38, 0x82, 0xAE, 0x47, 0xB9, 0x3C, 0xAE, 0x50, 0xBF, 0x93, 0x69, 0x94, 0xB5, 0x98,
     0x7C, 0xA8, 0x2E, 0xA9, 0x8E, 0x7B, 0xC2, 0xB2, 0x12, 0xB9, 0xB1, 0x62, 0x46, 0x3C, 0xED, 0x24, 0x9C, 0x89, 0xE0, 0xB8, 0x46, 0x26, 0x1A, 0x5A, 8, 0xD6, 0xF0,
     0x2A, 0xA3, 0x28, 0xB6, 0x73, 0x60, 0xAE, 0xC3, 0x2D, 0x4C, 0x5A, 0x24, 0xF1, 0x58, 0x4C, 0x51, 0xD2, 0x66, 0xE9, 0xD9, 0x61, 0x98, 0x4D, 0xDE, 0x94, 0xD8, 0x44,
     0x1F, 0x62, 0xF6, 0x4E, 0xF9, 0x73, 0x44, 0xA4, 0x7A, 0x2C, 0x2D, 0xC1, 0xDB, 0x4F, 0x58, 0xD6, 0x70, 0xB2, 0x6E, 0xE8, 0xD9, 0x50, 1, 0x35, 0x4F, 0x39, 0x49,
     0x2E, 9, 0x76, 0x47, 0x9C, 0x3C, 0x7E, 0x72, 0x33, 0xCA, 0x13, 0xD7, 0x29, 0x82, 0xFB, 0x14, 0xAD, 0x4E, 0xC3, 0xA6, 0xC6, 0x4C, 0x18, 0x84, 0xB5, 0x83, 0x7A,
     0xF0, 0x99, 0xBA, 0x1D, 0x56, 0xD2, 0xA2, 0xDF, 0x14, 0x34, 1, 0x6F, 0x83, 0x8D, 0xB8, 0xA0, 0x16, 0x2C, 0x36, 0x90, 0x0F, 0x96, 0x2D, 0x3B, 0x80, 0x58, 0x5C,
     0xE7, 0x9D, 0x0D, 0x73, 0x38, 0xCA, 0xEE, 0x43, 0xF7, 0xC0, 0x37, 0xA4, 0xEA, 0xDD, 0x76, 0xCC, 0xA2, 0xF3, 0x54, 0xC8, 0x45, 0xC9, 0xBE, 0x3F, 0xCE, 0xAA, 0x98,
     0x2F, 0x4C, 0x97, 0x87, 0x56, 0, 0x81, 0x6A, 0x7A, 0x41, 0x52, 0xF7, 0xF9, 0x0D, 0xEE, 0x5D, 0xB6, 5, 0x1F, 0x40, 0x9F, 0xDE, 0x75, 0x97, 0xD5, 0x8F, 0x28,
     4, 0xDA, 0x57, 0xA2, 0x76, 0x52, 0x49, 0x35, 0xAC, 0x54, 0xF3, 9, 0xA6, 0x68, 0xEC, 0x84, 0xB8, 0x87, 0xD9, 0xBE, 0x26, 0xED, 0xFD, 0x75, 0x7D, 0x2A, 0x1B,
     0x55, 0x18, 0x31, 0xA7, 0xA0, 0x44, 0xC5, 0x4A, 5, 0xD2, 0x55, 0x44, 0x70, 0x1D, 0x35, 0xE4, 0x61, 3, 0x5D, 0x82, 0x3C, 0x48, 0x40, 0x5F, 0x58, 0x64, 0x4E,
     0xFF, 0xA6, 0xA1, 0x24, 0x7A, 0xAC, 0xF0, 0xF8, 0x3F, 0x9E, 0x9B, 0xE0, 0x53, 4, 0x55, 0xB1, 0xED, 0xDC, 0xC0, 0xC9, 0x9E, 0x5E, 0x31, 0x46, 9, 0x83, 0x51,
     0x41, 0xBD, 0x41, 0x73, 0xC0, 0xD8, 0x36, 0x23, 0xAE, 0x0B, 0xDF, 0x89, 0x67, 0x2A, 0xC7, 0x56, 0x36, 0xA8, 0xE2, 0x76, 0xB8, 0xCB, 0x75, 0xA1, 0xF0, 0x7C, 0xAC,
     0x4D, 0xCD, 0x56, 0xBB, 0x6A, 3, 0xCA, 0x7A, 0x89, 0xD2, 6, 0xE9, 2, 0x48, 0x17, 0x2F, 0xCF, 0xBC, 0xC1, 0xB6, 0xF7, 0xBF, 0x8A, 0xC1, 0xA7, 0x9B]"

definition k_trusted_keys :: "trusted_pubkey list" where
  "k_trusted_keys =
    [\<lparr>pubkey_data = Some k_pubkey_namazso_2023, pubkey_len = length k_pubkey_namazso_2023\<rparr>,
     \<lparr>pubkey_data = None, pubkey_len = 0\<rparr>]"

definition pawnio_trusted_keys :: "trusted_pubkey list" where
  "pawnio_trusted_keys = k_trusted_keys"

text \<open>
  What a loop over such an array sees, \<open>for (auto it = \<dots>; it->pubkey_data; ++it)\<close>; \<open>None\<close> when
  it runs past the end of the array.
\<close>

fun keys_of_array :: "trusted_pubkey list \<Rightarrow> byte list list option" where
  "keys_of_array [] = None"
| "keys_of_array (e # es) =
     (case pubkey_data e of
        None \<Rightarrow> Some []
      | Some key \<Rightarrow> map_option ((#) (take (pubkey_len e) key)) (keys_of_array es))"

section \<open>The key\<close>

text \<open>
  The fields of \<open>BCRYPT_RSAKEY_BLOB\<close>: the magic, the bits of the key, the bytes of the
  exponent, of the modulus and of the two primes; after them the exponent and the modulus,
  big-endian.
\<close>

definition blob_field :: "byte list \<Rightarrow> nat \<Rightarrow> u32" where
  "blob_field key i = le_at key (4 * i)"

definition blob_exponent :: "byte list \<Rightarrow> byte list" where
  "blob_exponent key = take (unat (blob_field key 2)) (drop 24 key)"

definition blob_modulus :: "byte list \<Rightarrow> byte list" where
  "blob_modulus key = drop (24 + unat (blob_field key 2)) key"

text \<open>
  A public key that is complete: the lengths add up, there are no primes, and the modulus is
  odd and has as many bits as the key says.
\<close>

definition public_key_blob :: "byte list \<Rightarrow> bool" where
  "public_key_blob key \<longleftrightarrow> 24 \<le> length key
     \<and> length key = 24 + unat (blob_field key 2) + unat (blob_field key 3)
     \<and> unat (blob_field key 1) = 8 * unat (blob_field key 3)
     \<and> blob_field key 4 = 0 \<and> blob_field key 5 = 0
     \<and> bit (hd (blob_modulus key)) 7 \<and> bit (last (blob_modulus key)) 0"

lemma driver_key_header:
  "take 24 k_pubkey_namazso_2023 =
    [0x52, 0x53, 0x41, 0x31, 0, 0x10, 0, 0, 3, 0, 0, 0, 0, 2, 0, 0, 0, 0, 0, 0, 0, 0, 0, 0]"
  "length k_pubkey_namazso_2023 = 539"
  "take 3 (drop 24 k_pubkey_namazso_2023) = [1, 0, 1]"
  "hd (drop 27 k_pubkey_namazso_2023) = 0xB5" "last (drop 27 k_pubkey_namazso_2023) = 0x9B"
  by (simp_all add: k_pubkey_namazso_2023_def)

lemma blob_field_header: "i < 6 \<Longrightarrow> blob_field key i = blob_field (take 24 key) i"
  by (simp add: blob_field_def le_at_def drop_take min_def)

definition driver_key_start :: "byte list" where
  "driver_key_start =
    [0x52, 0x53, 0x41, 0x31, 0, 0x10, 0, 0, 3, 0, 0, 0, 0, 2, 0, 0, 0, 0, 0, 0, 0, 0, 0, 0]"

lemma driver_key_field: "i < 6 \<Longrightarrow> blob_field k_pubkey_namazso_2023 i = le_at driver_key_start (4 * i)"
  by (subst blob_field_header) (simp_all add: driver_key_header driver_key_start_def blob_field_def)

lemma driver_key_start_fields:
  "(le_at driver_key_start 0 :: u32) = 0x31415352" "(le_at driver_key_start 4 :: u32) = 4096"
  "(le_at driver_key_start 8 :: u32) = 3" "(le_at driver_key_start 12 :: u32) = 512"
  "(le_at driver_key_start 16 :: u32) = 0" "(le_at driver_key_start 20 :: u32) = 0"
  by (simp_all add: le_at_def driver_key_start_def)

lemma driver_key_fields:
  "blob_field k_pubkey_namazso_2023 0 = 0x31415352" "blob_field k_pubkey_namazso_2023 1 = 4096"
  "blob_field k_pubkey_namazso_2023 2 = 3" "blob_field k_pubkey_namazso_2023 3 = 512"
  "blob_field k_pubkey_namazso_2023 4 = 0" "blob_field k_pubkey_namazso_2023 5 = 0"
  using driver_key_field [of 0] driver_key_field [of 1] driver_key_field [of 2] driver_key_field [of 3]
    driver_key_field [of 4] driver_key_field [of 5]
  by (simp_all add: driver_key_start_fields)

lemma driver_key_magic: "key_magic k_pubkey_namazso_2023 = 0x31415352"
  using driver_key_fields(1) unfolding blob_field_def key_magic_def mult_0_right .

lemma driver_key_blob: "public_key_blob k_pubkey_namazso_2023"
proof -
  have n: "24 + unat (3 :: u32) = 27" by simp
  show ?thesis
    unfolding public_key_blob_def blob_modulus_def driver_key_fields driver_key_header(2) n driver_key_header(4,5)
    by (simp add: bit_iff_odd)
qed

lemma driver_keys: "keys_of_array pawnio_trusted_keys = Some [k_pubkey_namazso_2023]"
  by (simp add: pawnio_trusted_keys_def k_trusted_keys_def)



end
