(* ===== verification/Kernel_Stubs.thy ===== *)
theory Kernel_Stubs
  imports Cbytes
begin

text \<open>
  The C runtime routines of \<open>PawnIO/kernel_stubs.c\<close>, on a flat memory of bytes.  Addresses and
  sizes are words, so that pointers wrap as on the machine; the counting loops run
  \<open>unat count\<close> times.
\<close>

type_synonym 'w memory = "'w word \<Rightarrow> byte"

section \<open>The routines\<close>

text \<open>\<open>while (count--) *d++ = *s++;\<close>\<close>

fun copy_forward :: "nat \<Rightarrow> 'w::len word \<Rightarrow> 'w word \<Rightarrow> 'w memory \<Rightarrow> 'w memory" where
  "copy_forward 0 d s m = m"
| "copy_forward (Suc n) d s m = copy_forward n (d + 1) (s + 1) (m(d := m s))"

text \<open>\<open>while (count--) *--d = *--s;\<close>\<close>

fun copy_backward :: "nat \<Rightarrow> 'w::len word \<Rightarrow> 'w word \<Rightarrow> 'w memory \<Rightarrow> 'w memory" where
  "copy_backward 0 d s m = m"
| "copy_backward (Suc n) d s m = copy_backward n (d - 1) (s - 1) (m(d - 1 := m (s - 1)))"

definition c_memcpy :: "'w::len word \<Rightarrow> 'w word \<Rightarrow> 'w word \<Rightarrow> 'w memory \<Rightarrow> 'w memory" where
  "c_memcpy dest src count m = copy_forward (unat count) dest src m"

definition c_memmove :: "'w::len word \<Rightarrow> 'w word \<Rightarrow> 'w word \<Rightarrow> 'w memory \<Rightarrow> 'w memory" where
  "c_memmove dest src count m =
    (if dest = src \<or> count = 0 then m
     else if dest < src then copy_forward (unat count) dest src m
     else copy_backward (unat count) (dest + count) (src + count) m)"

fun fill :: "nat \<Rightarrow> 'w::len word \<Rightarrow> byte \<Rightarrow> 'w memory \<Rightarrow> 'w memory" where
  "fill 0 d v m = m"
| "fill (Suc n) d v m = fill n (d + 1) v (m(d := v))"

definition c_memset :: "'w::len word \<Rightarrow> 32 word \<Rightarrow> 'w word \<Rightarrow> 'w memory \<Rightarrow> 'w memory" where
  "c_memset dest v count m = fill (unat count) dest (ucast v) m"

fun compare_bytes :: "nat \<Rightarrow> 'w::len word \<Rightarrow> 'w word \<Rightarrow> 'w memory \<Rightarrow> int" where
  "compare_bytes 0 p q m = 0"
| "compare_bytes (Suc n) p q m =
     (if m p \<noteq> m q then if m p < m q then - 1 else 1 else compare_bytes n (p + 1) (q + 1) m)"

definition c_memcmp :: "'w::len word \<Rightarrow> 'w word \<Rightarrow> 'w word \<Rightarrow> 'w memory \<Rightarrow> int" where
  "c_memcmp buf1 buf2 count m = compare_bytes (unat count) buf1 buf2 m"

text \<open>The loops over strings need not end.\<close>

partial_function (option) find_nul :: "'w::len memory \<Rightarrow> 'w word \<Rightarrow> 'w word option" where
  "find_nul m s = (if m s = 0 then Some s else find_nul m (s + 1))"

definition c_strlen :: "'w::len memory \<Rightarrow> 'w word \<Rightarrow> 'w word option" where
  "c_strlen m str = map_option (\<lambda>s. s - str) (find_nul m str)"

partial_function (option) c_strcmp :: "'w::len memory \<Rightarrow> 'w word \<Rightarrow> 'w word \<Rightarrow> int option" where
  "c_strcmp m s1 s2 =
    (if m s1 \<noteq> 0 \<and> m s1 = m s2 then c_strcmp m (s1 + 1) (s2 + 1)
     else Some (uint (m s1) - uint (m s2)))"

partial_function (option) c_strcpy :: "'w::len word \<Rightarrow> 'w word \<Rightarrow> 'w memory \<Rightarrow> 'w memory option" where
  "c_strcpy d s m =
    (let m' = m(d := m s) in if m s \<noteq> 0 then c_strcpy (d + 1) (s + 1) m' else Some m')"

text \<open>
  The first loop of \<open>strncpy\<close>: the memory, the pointer and the count when it stops.  The
  terminator is written, but not counted.
\<close>

fun strncpy_copy :: "nat \<Rightarrow> 'w::len word \<Rightarrow> 'w word \<Rightarrow> 'w memory \<Rightarrow> 'w memory \<times> 'w word \<times> nat" where
  "strncpy_copy 0 d s m = (m, d, 0)"
| "strncpy_copy (Suc n) d s m =
     (let m' = m(d := m s)
      in if m s \<noteq> 0 then strncpy_copy n (d + 1) (s + 1) m' else (m', d + 1, Suc n))"

definition c_strncpy :: "'w::len word \<Rightarrow> 'w word \<Rightarrow> 'w word \<Rightarrow> 'w memory \<Rightarrow> 'w memory" where
  "c_strncpy dest src count m =
    (let (m', d, n) = strncpy_copy (unat count) dest src m in fill n d 0 m')"

section \<open>Copies\<close>

text \<open>The \<open>n\<close> addresses from \<open>p\<close>.\<close>

definition span :: "'w::len word \<Rightarrow> nat \<Rightarrow> 'w word set" where
  "span p n = (\<lambda>k. p + of_nat k) ` {..<n}"

lemma span_0 [simp]: "span p 0 = {}"
  by (simp add: span_def)

lemma span_Suc: "span p (Suc n) = insert p (span (p + 1) n)"
  by (auto simp: span_def image_iff lessThan_Suc_eq_insert_0 algebra_simps)

lemma span_offset: "k < n \<Longrightarrow> p + of_nat k \<in> span p n"
  by (auto simp: span_def)

lemma not_in_next_span:
  assumes "Suc n \<le> 2 ^ LENGTH('w)"
  shows "(p :: 'w::len word) \<notin> span (p + 1) n"
proof
  assume "p \<in> span (p + 1) n"
  then obtain k where k: "k < n" "p = p + 1 + of_nat k" by (auto simp: span_def)
  then have "(of_nat (Suc k) :: 'w word) = 0" by (simp add: algebra_simps)
  moreover have "Suc k < 2 ^ LENGTH('w)" using k(1) assms by simp
  ultimately show False by (metis Zero_not_Suc unat_0 unat_of_nat_small)
qed

lemma copy_forward_result:
  fixes d s :: "'w::len word"
  assumes "n \<le> 2 ^ LENGTH('w)" and "\<And>i j. i < j \<Longrightarrow> j < n \<Longrightarrow> d + of_nat i \<noteq> s + of_nat j"
  shows "(\<forall>k < n. copy_forward n d s m (d + of_nat k) = m (s + of_nat k))
    \<and> (\<forall>x. x \<notin> span d n \<longrightarrow> copy_forward n d s m x = m x)"
  using assms
proof (induction n arbitrary: d s m)
  case 0
  then show ?case by simp
next
  case (Suc n)
  let ?m = "m(d := m s)"
  have later: "d \<noteq> s + 1 + of_nat k" if "k < n" for k
    using Suc.prems(2) [of 0 "Suc k"] that by (simp add: algebra_simps)
  have sep: "d + 1 + of_nat i \<noteq> s + 1 + of_nat j" if "i < j" "j < n" for i j
    using Suc.prems(2) [of "Suc i" "Suc j"] that by (simp add: algebra_simps)
  have "n \<le> 2 ^ LENGTH('w)" using Suc.prems(1) by simp
  from Suc.IH [OF this sep]
  have IH: "\<forall>k < n. copy_forward n (d + 1) (s + 1) ?m (d + 1 + of_nat k) = ?m (s + 1 + of_nat k)"
    "\<forall>x. x \<notin> span (d + 1) n \<longrightarrow> copy_forward n (d + 1) (s + 1) ?m x = ?m x"
    by blast+
  have "copy_forward (Suc n) d s m (d + of_nat k) = m (s + of_nat k)" if "k < Suc n" for k
  proof (cases k)
    case 0
    then show ?thesis using IH(2) not_in_next_span [OF Suc.prems(1), of d] by simp
  next
    case (Suc i)
    then have "copy_forward n (d + 1) (s + 1) ?m (d + 1 + of_nat i) = ?m (s + 1 + of_nat i)"
      using IH(1) that by simp
    moreover have "?m (s + 1 + of_nat i) = m (s + 1 + of_nat i)" using later [of i] Suc that by auto
    ultimately show ?thesis using Suc by (simp add: algebra_simps)
  qed
  moreover have "copy_forward (Suc n) d s m x = m x" if "x \<notin> span d (Suc n)" for x
    using IH(2) that by (simp add: span_Suc)
  ultimately show ?case by blast
qed

text \<open>The backward loop, from the ends of the two ranges.\<close>

lemma copy_backward_result:
  fixes d s :: "'w::len word"
  assumes "n \<le> 2 ^ LENGTH('w)"
    and "\<And>i j. i < j \<Longrightarrow> j < n \<Longrightarrow> d - of_nat (Suc i) \<noteq> s - of_nat (Suc j)"
  shows "(\<forall>k < n. copy_backward n d s m (d - of_nat (Suc k)) = m (s - of_nat (Suc k)))
    \<and> (\<forall>x. (\<forall>k < n. x \<noteq> d - of_nat (Suc k)) \<longrightarrow> copy_backward n d s m x = m x)"
  using assms
proof (induction n arbitrary: d s m)
  case 0
  then show ?case by simp
next
  case (Suc n)
  let ?m = "m(d - 1 := m (s - 1))"
  have shift: "p - 1 - of_nat (Suc k) = p - of_nat (Suc (Suc k))" for p :: "'w word" and k
    by (simp add: algebra_simps)
  have sep: "d - 1 - of_nat (Suc i) \<noteq> s - 1 - of_nat (Suc j)" if "i < j" "j < n" for i j
    unfolding shift using Suc.prems(2) [of "Suc i" "Suc j"] that by simp
  have "n \<le> 2 ^ LENGTH('w)" using Suc.prems(1) by simp
  from Suc.IH [OF this sep, of ?m]
  have IH: "\<forall>k < n. copy_backward n (d - 1) (s - 1) ?m (d - of_nat (Suc (Suc k))) = ?m (s - of_nat (Suc (Suc k)))"
    "\<forall>x. (\<forall>k < n. x \<noteq> d - of_nat (Suc (Suc k))) \<longrightarrow> copy_backward n (d - 1) (s - 1) ?m x = ?m x"
    unfolding shift by blast+
  have first: "d - 1 \<noteq> d - of_nat (Suc (Suc k))" if "k < n" for k
  proof
    assume e: "d - 1 = d - of_nat (Suc (Suc k))"
    have "(of_nat (Suc k) :: 'w word) = (d - 1) - (d - of_nat (Suc (Suc k)))" by simp
    also have "\<dots> = 0" unfolding e by simp
    finally have "(of_nat (Suc k) :: 'w word) = 0" .
    moreover have "Suc k < 2 ^ LENGTH('w)" using Suc.prems(1) that by simp
    ultimately show False by (metis Zero_not_Suc unat_0 unat_of_nat_small)
  qed
  have "copy_backward (Suc n) d s m (d - of_nat (Suc k)) = m (s - of_nat (Suc k))" if "k < Suc n" for k
  proof (cases k)
    case 0
    then show ?thesis using IH(2) first by simp
  next
    case (Suc i)
    then have "copy_backward n (d - 1) (s - 1) ?m (d - of_nat (Suc (Suc i))) = ?m (s - of_nat (Suc (Suc i)))"
      using IH(1) that by simp
    moreover have "d - of_nat (Suc 0) \<noteq> s - of_nat (Suc (Suc i))"
      using Suc.prems(2) [of 0 "Suc i"] Suc that by simp
    ultimately show ?thesis using Suc by simp
  qed
  moreover have "copy_backward (Suc n) d s m x = m x" if x: "\<forall>k < Suc n. x \<noteq> d - of_nat (Suc k)" for x
  proof -
    have "x \<noteq> d - 1" using x [rule_format, of 0] by simp
    moreover have "\<forall>k < n. x \<noteq> d - of_nat (Suc (Suc k))" using x by blast
    ultimately show ?thesis using IH(2) by simp
  qed
  ultimately show ?case by blast
qed

text \<open>A range of \<open>n\<close> bytes that does not run over the end of the address space.\<close>

definition no_wrap :: "'w::len word \<Rightarrow> nat \<Rightarrow> bool" where
  "no_wrap p n \<longleftrightarrow> unat p + n \<le> 2 ^ LENGTH('w)"

lemma unat_plus_offset:
  fixes p :: "'w::len word"
  assumes "no_wrap p n" and "k < n"
  shows "unat (p + of_nat k) = unat p + k"
proof -
  have "unat p + k < 2 ^ LENGTH('w)" using assms by (simp add: no_wrap_def)
  then have "unat (of_nat k :: 'w word) = k" by (intro unat_of_nat_small) linarith
  then show ?thesis using \<open>unat p + k < 2 ^ LENGTH('w)\<close> by (simp add: unat_add_no_wrap)
qed

lemma no_wrap_size: "no_wrap (p :: 'w::len word) n \<Longrightarrow> n \<le> 2 ^ LENGTH('w)"
  by (simp add: no_wrap_def)

text \<open>
  C40: \<open>memmove\<close> copies the bytes the source had before the call, whether or not the two ranges
  overlap, and changes nothing else.
\<close>

theorem c_memmove_correct:
  fixes dest src :: "'w::len word"
  assumes "no_wrap dest (unat count)" and "no_wrap src (unat count)"
  shows "(\<forall>k < unat count. c_memmove dest src count m (dest + of_nat k) = m (src + of_nat k))
    \<and> (\<forall>x. x \<notin> span dest (unat count) \<longrightarrow> c_memmove dest src count m x = m x)"
proof -
  let ?n = "unat count"
  note d = unat_plus_offset [OF assms(1)] and s = unat_plus_offset [OF assms(2)]
  consider (same) "dest = src \<or> count = 0" | (forward) "dest < src" "count \<noteq> 0"
    | (backward) "src < dest" "count \<noteq> 0" by fastforce
  then show ?thesis
  proof cases
    case same
    then show ?thesis by (auto simp: c_memmove_def)
  next
    case forward
    have "dest + of_nat i \<noteq> src + of_nat j" if "i < j" "j < ?n" for i j
      using d [of i] s [of j] that forward(1) by (auto simp: word_less_nat_alt)
    from copy_forward_result [OF no_wrap_size [OF assms(1)] this] show ?thesis
      using forward by (simp add: c_memmove_def)
  next
    case backward
    have e: "p + count - of_nat (Suc i) = p + of_nat (?n - Suc i)" if "i < ?n" for p :: "'w word" and i
      using that by (simp add: of_nat_diff)
    have "dest + count - of_nat (Suc i) \<noteq> src + count - of_nat (Suc j)" if "i < j" "j < ?n" for i j
    proof
      assume "dest + count - of_nat (Suc i) = src + count - of_nat (Suc j)"
      then have "dest + of_nat (?n - Suc i) = src + of_nat (?n - Suc j)"
        using e [of i dest] e [of j src] that by (simp only:)
      then have "unat (dest + of_nat (?n - Suc i)) = unat (src + of_nat (?n - Suc j))"
        by (rule arg_cong)
      moreover have "unat (dest + of_nat (?n - Suc i)) = unat dest + (?n - Suc i)"
        by (rule d) (use that in simp)
      moreover have "unat (src + of_nat (?n - Suc j)) = unat src + (?n - Suc j)"
        by (rule s) (use that in simp)
      ultimately show False using that backward(1) unfolding word_less_nat_alt by linarith
    qed
    from copy_backward_result [OF no_wrap_size [OF assms(1)] this, of m]
    have r: "\<forall>k < ?n. copy_backward ?n (dest + count) (src + count) m (dest + count - of_nat (Suc k))
        = m (src + count - of_nat (Suc k))"
      "\<forall>x. (\<forall>k < ?n. x \<noteq> dest + count - of_nat (Suc k)) \<longrightarrow>
        copy_backward ?n (dest + count) (src + count) m x = m x" by blast+
    have "copy_backward ?n (dest + count) (src + count) m (dest + of_nat k) = m (src + of_nat k)" if "k < ?n" for k
      using r(1) [rule_format, of "?n - Suc k"] e [of "?n - Suc k"] that by simp
    moreover have "copy_backward ?n (dest + count) (src + count) m x = m x" if "x \<notin> span dest ?n" for x
    proof (rule r(2) [rule_format])
      fix k assume k: "k < ?n"
      then have "dest + of_nat (?n - Suc k) \<in> span dest ?n" by (intro span_offset) simp
      then show "x \<noteq> dest + count - of_nat (Suc k)" using e [OF k, of dest] that by metis
    qed
    moreover have "c_memmove dest src count m = copy_backward ?n (dest + count) (src + count) m"
      using backward by (auto simp: c_memmove_def)
    ultimately show ?thesis by simp
  qed
qed

section \<open>Fill and compare\<close>

lemma fill_result:
  fixes d :: "'w::len word"
  assumes "n \<le> 2 ^ LENGTH('w)"
  shows "fill n d v m x = (if x \<in> span d n then v else m x)"
  using assms
proof (induction n arbitrary: d m)
  case 0
  then show ?case by simp
next
  case (Suc n)
  have "n \<le> 2 ^ LENGTH('w)" using Suc.prems by simp
  then have "fill (Suc n) d v m x = (if x \<in> span (d + 1) n then v else (m(d := v)) x)"
    using Suc.IH by (simp only: fill.simps)
  then show ?case using not_in_next_span [OF Suc.prems, of d] by (auto simp: span_Suc)
qed

lemma c_memset_result: "c_memset dest v count m x = (if x \<in> span dest (unat count) then ucast v else m x)"
  unfolding c_memset_def by (rule fill_result) (simp add: less_imp_le)

text \<open>The bytes of a range, as a list.\<close>

definition bytes_at :: "'w::len memory \<Rightarrow> 'w word \<Rightarrow> nat \<Rightarrow> byte list" where
  "bytes_at m p n = map (\<lambda>k. m (p + of_nat k)) [0..<n]"

lemma bytes_at_Suc: "bytes_at m p (Suc n) = m p # bytes_at m (p + 1) n"
proof -
  have "map (\<lambda>k. m (p + of_nat k)) [0..<Suc n] = m p # map (\<lambda>k. m (p + of_nat (Suc k))) [0..<n]"
    unfolding upt_conv_Cons [OF zero_less_Suc] map_Suc_upt [symmetric] by (simp add: comp_def)
  then show ?thesis by (simp add: bytes_at_def add.assoc)
qed

lemma bytes_at_0 [simp]: "bytes_at m p 0 = []"
  by (simp add: bytes_at_def)

text \<open>The comparison of C: the first difference decides, as unsigned bytes.\<close>

fun lex_sign :: "byte list \<Rightarrow> byte list \<Rightarrow> int" where
  "lex_sign (a # as) (b # bs) = (if a \<noteq> b then if a < b then - 1 else 1 else lex_sign as bs)"
| "lex_sign _ _ = 0"

lemma c_memcmp_lex:
  "c_memcmp p q count m = lex_sign (bytes_at m p (unat count)) (bytes_at m q (unat count))"
proof -
  have "compare_bytes n p q m = lex_sign (bytes_at m p n) (bytes_at m q n)" for n
    by (induction n arbitrary: p q) (auto simp: bytes_at_Suc)
  then show ?thesis by (simp add: c_memcmp_def)
qed

section \<open>Strings\<close>

text \<open>\<open>cstring_at m p s\<close>: at \<open>p\<close> there are the characters \<open>s\<close>, none of them null, and a null.\<close>

fun cstring_at :: "'w::len memory \<Rightarrow> 'w word \<Rightarrow> cstring \<Rightarrow> bool" where
  "cstring_at m p [] \<longleftrightarrow> m p = 0"
| "cstring_at m p (c # cs) \<longleftrightarrow> c \<noteq> 0 \<and> m p = c \<and> cstring_at m (p + 1) cs"

lemma find_nul_cstring: "cstring_at m p s \<Longrightarrow> find_nul m p = Some (p + of_nat (length s))"
  by (induction s arbitrary: p) (simp_all add: find_nul.simps algebra_simps)

lemma c_strlen_result: "cstring_at m p s \<Longrightarrow> c_strlen m p = Some (of_nat (length s))"
  by (simp add: c_strlen_def find_nul_cstring)

text \<open>The difference of the first characters that differ; the end counts as 0.\<close>

fun char_diff :: "cstring \<Rightarrow> cstring \<Rightarrow> int" where
  "char_diff [] [] = 0"
| "char_diff (a # as) [] = uint a"
| "char_diff [] (b # bs) = - uint b"
| "char_diff (a # as) (b # bs) = (if a = b then char_diff as bs else uint a - uint b)"

lemma c_strcmp_diff:
  "cstring_at m p a \<Longrightarrow> cstring_at m q b \<Longrightarrow> c_strcmp m p q = Some (char_diff a b)"
  by (induction a b arbitrary: p q rule: char_diff.induct) (auto simp: c_strcmp.simps)

lemma char_diff_0: "0 \<notin> set a \<Longrightarrow> 0 \<notin> set b \<Longrightarrow> char_diff a b = 0 \<longleftrightarrow> a = b"
  by (induction a b rule: char_diff.induct) (auto simp: uint_0_iff simp flip: word_uint_eq_iff)

lemma cstring_at_no_nul: "cstring_at m p s \<Longrightarrow> 0 \<notin> set s"
  by (induction s arbitrary: p) auto

text \<open>
  \<open>strcmp\<close> ends on two terminated strings and is 0 exactly when they are equal: it decides
  the equality the loader's lookups and its search for natives use.
\<close>

theorem c_strcmp_decides:
  assumes "cstring_at m p a" and "cstring_at m q b"
  shows "\<exists>d. c_strcmp m p q = Some d \<and> (d = 0 \<longleftrightarrow> strcmp_eq a b)"
  using c_strcmp_diff [OF assms] char_diff_0 cstring_at_no_nul [OF assms(1)] cstring_at_no_nul [OF assms(2)]
  by (simp add: strcmp_eq_def)

section \<open>strncpy writes too much\<close>

lemma cstring_at_write:
  "cstring_at m p cs \<Longrightarrow> (\<forall>j \<le> length cs. x \<noteq> p + of_nat j) \<Longrightarrow> cstring_at (m(x := v)) p cs"
proof (induction cs arbitrary: p)
  case Nil
  then show ?case by simp
next
  case (Cons c cs)
  have "x \<noteq> p + 1 + of_nat j" if "j \<le> length cs" for j
    using Cons.prems(2) [rule_format, of "Suc j"] that by (simp add: algebra_simps)
  moreover have "x \<noteq> p" using Cons.prems(2) [rule_format, of 0] by simp
  ultimately show ?case using Cons by auto
qed

lemma strncpy_copy_short:
  "cstring_at m s cs \<Longrightarrow> length cs < n \<Longrightarrow> (\<forall>i \<le> length cs. \<forall>j \<le> length cs. d + of_nat i \<noteq> s + of_nat j) \<Longrightarrow>
   \<exists>m'. strncpy_copy n d s m = (m', d + of_nat (Suc (length cs)), n - length cs)"
proof (induction cs arbitrary: n d s m)
  case Nil
  then obtain n' where "n = Suc n'" by (cases n) auto
  then show ?case using Nil by simp
next
  case (Cons c cs)
  obtain n' where n: "n = Suc n'" "length cs < n'" using Cons.prems(2) by (cases n) auto
  have "d \<noteq> s + 1 + of_nat j" if "j \<le> length cs" for j
    using Cons.prems(3) [rule_format, of 0 "Suc j"] that by (simp add: algebra_simps)
  then have "cstring_at (m(d := m s)) (s + 1) cs"
    using cstring_at_write [of m "s + 1" cs d] Cons.prems(1) by simp
  moreover have "d + 1 + of_nat i \<noteq> s + 1 + of_nat j" if "i \<le> length cs" "j \<le> length cs" for i j
    using Cons.prems(3) [rule_format, of "Suc i" "Suc j"] that by (simp add: algebra_simps)
  ultimately have "\<exists>m'. strncpy_copy n' (d + 1) (s + 1) (m(d := m s)) =
      (m', d + 1 + of_nat (Suc (length cs)), n' - length cs)"
    using Cons.IH [of "m(d := m s)" "s + 1" n' "d + 1"] n(2) by blast
  then show ?case using Cons.prems(1) n by (auto simp: algebra_simps)
qed

text \<open>
  \<open>strncpy\<close> of a string shorter than \<open>count\<close> writes \<open>count + 1\<close> bytes: the byte after the
  destination becomes null, whatever it was.
\<close>

theorem c_strncpy_overrun:
  fixes dest src :: "'w::len word"
  assumes "cstring_at m src cs" and "length cs < unat count"
    and "\<forall>i \<le> length cs. \<forall>j \<le> length cs. dest + of_nat i \<noteq> src + of_nat j"
  shows "c_strncpy dest src count m (dest + count) = 0"
proof -
  let ?n = "unat count - length cs"
  obtain m' where m': "strncpy_copy (unat count) dest src m = (m', dest + of_nat (Suc (length cs)), ?n)"
    using strncpy_copy_short [OF assms] by blast
  have "?n \<le> 2 ^ LENGTH('w)" by (simp add: le_diff_conv less_imp_le trans_le_add1)
  have "Suc (length cs) + (?n - 1) = unat count" using assms(2) by simp
  then have "dest + count = dest + of_nat (Suc (length cs) + (?n - 1))" by simp
  also have "\<dots> = dest + of_nat (Suc (length cs)) + of_nat (?n - 1)" by (simp only: of_nat_add add.assoc)
  also have "\<dots> \<in> span (dest + of_nat (Suc (length cs))) ?n" by (rule span_offset) (use assms(2) in simp)
  finally show ?thesis
    using fill_result [OF \<open>?n \<le> 2 ^ LENGTH('w)\<close>, of "dest + of_nat (Suc (length cs))" 0 m' "dest + count"]
    by (simp add: c_strncpy_def m' del: of_nat_Suc)
qed

section \<open>Examples\<close>

text \<open>The byte at each address is the address.\<close>

definition sample_bytes :: "32 memory" where
  "sample_bytes x = ucast x"

theorem c_memmove_correct_witness:
  "c_memmove 0x11 0x10 3 sample_bytes 0x13 = 0x12 \<and> c_memmove 0x11 0x10 3 sample_bytes 0x14 = 0x14"
proof -
  have n: "no_wrap (0x11 :: 32 word) (unat (3 :: 32 word))" "no_wrap (0x10 :: 32 word) (unat (3 :: 32 word))"
    by (simp_all add: no_wrap_def)
  have "span (0x11 :: 32 word) 3 = {0x11, 0x12, 0x13}"
    unfolding numeral_3_eq_3 span_Suc span_0 by simp
  then have "0x14 \<notin> span (0x11 :: 32 word) 3" by simp
  then show ?thesis
    using c_memmove_correct [OF n, of sample_bytes] by (auto simp: sample_bytes_def dest: spec [of _ 2])
qed

definition sample_strings :: "32 memory" where
  "sample_strings = (\<lambda>_. 0xFF)(0x10 := 65, 0x11 := 0, 0x20 := 65, 0x21 := 66, 0x22 := 0)"

theorem c_strcmp_decides_witness:
  "\<exists>d. c_strcmp sample_strings 0x10 0x20 = Some d \<and> d \<noteq> 0"
proof -
  have "cstring_at sample_strings 0x10 [65]" "cstring_at sample_strings 0x20 [65, 66]"
    by (simp_all add: sample_strings_def)
  from c_strcmp_decides [OF this] show ?thesis by (auto simp: strcmp_eq_def)
qed

text \<open>Copying \<open>A\<close> with a count of 4 to 0x30 clears the byte at 0x34.\<close>

theorem c_strncpy_overrun_witness:
  "c_strncpy 0x30 0x10 4 sample_strings 0x34 = 0 \<and> sample_strings 0x34 = 0xFF"
proof -
  have "cstring_at sample_strings 0x10 [65]" by (simp add: sample_strings_def)
  from c_strncpy_overrun [OF this, of 4 "0x30"]
  show ?thesis by (auto simp: sample_strings_def le_Suc_eq)
qed

end
