(* ===== verification/Runtime.thy ===== *)
theory Runtime
  imports Complex_Main Kernel_Stubs
begin

text \<open>
  The rest of the C runtime of \<open>PawnIO/kernel_stubs.c\<close>: \<open>ceil\<close> and \<open>floor\<close>, \<open>malloc\<close> and
  \<open>free\<close> as calls of the pool, and the routines the compiler calls.
\<close>

section \<open>Doubles\<close>

text \<open>
  A finite \<open>double\<close> is a number with 53 significant bits; there is no negative zero.  Its
  conversion to \<open>long long\<close> truncates, and has no defined result outside the type.
\<close>

definition finite_double :: "rat \<Rightarrow> bool" where
  "finite_double x \<longleftrightarrow>
    (\<exists>(m :: int) (k :: nat). \<bar>m\<bar> < 2 ^ 53 \<and> (x = of_int m * 2 ^ k \<or> x = of_int m / 2 ^ k))"

definition to_long_long :: "rat \<Rightarrow> int option" where
  "to_long_long x =
    (let i = (if 0 \<le> x then \<lfloor>x\<rfloor> else \<lceil>x\<rceil>) in if - (2 ^ 63) \<le> i \<and> i < 2 ^ 63 then Some i else None)"

text \<open>The conversion back rounds to 53 bits, to nearest and to even.\<close>

fun excess_bits :: "nat \<Rightarrow> nat" where
  "excess_bits n = (if n < 2 ^ 53 then 0 else Suc (excess_bits (n div 2)))"

declare excess_bits.simps [simp del]

definition double_of_int :: "int \<Rightarrow> rat" where
  "double_of_int i =
    (let k = excess_bits (nat \<bar>i\<bar>); q = i div 2 ^ k; r = i mod 2 ^ k
     in of_int ((if 2 * r < 2 ^ k \<or> 2 * r = 2 ^ k \<and> even q then q else q + 1) * 2 ^ k))"

text \<open>\<open>ceil\<close> and \<open>floor\<close>; the sum and the difference are \<open>long long\<close>.\<close>

definition c_ceil :: "rat \<Rightarrow> rat option" where
  "c_ceil x = do {
     i \<leftarrow> to_long_long x;
     if x > double_of_int i
     then (if i + 1 < 2 ^ 63 then Some (double_of_int (i + 1)) else None)
     else Some (double_of_int i) }"

definition c_floor :: "rat \<Rightarrow> rat option" where
  "c_floor x = do {
     i \<leftarrow> to_long_long x;
     if x < double_of_int i
     then (if - (2 ^ 63) \<le> i - 1 then Some (double_of_int (i - 1)) else None)
     else Some (double_of_int i) }"

lemma excess_bits_dvd: "m < 2 ^ 53 \<Longrightarrow> 2 ^ excess_bits (m * 2 ^ k) dvd m * 2 ^ k"
proof (induction k)
  case 0
  then show ?case by (simp add: excess_bits.simps)
next
  case (Suc k)
  have "m * 2 ^ Suc k div 2 = m * 2 ^ k" by simp
  then have e: "excess_bits (m * 2 ^ Suc k) = (if m * 2 ^ Suc k < 2 ^ 53 then 0 else Suc (excess_bits (m * 2 ^ k)))"
    by (subst excess_bits.simps) (simp only:)
  have "2 ^ Suc (excess_bits (m * 2 ^ k)) dvd m * 2 ^ Suc k"
    using Suc by (simp add: mult.assoc [symmetric] mult.commute)
  then show ?case unfolding e by simp
qed

lemma double_of_int_exact:
  assumes "2 ^ excess_bits (nat \<bar>i\<bar>) dvd i"
  shows "double_of_int i = of_int i"
proof -
  let ?k = "excess_bits (nat \<bar>i\<bar>)"
  have "i div 2 ^ ?k * 2 ^ ?k = i" "i mod 2 ^ ?k = 0" using assms by simp_all
  then show ?thesis unfolding double_of_int_def Let_def by (simp only: mult_zero_right zero_less_power zero_less_numeral simp_thms if_True)
qed

lemma double_of_int_small:
  assumes "\<bar>i\<bar> < 2 ^ 53"
  shows "double_of_int i = of_int i"
proof -
  have "nat \<bar>i\<bar> < 2 ^ 53" using assms by (simp add: nat_less_iff)
  then show ?thesis by (intro double_of_int_exact) (simp add: excess_bits.simps)
qed

lemma double_of_int_near: "- (2 ^ 52) - 1 \<le> i \<Longrightarrow> i \<le> 2 ^ 52 + 1 \<Longrightarrow> double_of_int i = of_int i"
  by (rule double_of_int_small) (simp add: abs_less_iff)

lemma double_of_int_scaled:
  assumes "\<bar>m\<bar> < 2 ^ 53"
  shows "double_of_int (m * 2 ^ k) = of_int (m * 2 ^ k)"
proof (rule double_of_int_exact)
  have "nat \<bar>m * 2 ^ k\<bar> = nat \<bar>m\<bar> * 2 ^ k" by (simp add: abs_mult nat_mult_distrib nat_power_eq)
  moreover have "nat \<bar>m\<bar> < 2 ^ 53" using assms by (simp add: nat_less_iff)
  ultimately have "2 ^ excess_bits (nat \<bar>m * 2 ^ k\<bar>) dvd nat \<bar>m * 2 ^ k\<bar>"
    using excess_bits_dvd [of "nat \<bar>m\<bar>" k] by simp
  then have "int (2 ^ excess_bits (nat \<bar>m * 2 ^ k\<bar>)) dvd int (nat \<bar>m * 2 ^ k\<bar>)" by (simp only: int_dvd_int_iff)
  then show "2 ^ excess_bits (nat \<bar>m * 2 ^ k\<bar>) dvd m * 2 ^ k" by simp
qed

text \<open>A double is an integer that converts back exactly, or it is small.\<close>

lemma finite_double_cases:
  assumes "finite_double x"
  obtains (integer) j where "x = of_int j" and "double_of_int j = of_int j"
    | (small) "\<bar>x\<bar> < 2 ^ 52"
proof -
  obtain m k where m: "\<bar>m\<bar> < 2 ^ 53" "x = of_int m * 2 ^ k \<or> x = of_int m / 2 ^ k"
    using assms unfolding finite_double_def by blast
  show ?thesis
  proof (cases "x = of_int m * 2 ^ k")
    case True
    then show ?thesis using integer [of "m * 2 ^ k"] double_of_int_scaled [OF m(1), of k] by simp
  next
    case False
    then have x: "x = of_int m / 2 ^ k" "k \<noteq> 0" using m(2) by (auto intro: ccontr)
    have "\<bar>x\<bar> = of_int \<bar>m\<bar> / 2 ^ k" by (simp add: x(1))
    also have "\<dots> \<le> of_int \<bar>m\<bar> / 2" using x(2) by (intro divide_left_mono) (auto simp: self_le_power)
    also have "\<dots> < 2 ^ 52"
    proof -
      have "(of_int \<bar>m\<bar> :: rat) < of_int (2 ^ 53)" using m(1) by (simp only: of_int_less_iff)
      then show ?thesis by simp
    qed
    finally show ?thesis by (rule small)
  qed
qed

lemma small_floor:
  fixes x :: rat
  assumes "\<bar>x\<bar> < 2 ^ 52"
  shows "- (2 ^ 52) \<le> \<lfloor>x\<rfloor>" and "\<lfloor>x\<rfloor> < 2 ^ 52" and "- (2 ^ 52) < \<lceil>x\<rceil>" and "\<lceil>x\<rceil> \<le> 2 ^ 52"
proof -
  have b: "of_int (- (2 ^ 52)) \<le> x" "x < of_int (2 ^ 52)" "of_int (- (2 ^ 52)) < x" "x \<le> of_int (2 ^ 52)"
    using assms by (auto simp: abs_less_iff)
  show "- (2 ^ 52) \<le> \<lfloor>x\<rfloor>" using b(1) by (simp only: le_floor_iff)
  show "\<lfloor>x\<rfloor> < 2 ^ 52" using b(2) by (simp only: floor_less_iff)
  show "- (2 ^ 52) < \<lceil>x\<rceil>" using b(3) by (simp only: less_ceiling_iff)
  show "\<lceil>x\<rceil> \<le> 2 ^ 52" using b(4) by (simp only: ceiling_le_iff)
qed

lemma c_ceil_integer:
  assumes "double_of_int j = of_int j" and "- (2 ^ 63) \<le> j" and "j < 2 ^ 63"
  shows "c_ceil (of_int j) = Some (of_int j)" and "c_floor (of_int j) = Some (of_int j)"
  using assms by (simp_all add: c_ceil_def c_floor_def to_long_long_def)

lemma to_long_long_small:
  assumes "\<bar>x\<bar> < 2 ^ 52"
  shows "to_long_long x = Some (if 0 \<le> x then \<lfloor>x\<rfloor> else \<lceil>x\<rceil>)"
  using small_floor [OF assms] by (simp add: to_long_long_def Let_def)

lemma c_ceil_small:
  assumes "\<bar>x\<bar> < 2 ^ 52"
  shows "c_ceil x = Some (of_int \<lceil>x\<rceil>)"
proof -
  note b = small_floor [OF assms]
  have d: "double_of_int \<lfloor>x\<rfloor> = of_int \<lfloor>x\<rfloor>" "double_of_int \<lceil>x\<rceil> = of_int \<lceil>x\<rceil>" "double_of_int (\<lfloor>x\<rfloor> + 1) = of_int (\<lfloor>x\<rfloor> + 1)"
    by (rule double_of_int_near; insert b; linarith)+
  show ?thesis
  proof (cases "0 \<le> x \<and> x > of_int \<lfloor>x\<rfloor>")
    case True
    then have "\<lceil>x\<rceil> = \<lfloor>x\<rfloor> + 1" by (simp add: ceiling_altdef)
    then show ?thesis using True b d by (simp add: c_ceil_def to_long_long_small [OF assms])
  next
    case False
    then have "x = of_int \<lfloor>x\<rfloor>" if "0 \<le> x" using that of_int_floor_le [of x] by linarith
    then have c: "\<lceil>x\<rceil> = (if 0 \<le> x then \<lfloor>x\<rfloor> else \<lceil>x\<rceil>)" by (metis ceiling_of_int)
    have "\<not> x > of_int \<lceil>x\<rceil>" using le_of_int_ceiling [of x] by linarith
    then show ?thesis using c d by (simp add: c_ceil_def to_long_long_small [OF assms] split: if_splits)
  qed
qed

lemma c_floor_small:
  assumes "\<bar>x\<bar> < 2 ^ 52"
  shows "c_floor x = Some (of_int \<lfloor>x\<rfloor>)"
proof -
  note b = small_floor [OF assms]
  have d: "double_of_int \<lfloor>x\<rfloor> = of_int \<lfloor>x\<rfloor>" "double_of_int \<lceil>x\<rceil> = of_int \<lceil>x\<rceil>" "double_of_int (\<lceil>x\<rceil> - 1) = of_int (\<lceil>x\<rceil> - 1)"
    by (rule double_of_int_near; insert b; linarith)+
  show ?thesis
  proof (cases "\<not> 0 \<le> x \<and> x < of_int \<lceil>x\<rceil>")
    case True
    then have "\<lfloor>x\<rfloor> = \<lceil>x\<rceil> - 1" by (auto simp: ceiling_altdef)
    then show ?thesis using True b d by (simp add: c_floor_def to_long_long_small [OF assms])
  next
    case False
    then have "x = of_int \<lceil>x\<rceil>" if "\<not> 0 \<le> x" using that le_of_int_ceiling [of x] by linarith
    then have c: "\<lfloor>x\<rfloor> = (if 0 \<le> x then \<lfloor>x\<rfloor> else \<lceil>x\<rceil>)" by (metis floor_of_int)
    have "\<not> x < of_int \<lfloor>x\<rfloor>" using of_int_floor_le [of x] by linarith
    then show ?thesis using c d by (simp add: c_floor_def to_long_long_small [OF assms] split: if_splits)
  qed
qed

text \<open>
  C36: \<open>ceil\<close> and \<open>floor\<close> are the mathematical functions on every finite double between
  \<open>- 2 ^ 63\<close> and \<open>2 ^ 63\<close>: the conversions to \<open>long long\<close> and back lose nothing there.  On
  any other double, which is an integer and should come back as it is, they have no defined
  result.
\<close>

theorem ceil_floor_correct:
  assumes "finite_double x"
  shows "if - (2 ^ 63) \<le> x \<and> x < 2 ^ 63
    then c_ceil x = Some (of_int \<lceil>x\<rceil>) \<and> c_floor x = Some (of_int \<lfloor>x\<rfloor>)
    else of_int \<lfloor>x\<rfloor> = x \<and> c_ceil x = None \<and> c_floor x = None"
  using assms
proof (cases rule: finite_double_cases)
  case (integer j)
  have "- (2 ^ 63) \<le> x \<longleftrightarrow> of_int (- (2 ^ 63)) \<le> (of_int j :: rat)" "x < 2 ^ 63 \<longleftrightarrow> (of_int j :: rat) < of_int (2 ^ 63)"
    by (simp_all add: integer(1))
  then have "- (2 ^ 63) \<le> x \<longleftrightarrow> - (2 ^ 63) \<le> j" "x < 2 ^ 63 \<longleftrightarrow> j < 2 ^ 63"
    by (simp_all only: of_int_le_iff of_int_less_iff)
  then show ?thesis
    using c_ceil_integer [OF integer(2)] integer(1) by (auto simp: c_ceil_def c_floor_def to_long_long_def)
next
  case small
  then show ?thesis using c_ceil_small c_floor_small by (auto simp: abs_less_iff)
qed

section \<open>The pool\<close>

text \<open>
  The calls of the pool that the routines make, each with its tag; a null pointer is 0.
  \<open>pool\<close> is the answer of the allocation routine.
\<close>

datatype 'p pool_call = ExAllocate u32 'p | ExFree u32 'p

definition PAWNIO_POOL_TAG :: u32 where "PAWNIO_POOL_TAG = 0x6E776150"

definition c_malloc :: "('w::len word \<Rightarrow> 'w word) \<Rightarrow> 'w word \<Rightarrow> 'w word \<times> 'w word pool_call list" where
  "c_malloc pool bytes =
    (if bytes = 0 then (0, [])
     else let p = pool bytes in (p, if p = 0 then [] else [ExAllocate PAWNIO_POOL_TAG p]))"

definition c_free :: "'w::len word \<Rightarrow> 'w word pool_call list" where
  "c_free ptr = (if ptr \<noteq> 0 then [ExFree PAWNIO_POOL_TAG ptr] else [])"

text \<open>
  The live blocks with their tags.  The kernel stops when a block is not live or was allocated
  with another tag.
\<close>

fun run_calls :: "'p pool_call list \<Rightarrow> (u32 \<times> 'p) list \<Rightarrow> (u32 \<times> 'p) list option" where
  "run_calls [] live = Some live"
| "run_calls (ExAllocate tag p # cs) live = run_calls cs ((tag, p) # live)"
| "run_calls (ExFree tag p # cs) live =
     (if (tag, p) \<in> set live then run_calls cs (remove1 (tag, p) live) else None)"

interpretation calls: trace_runner run_calls
proof
  show "run_calls (e # es) live = Option.bind (run_calls [e] live) (run_calls es)"
    for e :: "'a pool_call" and es live
    by (cases e) auto
qed simp

lemma malloc_free:
  "run_calls (snd (c_malloc pool bytes) @ c_free (fst (c_malloc pool bytes))) live = Some live"
  by (simp add: c_malloc_def c_free_def Let_def)

section \<open>Routines the compiler calls\<close>

text \<open>A stop of the system.\<close>

datatype bug_check = KERNEL_MODE_EXCEPTION_NOT_HANDLED "u64 list"

definition callnewh :: "'w::len word \<Rightarrow> 32 word" where
  "callnewh bytes = 0"

definition std_exception_copy :: "'w::len word \<Rightarrow> 'w word \<Rightarrow> 'w memory \<Rightarrow> 'w memory" where
  "std_exception_copy src dest m = m"

definition std_exception_destroy :: "'w::len word \<Rightarrow> 'w memory \<Rightarrow> 'w memory" where
  "std_exception_destroy e m = m"

definition CxxThrowException :: "'w::len word \<Rightarrow> 'w word \<Rightarrow> bug_check" where
  "CxxThrowException e info = KERNEL_MODE_EXCEPTION_NOT_HANDLED [0xC0000005, 0, 0, 0]"

definition invoke_watson :: "'w::len word \<Rightarrow> 'w word \<Rightarrow> 'w word \<Rightarrow> u32 \<Rightarrow> 'w word \<Rightarrow> bug_check" where
  "invoke_watson expr func file line reserved =
    KERNEL_MODE_EXCEPTION_NOT_HANDLED [0xDEADBEEF, ucast line, 0, 0]"

definition c_atexit :: "'w::len word \<Rightarrow> 32 word" where
  "c_atexit func = 0"

definition dllonexit :: "'w::len word \<Rightarrow> 'w word \<Rightarrow> 'w word \<Rightarrow> 'w word" where
  "dllonexit func start stop = func"

section \<open>Examples\<close>

theorem ceil_floor_correct_witness:
  "c_ceil (5 / 2) = Some 3 \<and> c_floor (5 / 2) = Some 2 \<and> c_ceil (2 ^ 64) = None"
proof -
  have "finite_double (5 / 2)" unfolding finite_double_def by (rule exI [of _ 5], rule exI [of _ 1]) simp
  note half = ceil_floor_correct [OF this]
  have "finite_double (2 ^ 64)" unfolding finite_double_def by (rule exI [of _ 1], rule exI [of _ 64]) simp
  note large = ceil_floor_correct [OF this]
  have "\<lceil>5 / 2 :: rat\<rceil> = 3" "\<lfloor>5 / 2 :: rat\<rfloor> = 2" by (simp_all add: ceiling_eq_iff floor_eq_iff)
  then show ?thesis using half large by simp
qed

end
