(* ===== verification/Storage.thy ===== *)
theory Storage
  imports Callbacks
begin

text \<open>
  Where the objects of the containers live: the pool memory of the nodes, through the allocator of
  \<open>PawnIO/kallocator.h\<close>, and the static storage of the lists themselves, through
  \<open>PawnIO/uninitialized_storage.h\<close>.  The operations of \<open>klist\<close> that allocate and free are here again
  with the calls of the allocator, and shown to implement those of \<open>Klist\<close>.
\<close>

section \<open>The allocator\<close>

text \<open>The memory that is allocated, with its tag and its size.\<close>

type_synonym ('p, 'w) pool = "'p \<Rightarrow> (32 word \<times> 'w word) option"

text \<open>The characters \<open>'olAk'\<close>.\<close>

definition k_tag :: "32 word" where
  "k_tag = 0x6F6C416B"

text \<open>
  \<open>allocate\<close>, where \<open>r\<close> is the answer of \<open>ExAllocatePoolZero\<close>, null when there is no memory.  The
  size is a product of machine words and may wrap.
\<close>

definition kallocator_allocate :: "'p option \<Rightarrow> 'w::len word \<Rightarrow> 'w word \<Rightarrow> ('p, 'w) pool \<Rightarrow> 'p option \<times> ('p, 'w) pool" where
  "kallocator_allocate r n size_of P =
    (let bytes = n * size_of
     in case r of None \<Rightarrow> (None, P) | Some p \<Rightarrow> (Some p, P(p \<mapsto> (k_tag, bytes))))"

text \<open>The block has room for \<open>n\<close> objects unless the product wraps; then it is smaller.\<close>

lemma kallocator_room:
  fixes n size_of :: "'w::len word"
  shows "unat (n * size_of) = unat n * unat size_of \<longleftrightarrow> unat n * unat size_of < 2 ^ LENGTH('w)"
    and "unat (n * size_of) \<le> unat n * unat size_of"
  by (simp_all add: unat_word_ariths mod_eq_self_iff_div_eq_0 div_eq_0_iff)

text \<open>\<open>None\<close>: the system stops, as memory is freed that is not allocated, or with another tag.\<close>

definition kallocator_deallocate :: "'p option \<Rightarrow> 'w::len word \<Rightarrow> ('p, 'w) pool \<Rightarrow> ('p, 'w) pool option" where
  "kallocator_deallocate p n P =
    (case p of
       None \<Rightarrow> Some P
     | Some a \<Rightarrow>
         (case P a of
            None \<Rightarrow> None
          | Some (tag, bytes) \<Rightarrow> if tag = k_tag then Some (P(a := None)) else None))"

text \<open>
  \<open>construct\<close> and \<open>destroy\<close>: an object is made in allocated memory, and only an object is destroyed.
\<close>

definition kallocator_construct :: "'p \<Rightarrow> 'v \<Rightarrow> ('p, 'v) lheap \<Rightarrow> ('p, 'w::len) pool \<Rightarrow> ('p, 'v) lheap option" where
  "kallocator_construct p v h P = (if P p = None then None else Some (h\<lparr>node_value := (node_value h)(p := Some v)\<rparr>))"

definition kallocator_destroy :: "'p \<Rightarrow> ('p, 'v) lheap \<Rightarrow> ('p, 'v) lheap option" where
  "kallocator_destroy p h = (if node_value h p = None then None else Some (h\<lparr>node_value := (node_value h)(p := None)\<rparr>))"

text \<open>All allocators compare equal: any of them frees what another one allocated.\<close>

definition kallocator_eq :: "'a \<Rightarrow> 'b \<Rightarrow> bool" where
  "kallocator_eq a b = True"

section \<open>The list with its memory\<close>

text \<open>\<open>size_of\<close> is the size of a node.\<close>

definition pool_emplace ::
  "('p, 'v) list_prims \<Rightarrow> 'w::len word \<Rightarrow> 'p \<Rightarrow> 'p \<Rightarrow> 'v \<Rightarrow> 'p option \<Rightarrow> ('p, 'v) lheap \<Rightarrow> ('p, 'w) pool \<Rightarrow>
   ('p \<times> ('p, 'v) lheap \<times> ('p, 'w) pool) option"
where
  "pool_emplace w size_of head pos v r h P =
    (let (node, P1) = kallocator_allocate r 1 size_of P
     in case node of
          None \<Rightarrow> Some (head, h, P1)
        | Some n \<Rightarrow> do {
            h1 \<leftarrow> kallocator_construct n v h P1;
            h2 \<leftarrow> insert_head_list w (blink h1 pos) n h1;
            Some (n, h2, P1) })"

definition pool_erase ::
  "('p, 'v) list_prims \<Rightarrow> 'p \<Rightarrow> ('p, 'v) lheap \<Rightarrow> ('p, 'w::len) pool \<Rightarrow>
   ('p \<times> ('p, 'v) lheap \<times> ('p, 'w) pool) option"
where
  "pool_erase w pos h P =
    (let nxt = flink h pos
     in do {
       h1 \<leftarrow> remove_entry_list w pos h;
       h2 \<leftarrow> kallocator_destroy pos h1;
       P' \<leftarrow> kallocator_deallocate (Some pos) 1 P;
       Some (nxt, h2, P') })"

partial_function (option) pool_clear ::
  "('p, 'v) list_prims \<Rightarrow> 'p \<Rightarrow> ('p, 'v) lheap \<Rightarrow> ('p, 'w::len) pool \<Rightarrow> (('p, 'v) lheap \<times> ('p, 'w) pool) option"
where
  "pool_clear w head h P =
    (if klist_empty w head h then Some (h, P)
     else Option.bind (pool_erase w (klist_begin head h) h P) (\<lambda>(_, h', P'). pool_clear w head h' P'))"

text \<open>Registrations and removals, as in \<open>run_regs\<close>.\<close>

fun run_pool ::
  "('p, 'cb) list_prims \<Rightarrow> 'w::len word \<Rightarrow> 'p \<Rightarrow> ('p, 'cb) reg_op list \<Rightarrow> ('p, 'cb) lheap \<Rightarrow> ('p, 'w) pool \<Rightarrow>
   (('p, 'cb) lheap \<times> ('p, 'w) pool) option"
where
  "run_pool w size_of head [] h P = Some (h, P)"
| "run_pool w size_of head (Register cb r # ops) h P =
     do { (_, h', P') \<leftarrow> pool_emplace w size_of head (klist_begin head h) cb r h P;
          run_pool w size_of head ops h' P' }"
| "run_pool w size_of head (Unregister None # ops) h P = run_pool w size_of head ops h P"
| "run_pool w size_of head (Unregister (Some e) # ops) h P =
     do { (_, h', P') \<leftarrow> pool_erase w e h P; run_pool w size_of head ops h' P' }"

section \<open>The memory implements the list\<close>

text \<open>Leaving the memory out, the operations are those of the list.\<close>

lemma pool_emplace_refines:
  "map_option (\<lambda>(it, h', P'). (it, h')) (pool_emplace w size_of head pos v r h P) = klist_emplace w head pos v r h"
proof (cases r)
  case (Some n)
  then show ?thesis
    by (cases "insert_head_list w (blink h pos) n (h\<lparr>node_value := (node_value h)(n := Some v)\<rparr>)")
      (simp_all add: pool_emplace_def klist_emplace_def kallocator_allocate_def kallocator_construct_def Let_def)
qed (simp add: pool_emplace_def klist_emplace_def kallocator_allocate_def)

lemma pool_emplace_memory:
  assumes "pool_emplace w size_of head pos v r h P = Some (it, h', P')"
  shows "P' = (case r of None \<Rightarrow> P | Some n \<Rightarrow> P(n \<mapsto> (k_tag, size_of)))"
  using assms by (cases r) (auto simp: pool_emplace_def kallocator_allocate_def Let_def bind_eq_Some_conv)

lemma pool_erase_refines:
  assumes "P pos = Some (k_tag, b)"
  shows "pool_erase w pos h P = map_option (\<lambda>(it, h'). (it, h', P(pos := None))) (klist_erase w pos h)"
  using assms
  by (cases "remove_entry_list w pos h") (simp_all add: pool_erase_def klist_erase_def kallocator_deallocate_def kallocator_destroy_def Let_def)

text \<open>The nodes of the list are allocated, besides what was before.\<close>

definition owns :: "('p, 'w::len) pool \<Rightarrow> 'w word \<Rightarrow> 'p list \<Rightarrow> ('p, 'w) pool \<Rightarrow> bool" where
  "owns P0 size_of es P \<longleftrightarrow> (\<forall>p. P p = (if p \<in> set es then Some (k_tag, size_of) else P0 p))
     \<and> (\<forall>e \<in> set es. P0 e = None)"

lemma pool_emplace_owns:
  assumes w: "prims_ok w" and r: "ring head h es" and o: "owns P0 size_of es P"
    and n: "n \<notin> set (head # es)" "P0 n = None"
  shows "\<exists>h' P'. pool_emplace w size_of head (klist_begin head h) v (Some n) h P = Some (n, h', P')
    \<and> klist_emplace_front w head v (Some n) h = Some (n, h')
    \<and> ring head h' (n # es) \<and> owns P0 size_of (n # es) P'"
proof -
  obtain h' where h': "klist_emplace w head (klist_begin head h) v (Some n) h = Some (n, h')" "ring head h' (n # es)"
    using klist_emplace_ring [OF w, of head h "[]" es n "klist_begin head h" v] r n(1) ring_begin [OF r] by auto
  then obtain P' where P': "pool_emplace w size_of head (klist_begin head h) v (Some n) h P = Some (n, h', P')"
    using pool_emplace_refines [of w size_of head "klist_begin head h" v "Some n" h P] by auto
  have "owns P0 size_of (n # es) P'"
    using pool_emplace_memory [OF P'] o n by (auto simp: owns_def)
  then show ?thesis using h' P' by (simp add: klist_emplace_front_def)
qed

lemma pool_erase_owns:
  assumes w: "prims_ok w" and r: "ring head h (xs @ e # ys)" and o: "owns P0 size_of (xs @ e # ys) P"
  shows "\<exists>h' P'. pool_erase w e h P = Some (hd (ys @ [head]), h', P')
    \<and> klist_erase w e h = Some (hd (ys @ [head]), h') \<and> ring head h' (xs @ ys) \<and> owns P0 size_of (xs @ ys) P'"
proof -
  obtain h' where h': "klist_erase w e h = Some (hd (ys @ [head]), h')" "ring head h' (xs @ ys)"
    using klist_erase_ring [OF w r] by blast
  have e: "P e = Some (k_tag, size_of)" using o by (simp add: owns_def)
  have "e \<notin> set (xs @ ys)" using r by (auto simp: ring_def)
  then have "owns P0 size_of (xs @ ys) (P(e := None))" using o by (auto simp: owns_def)
  then show ?thesis using h' pool_erase_refines [where P = P and pos = e, OF e, of w h] by simp
qed

lemma pool_clear_owns:
  assumes "prims_ok w"
  shows "ring head h es \<Longrightarrow> owns P0 size_of es P \<Longrightarrow> \<exists>h'. pool_clear w head h P = Some (h', P0) \<and> ring head h' []"
proof (induction es arbitrary: h P)
  case Nil
  have "P = P0" using Nil(2) by (auto simp: owns_def)
  then show ?case using klist_empty_ring [OF assms Nil(1)] Nil(1) by (subst pool_clear.simps) auto
next
  case (Cons e es)
  obtain h1 P1 where h1: "pool_erase w e h P = Some (hd (es @ [head]), h1, P1)" "ring head h1 es" "owns P0 size_of es P1"
    using pool_erase_owns [OF assms, of head h "[]" e es P0 size_of P] Cons.prems by auto
  then show ?case
    using Cons.IH [OF h1(2,3)] klist_empty_ring [OF assms Cons.prems(1)] ring_begin [OF Cons.prems(1)]
    by (subst pool_clear.simps) simp
qed

fun given_memory :: "('p, 'cb) reg_op \<Rightarrow> 'p option" where
  "given_memory (Register cb r) = r"
| "given_memory (Unregister e) = None"

lemma filter_other: "e \<notin> set zs \<Longrightarrow> filter (\<lambda>x. x \<noteq> e) zs = zs"
  by (induction zs) auto

lemma run_pool_owns:
  assumes w: "prims_ok w"
  shows "ring head h es \<Longrightarrow> owns P0 size_of es P \<Longrightarrow> map fst t = es \<Longrightarrow> regs_allowed head ops t \<Longrightarrow>
    \<forall>op \<in> set ops. \<forall>n. given_memory op = Some n \<longrightarrow> P0 n = None \<Longrightarrow>
    \<exists>h' P'. run_pool w size_of head ops h P = Some (h', P')
      \<and> ring head h' (map fst (fold reg_step ops t)) \<and> owns P0 size_of (map fst (fold reg_step ops t)) P'"
proof (induction ops arbitrary: h P es t)
  case (Cons op ops)
  show ?case
  proof (cases op)
    case (Register cb r)
    show ?thesis
    proof (cases r)
      case None
      then show ?thesis using Cons by (simp add: Register pool_emplace_def kallocator_allocate_def)
    next
      case (Some n)
      have n: "n \<notin> set (head # es)" "P0 n = None" using Cons.prems(3-5) by (auto simp: Register Some)
      from pool_emplace_owns [OF w Cons.prems(1,2) n] obtain h1 P1 where
        "pool_emplace w size_of head (klist_begin head h) cb (Some n) h P = Some (n, h1, P1)"
        "ring head h1 (n # es)" "owns P0 size_of (n # es) P1" by blast
      then show ?thesis using Cons.IH [of h1 "n # es" P1 "(n, cb) # t"] Cons.prems by (simp add: Register Some)
    qed
  next
    case (Unregister cookie)
    show ?thesis
    proof (cases cookie)
      case None
      then show ?thesis using Cons by (simp add: Unregister)
    next
      case (Some e)
      have "e \<in> set es" using Cons.prems(3,4) by (force simp: Unregister Some)
      then obtain xs ys where es: "es = xs @ e # ys" by (meson split_list)
      have d: "distinct es" using Cons.prems(1) by (simp add: ring_def)
      obtain h1 P1 where
        "pool_erase w e h P = Some (hd (ys @ [head]), h1, P1)" "ring head h1 (xs @ ys)" "owns P0 size_of (xs @ ys) P1"
        using pool_erase_owns [OF w, of head h xs e ys P0 size_of P] Cons.prems(1,2) by (auto simp: es)
      moreover have "map fst (filter (\<lambda>p. fst p \<noteq> e) t) = xs @ ys"
      proof -
        have "map fst (filter (\<lambda>p. fst p \<noteq> e) t) = filter (\<lambda>x. x \<noteq> e) (map fst t)" by (simp add: filter_map comp_def)
        also have "\<dots> = xs @ ys" unfolding Cons.prems(3) es using d by (auto simp: es filter_other)
        finally show ?thesis .
      qed
      ultimately show ?thesis
        using Cons.IH [of h1 "xs @ ys" P1 "filter (\<lambda>p. fst p \<noteq> e) t"] Cons.prems by (simp add: Unregister Some)
    qed
  qed
qed simp

text \<open>
  C26: the memory of a list is balanced: after any registrations and removals, the memory allocated
  beside what was allocated before is exactly one node for each callback that is registered, with
  the size of a node and the tag of the allocator, and destroying the list gives it all back.  No
  operation frees a node twice, frees what is not a node, or destroys an object that is not there.
\<close>

theorem list_memory_balanced:
  assumes "prims_ok w" and "regs_allowed head ops []"
    and "\<forall>op \<in> set ops. \<forall>n. given_memory op = Some n \<longrightarrow> P0 n = None"
  shows "\<exists>h' P' h''. run_pool w size_of head ops (klist_construct w head h) P0 = Some (h', P')
    \<and> (\<forall>p. P' p = (if p \<in> fst ` set (fold reg_step ops []) then Some (k_tag, size_of) else P0 p))
    \<and> pool_clear w head h' P' = Some (h'', P0)"
proof -
  have "ring head (klist_construct w head h) []" by (rule klist_construct_ring)
  moreover have "owns P0 size_of [] P0" by (simp add: owns_def)
  ultimately obtain h' P' where h': "run_pool w size_of head ops (klist_construct w head h) P0 = Some (h', P')"
    "ring head h' (map fst (fold reg_step ops []))" "owns P0 size_of (map fst (fold reg_step ops [])) P'"
    using run_pool_owns [OF assms(1), of head "klist_construct w head h" "[]" P0 size_of P0 "[]" ops] assms(2,3) by auto
  obtain h'' where "pool_clear w head h' P' = Some (h'', P0)"
    using pool_clear_owns [OF assms(1) h'(2,3)] by blast
  then show ?thesis using h'(1,3) by (auto simp: owns_def)
qed

section \<open>Storage of objects\<close>

text \<open>
  What the templates ask of a type.  \<open>None\<close> is storage without an object; an operation a type does
  not have is refused by the compiler.
\<close>

record type_traits =
  trivially_copyable :: bool
  trivially_move_constructible :: bool
  trivially_move_assignable :: bool
  trivially_destructible :: bool

type_synonym 'o uninitialized_storage = "'o option"

definition us_default :: "'o uninitialized_storage" where
  "us_default = None"

text \<open>The forwarding constructor: the bytes of a temporary object.\<close>

definition us_forward :: "type_traits \<Rightarrow> 'o \<Rightarrow> 'o uninitialized_storage option" where
  "us_forward tt x = (if trivially_copyable tt then Some (Some x) else None)"

definition us_copy :: "type_traits \<Rightarrow> 'o uninitialized_storage \<Rightarrow> 'o uninitialized_storage option" where
  "us_copy tt other = (if trivially_copyable tt then Some other else None)"

definition us_copy_assign ::
  "type_traits \<Rightarrow> 'o uninitialized_storage \<Rightarrow> 'o uninitialized_storage \<Rightarrow> 'o uninitialized_storage option"
where
  "us_copy_assign tt this other = (if trivially_copyable tt then Some other else None)"

definition us_move :: "type_traits \<Rightarrow> 'o uninitialized_storage \<Rightarrow> 'o uninitialized_storage option" where
  "us_move tt other = (if trivially_move_constructible tt then Some other else None)"

definition us_move_assign ::
  "type_traits \<Rightarrow> 'o uninitialized_storage \<Rightarrow> 'o uninitialized_storage \<Rightarrow> 'o uninitialized_storage option"
where
  "us_move_assign tt this other = (if trivially_move_assignable tt then Some other else None)"

definition us_construct :: "'o \<Rightarrow> 'o uninitialized_storage \<Rightarrow> 'o uninitialized_storage" where
  "us_construct x this = Some x"

text \<open>\<open>get\<close> and \<open>destroy\<close> need an object; \<open>dtor\<close> is the destructor, which may fail to end.\<close>

definition us_get :: "'o uninitialized_storage \<Rightarrow> 'o option" where
  "us_get this = this"

definition us_destroy ::
  "type_traits \<Rightarrow> ('o \<Rightarrow> 's \<Rightarrow> 's option) \<Rightarrow> 'o uninitialized_storage \<Rightarrow> 's \<Rightarrow> ('o uninitialized_storage \<times> 's) option"
where
  "us_destroy tt dtor this s =
    (if trivially_destructible tt then Some (this, s)
     else case us_get this of None \<Rightarrow> None | Some x \<Rightarrow> map_option (\<lambda>s'. (None, s')) (dtor x s))"

text \<open>A list is none of these, so that its storage is never copied or moved.\<close>

definition klist_traits :: type_traits where
  "klist_traits = \<lparr>trivially_copyable = False, trivially_move_constructible = False,
     trivially_move_assignable = False, trivially_destructible = False\<rparr>"

lemma list_storage_stays:
  "us_forward klist_traits x = None" "us_copy klist_traits u = None" "us_copy_assign klist_traits t u = None"
  "us_move klist_traits u = None" "us_move_assign klist_traits t u = None"
  by (simp_all add: us_forward_def us_copy_def us_copy_assign_def us_move_def us_move_assign_def klist_traits_def)

section \<open>The static lists\<close>

text \<open>
  The storage of the four lists, an object being the head of its list.  \<open>init\<close> makes the list before
  the resource, and \<open>destroy\<close> ends the resource before the list.
\<close>

type_synonym 'p storages = "vm_event \<Rightarrow> 'p uninitialized_storage"

definition init_storage ::
  "('p, 'cb) list_prims \<Rightarrow> (vm_event \<Rightarrow> 'p) \<Rightarrow> vm_event \<Rightarrow> 'p storages \<Rightarrow> ('p, 'cb) lheap \<Rightarrow>
   'p storages \<times> ('p, 'cb) lheap"
where
  "init_storage w heads k st h =
    (st(k := us_construct (heads k) (st k)), klist_construct w (heads k) h)"

definition destroy_storage ::
  "('p, 'cb) list_prims \<Rightarrow> vm_event \<Rightarrow> 'p storages \<times> ('p, 'cb) lheap \<Rightarrow> ('p storages \<times> ('p, 'cb) lheap) option"
where
  "destroy_storage w k s =
    (case s of (st, h) \<Rightarrow>
       map_option (\<lambda>(u, h'). (st(k := u), h')) (us_destroy klist_traits (\<lambda>head. klist_clear w head) (st k) h))"

fun destroy_storages ::
  "('p, 'cb) list_prims \<Rightarrow> vm_event list \<Rightarrow> 'p storages \<times> ('p, 'cb) lheap \<Rightarrow> ('p storages \<times> ('p, 'cb) lheap) option"
where
  "destroy_storages w [] s = Some s"
| "destroy_storages w (k # ks) s = Option.bind (destroy_storage w k s) (destroy_storages w ks)"

text \<open>\<open>vm_callback_init\<close>: the lists in their order, and when one fails those before it destroyed.\<close>

fun init_storages ::
  "('p, 'cb) list_prims \<Rightarrow> (vm_event \<Rightarrow> 'p) \<Rightarrow> (vm_event \<Rightarrow> ntstatus) \<Rightarrow> vm_event list \<Rightarrow> vm_event list \<Rightarrow>
   'p storages \<times> ('p, 'cb) lheap \<Rightarrow> (ntstatus \<times> 'p storages \<times> ('p, 'cb) lheap) option"
where
  "init_storages w heads res ready [] s = Some (STATUS_SUCCESS, s)"
| "init_storages w heads res ready (k # ks) s =
    (let s1 = init_storage w heads k (fst s) (snd s)
     in if NT_SUCCESS (res k) then init_storages w heads res (k # ready) ks s1
        else map_option (\<lambda>s2. (res k, s2)) (destroy_storages w ready s1))"

definition all_lists :: "vm_event list" where
  "all_lists = [Created, Precall, Postcall, Destroyed]"

lemma clear_fresh:
  assumes "prims_ok w" and "flink h head = head"
  shows "klist_clear w head h = Some h"
  using assms prims_okD(4) [OF assms(1)] by (subst klist_clear.simps) (simp add: klist_empty_def)

lemma destroy_fresh:
  assumes "prims_ok w" and "flink h (heads k) = heads k"
  shows "destroy_storage w k (st(k := Some (heads k)), h) = Some (st(k := None), h)"
  using clear_fresh [OF assms] by (simp add: destroy_storage_def us_destroy_def us_get_def klist_traits_def)

text \<open>
  starting and stopping the notifications, every list is used only while it exists: the heap and
  the status are those of the operations on the lists; after a start that succeeds all four lists
  exist, and stopping destroys each once.  After a start that fails no list is left, except the one
  whose resource failed: it is made before its resource, and nobody destroys it.
\<close>

theorem list_storage_lives:
  assumes "prims_ok w" and "inj heads"
  shows "\<exists>st h' status ev. init_storages w heads res [] all_lists (\<lambda>_. us_default, h) = Some (status, st, h')
    \<and> vm_callback_init w heads res h = Some (status, h', ev)
    \<and> (\<forall>k. st k = (if NT_SUCCESS status \<or> find (\<lambda>k. \<not> NT_SUCCESS (res k)) all_lists = Some k
         then Some (heads k) else None))
    \<and> (NT_SUCCESS status \<longrightarrow> destroy_storages w all_lists (st, h') = Some (\<lambda>_. None, h'))"
proof -
  have d: "heads a = heads b \<longleftrightarrow> a = b" for a b using assms(2) by (simp add: inj_eq)
  have ev: "(\<forall>k. P k) \<longleftrightarrow> P Created \<and> P Precall \<and> P Postcall \<and> P Destroyed" for P :: "vm_event \<Rightarrow> bool"
    by (metis vm_event.exhaust)
  have none: "st(Created := None, Precall := None, Postcall := None, Destroyed := None) = (\<lambda>_. None)"
    for st :: "'a storages"
    unfolding fun_eq_iff ev by simp
  have ok: "NT_SUCCESS STATUS_SUCCESS" by code_simp
  note c = clear_fresh [OF assms(1)]
  note defs = all_lists_def init_storage_def destroy_storage_def us_destroy_def us_get_def us_construct_def us_default_def
    klist_traits_def klist_construct_def cl_init_def cl_destroy_def s_list_def vm_callback_init_def c d
  show ?thesis
    by (cases "NT_SUCCESS (res Created)"; cases "NT_SUCCESS (res Precall)"; cases "NT_SUCCESS (res Postcall)";
        cases "NT_SUCCESS (res Destroyed)")
      (simp_all add: defs ev none ok)
qed

section \<open>Examples\<close>

theorem list_memory_balanced_witness:
  "\<forall>h :: (nat, string) lheap. \<exists>h' P' h''. run_pool doc_prims (24 :: 32 word) 0
      [Register ''a'' (Some 1), Register ''b'' (Some 2), Register ''c'' None, Unregister (Some 1)]
      (klist_construct doc_prims 0 h) [9 \<mapsto> (5, 7)] = Some (h', P')
    \<and> P' = [9 \<mapsto> (5, 7), 2 \<mapsto> (k_tag, 24)] \<and> pool_clear doc_prims 0 h' P' = Some (h'', [9 \<mapsto> (5, 7)])"
proof
  fix h :: "(nat, string) lheap"
  let ?ops = "[Register ''a'' (Some 1), Register ''b'' (Some 2), Register ''c'' None, Unregister (Some (1 :: nat))]"
  have "regs_allowed (0 :: nat) ?ops []" by simp
  moreover have "\<forall>op \<in> set ?ops. \<forall>n. given_memory op = Some n \<longrightarrow> [9 \<mapsto> (5 :: 32 word, 7 :: 32 word)] n = None" by simp
  ultimately obtain h' P' h'' where r: "run_pool doc_prims (24 :: 32 word) 0 ?ops (klist_construct doc_prims 0 h) [9 \<mapsto> (5, 7)] = Some (h', P')"
    and p: "\<forall>p. P' p = (if p \<in> fst ` set (fold reg_step ?ops []) then Some (k_tag, 24) else [9 \<mapsto> (5, 7)] p)"
    and c: "pool_clear doc_prims 0 h' P' = Some (h'', [9 \<mapsto> (5, 7)])"
    using list_memory_balanced [OF doc_prims_ok, of 0 ?ops "[9 \<mapsto> (5, 7)]" 24 h] by blast
  have "P' = [9 \<mapsto> (5, 7), 2 \<mapsto> (k_tag, 24)]" using p by (auto simp: fun_eq_iff)
  then show "\<exists>h' P' h''. run_pool doc_prims (24 :: 32 word) 0 ?ops (klist_construct doc_prims 0 h) [9 \<mapsto> (5, 7)] = Some (h', P')
    \<and> P' = [9 \<mapsto> (5, 7), 2 \<mapsto> (k_tag, 24)] \<and> pool_clear doc_prims 0 h' P' = Some (h'', [9 \<mapsto> (5, 7)])"
    using r c by blast
qed

definition event_heads :: "vm_event \<Rightarrow> nat" where
  "event_heads k = (case k of Created \<Rightarrow> 1 | Precall \<Rightarrow> 2 | Postcall \<Rightarrow> 3 | Destroyed \<Rightarrow> 4)"

theorem list_storage_lives_witness:
  "\<forall>h :: (nat, string) lheap. \<exists>st h' status. init_storages doc_prims event_heads
      (\<lambda>k. if k = Postcall then STATUS_UNSUCCESSFUL else STATUS_SUCCESS) [] all_lists (\<lambda>_. us_default, h)
        = Some (status, st, h')
    \<and> (\<forall>k. st k = (if k = Postcall then Some 3 else None))"
proof
  fix h :: "(nat, string) lheap"
  let ?res = "\<lambda>k. if k = Postcall then STATUS_UNSUCCESSFUL else STATUS_SUCCESS"
  have "inj event_heads" by (auto simp: inj_def event_heads_def split: vm_event.splits)
  from list_storage_lives [OF doc_prims_ok this, of ?res h]
  obtain st h' status ev where i: "init_storages doc_prims event_heads ?res [] all_lists (\<lambda>_. us_default, h) = Some (status, st, h')"
    and v: "vm_callback_init doc_prims event_heads ?res h = Some (status, h', ev)"
    and k: "\<forall>k. st k = (if NT_SUCCESS status \<or> find (\<lambda>k. \<not> NT_SUCCESS (?res k)) all_lists = Some k
         then Some (event_heads k) else None)" by blast
  have s: "NT_SUCCESS STATUS_SUCCESS" "\<not> NT_SUCCESS STATUS_UNSUCCESSFUL" by code_simp+
  then have "\<not> NT_SUCCESS status" using i by (auto simp: all_lists_def Let_def split: if_splits)
  then have "\<forall>k. st k = (if k = Postcall then Some 3 else None)"
    using k s by (auto simp: all_lists_def event_heads_def)
  then show "\<exists>st h' status. init_storages doc_prims event_heads ?res [] all_lists (\<lambda>_. us_default, h)
        = Some (status, st, h') \<and> (\<forall>k. st k = (if k = Postcall then Some 3 else None))"
    using i by blast
qed

end
