(* ===== verification/Linkage.thy ===== *)
theory Linkage
  imports Callback_Slots
begin

text \<open>
  What the 32-bit build needs beside the code: the names by which the driver is linked to the kernel
  (\<open>PawnIO/x86_linker_fix.h\<close>), the forwarding functions of \<open>PawnIO/kernel_api_wrappers.c\<close>, and the
  codes and constants of \<open>PawnIO/wdk_compat.h\<close>.
\<close>

section \<open>The kernel routines as the code declares them\<close>

datatype c_type =
    VOID | PVOID | ULONG | PDEVICE_OBJECT | PRKEVENT | EVENT_TYPE | BOOLEAN | NTSTATUS | PERESOURCE
  | KPROCESSOR_MODE | PLARGE_INTEGER | PGROUP_AFFINITY | USHORT | PPROCESSOR_NUMBER | PHYSICAL_ADDRESS
  | SIZE_T | MEMORY_CACHING_TYPE | LARGE_INTEGER | BUS_DATA_TYPE

text \<open>The sizes on x86, in bytes: pointers, enumerations and \<open>SIZE_T\<close> have 4.\<close>

fun x86_size :: "c_type \<Rightarrow> nat" where
  "x86_size VOID = 0"
| "x86_size BOOLEAN = 1"
| "x86_size KPROCESSOR_MODE = 1"
| "x86_size USHORT = 2"
| "x86_size PHYSICAL_ADDRESS = 8"
| "x86_size LARGE_INTEGER = 8"
| "x86_size _ = 4"

record kernel_routine =
  routine :: string
  result :: c_type
  params :: "c_type list"

definition kernel_api :: "kernel_routine list" where
  "kernel_api = [
    \<lparr>routine = ''ExFreePoolWithTag'', result = VOID, params = [PVOID, ULONG]\<rparr>,
    \<lparr>routine = ''IoDeleteDevice'', result = VOID, params = [PDEVICE_OBJECT]\<rparr>,
    \<lparr>routine = ''KeInitializeEvent'', result = VOID, params = [PRKEVENT, EVENT_TYPE, BOOLEAN]\<rparr>,
    \<lparr>routine = ''ExInitializeResourceLite'', result = NTSTATUS, params = [PERESOURCE]\<rparr>,
    \<lparr>routine = ''ExAcquireResourceSharedLite'', result = BOOLEAN, params = [PERESOURCE, BOOLEAN]\<rparr>,
    \<lparr>routine = ''ExAcquireResourceExclusiveLite'', result = BOOLEAN, params = [PERESOURCE,
       BOOLEAN]\<rparr>,
    \<lparr>routine = ''ExReleaseResourceLite'', result = VOID, params = [PERESOURCE]\<rparr>,
    \<lparr>routine = ''ExDeleteResourceLite'', result = VOID, params = [PERESOURCE]\<rparr>,
    \<lparr>routine = ''KeDelayExecutionThread'', result = NTSTATUS, params = [KPROCESSOR_MODE, BOOLEAN,
       PLARGE_INTEGER]\<rparr>,
    \<lparr>routine = ''KeSetSystemGroupAffinityThread'', result = VOID, params = [PGROUP_AFFINITY,
       PGROUP_AFFINITY]\<rparr>,
    \<lparr>routine = ''KeRevertToUserGroupAffinityThread'', result = VOID, params = [PGROUP_AFFINITY]\<rparr>,
    \<lparr>routine = ''KeQueryActiveProcessorCountEx'', result = ULONG, params = [USHORT]\<rparr>,
    \<lparr>routine = ''KeGetProcessorNumberFromIndex'', result = NTSTATUS, params = [ULONG,
       PPROCESSOR_NUMBER]\<rparr>,
    \<lparr>routine = ''MmMapIoSpace'', result = PVOID, params = [PHYSICAL_ADDRESS, SIZE_T,
       MEMORY_CACHING_TYPE]\<rparr>,
    \<lparr>routine = ''MmUnmapIoSpace'', result = VOID, params = [PVOID, SIZE_T]\<rparr>,
    \<lparr>routine = ''KeQueryPerformanceCounter'', result = LARGE_INTEGER, params = [PLARGE_INTEGER]\<rparr>,
    \<lparr>routine = ''KeStallExecutionProcessor'', result = VOID, params = [ULONG]\<rparr>,
    \<lparr>routine = ''MmGetVirtualForPhysical'', result = PVOID, params = [PHYSICAL_ADDRESS]\<rparr>,
    \<lparr>routine = ''HalSetBusDataByOffset'', result = ULONG, params = [BUS_DATA_TYPE, ULONG, ULONG, PVOID,
       ULONG, ULONG]\<rparr>,
    \<lparr>routine = ''HalGetBusDataByOffset'', result = ULONG, params = [BUS_DATA_TYPE, ULONG, ULONG, PVOID,
       ULONG, ULONG]\<rparr>]"

section \<open>The names of stdcall\<close>

fun decimal :: "nat \<Rightarrow> string" where
  "decimal n = (if n < 10 then [char_of (48 + n)] else decimal (n div 10) @ [char_of (48 + n mod 10)])"

declare decimal.simps [simp del]

text \<open>A parameter takes whole slots of 4 bytes on the stack.\<close>

definition stack_bytes :: "c_type list \<Rightarrow> nat" where
  "stack_bytes ts = sum_list (map (\<lambda>t. (x86_size t + 3) div 4 * 4) ts)"

definition stdcall_name :: "kernel_routine \<Rightarrow> string" where
  "stdcall_name d = ''_'' @ routine d @ ''@'' @ decimal (stack_bytes (params d))"

text \<open>An import library has a routine under its name, and the pointer to it under \<open>__imp_\<close>.\<close>

definition import_library :: "kernel_routine list \<Rightarrow> string list" where
  "import_library ds = concat (map (\<lambda>d. [stdcall_name d, ''__imp_'' @ stdcall_name d]) ds)"

text \<open>
  \<open>/ALTERNATENAME:a=b\<close>: where nothing defines \<open>a\<close>, the linker takes \<open>b\<close> for it.
\<close>

definition resolve :: "string list \<Rightarrow> (string \<times> string) list \<Rightarrow> string \<Rightarrow> string option" where
  "resolve defined names s =
    (if s \<in> set defined then Some s
     else case map_of names s of
       None \<Rightarrow> None
     | Some t \<Rightarrow> if t \<in> set defined then Some t else None)"

definition kernel_alternate_names :: "(string \<times> string) list" where
  "kernel_alternate_names = [
    (''__imp__ExFreePoolWithTag'', ''__imp__ExFreePoolWithTag@8''),
    (''__imp__ExInitializeResourceLite'', ''__imp__ExInitializeResourceLite@4''),
    (''__imp__ExAcquireResourceSharedLite'', ''__imp__ExAcquireResourceSharedLite@8''),
    (''__imp__ExAcquireResourceExclusiveLite'', ''__imp__ExAcquireResourceExclusiveLite@8''),
    (''__imp__ExReleaseResourceLite'', ''__imp__ExReleaseResourceLite@4''),
    (''__imp__ExDeleteResourceLite'', ''__imp__ExDeleteResourceLite@4''),
    (''__imp__IoDeleteDevice'', ''__imp__IoDeleteDevice@4''),
    (''__imp__KeDelayExecutionThread'', ''__imp__KeDelayExecutionThread@12''),
    (''__imp__KeSetSystemGroupAffinityThread'', ''__imp__KeSetSystemGroupAffinityThread@8''),
    (''__imp__KeRevertToUserGroupAffinityThread'', ''__imp__KeRevertToUserGroupAffinityThread@4''),
    (''__imp__KeQueryActiveProcessorCountEx'', ''__imp__KeQueryActiveProcessorCountEx@2''),
    (''_KeGetProcessorNumberFromIndex'', ''_KeGetProcessorNumberFromIndex@8''),
    (''__imp__MmMapIoSpace'', ''__imp__MmMapIoSpace@12''),
    (''__imp__MmUnmapIoSpace'', ''__imp__MmUnmapIoSpace@8''),
    (''__imp__KeQueryPerformanceCounter'', ''__imp__KeQueryPerformanceCounter@4''),
    (''__imp__KeStallExecutionProcessor'', ''__imp__KeStallExecutionProcessor@4''),
    (''__imp__MmGetVirtualForPhysical'', ''__imp__MmGetVirtualForPhysical@8''),
    (''__imp__KeInitializeEvent'', ''__imp__KeInitializeEvent@12''),
    (''__imp__HalSetBusDataByOffset'', ''__imp__HalSetBusDataByOffset@24''),
    (''__imp__HalGetBusDataByOffset'', ''__imp__HalGetBusDataByOffset@24'')]"

definition bcrypt_alternate_names :: "(string \<times> string) list" where
  "bcrypt_alternate_names = [
    (''_BCryptOpenAlgorithmProvider@16'', ''_BCryptOpenAlgorithmProvider@16''),
    (''_BCryptGetProperty@24'', ''_BCryptGetProperty@24''),
    (''_BCryptCloseAlgorithmProvider@8'', ''_BCryptCloseAlgorithmProvider@8''),
    (''_BCryptImportKeyPair@28'', ''_BCryptImportKeyPair@28''),
    (''_BCryptDestroyKey@4'', ''_BCryptDestroyKey@4''),
    (''_BCryptVerifySignature@28'', ''_BCryptVerifySignature@28''),
    (''_BCryptCreateHash@28'', ''_BCryptCreateHash@28''),
    (''_BCryptHashData@16'', ''_BCryptHashData@16''),
    (''_BCryptFinishHash@16'', ''_BCryptFinishHash@16''),
    (''_BCryptDestroyHash@4'', ''_BCryptDestroyHash@4'')]"

definition asm_alternate_names :: "(string \<times> string) list" where
  "asm_alternate_names = [
    (''___dell@4'', ''___dell@4@0''),
    (''__crdr'', ''__crdr@0''),
    (''_DriverEntry@8'', ''_DriverEntry'')]"

definition alternate_names :: "(string \<times> string) list" where
  "alternate_names = kernel_alternate_names @ bcrypt_alternate_names @ asm_alternate_names"

text \<open>The routine a name stands for.\<close>

definition name_of :: "string \<Rightarrow> string" where
  "name_of s = (if take 6 s = ''__imp_'' then drop 7 s else drop 1 s)"

lemma bcrypt_names_check:
  "list_all (\<lambda>(a, b). map_of alternate_names a = Some a) bcrypt_alternate_names"
  by code_simp


section \<open>The forwarding functions\<close>

record forwarder =
  wrapper :: string
  wrapper_result :: c_type
  named :: "(c_type \<times> string) list"
  returns :: bool
  target :: string
  passed :: "string list"

definition kernel_api_wrappers :: "forwarder list" where
  "kernel_api_wrappers = [
    \<lparr>wrapper = ''ExFreePoolWithTag_Impl'', wrapper_result = VOID, named = [(PVOID, ''P''), (ULONG,
       ''Tag'')], returns = False, target = ''ExFreePoolWithTag'', passed = [''P'', ''Tag'']\<rparr>,
    \<lparr>wrapper = ''IoDeleteDevice_Impl'', wrapper_result = VOID, named = [(PDEVICE_OBJECT,
       ''DeviceObject'')], returns = False, target = ''IoDeleteDevice'', passed = [''DeviceObject'']\<rparr>,
    \<lparr>wrapper = ''KeInitializeEvent_Impl'', wrapper_result = VOID, named = [(PRKEVENT, ''Event''),
       (EVENT_TYPE, ''Type''), (BOOLEAN, ''State'')], returns = False, target = ''KeInitializeEvent'',
       passed = [''Event'', ''Type'', ''State'']\<rparr>,
    \<lparr>wrapper = ''ExInitializeResourceLite_Impl'', wrapper_result = NTSTATUS, named = [(PERESOURCE,
       ''Resource'')], returns = True, target = ''ExInitializeResourceLite'', passed = [''Resource'']\<rparr>,
    \<lparr>wrapper = ''ExAcquireResourceSharedLite_Impl'', wrapper_result = BOOLEAN, named = [(PERESOURCE,
       ''Resource''), (BOOLEAN, ''Wait'')], returns = True, target = ''ExAcquireResourceSharedLite'',
       passed = [''Resource'', ''Wait'']\<rparr>,
    \<lparr>wrapper = ''ExAcquireResourceExclusiveLite_Impl'', wrapper_result = BOOLEAN, named = [(PERESOURCE,
       ''Resource''), (BOOLEAN, ''Wait'')], returns = True, target = ''ExAcquireResourceExclusiveLite'',
       passed = [''Resource'', ''Wait'']\<rparr>,
    \<lparr>wrapper = ''ExReleaseResourceLite_Impl'', wrapper_result = VOID, named = [(PERESOURCE,
       ''Resource'')], returns = False, target = ''ExReleaseResourceLite'', passed = [''Resource'']\<rparr>,
    \<lparr>wrapper = ''ExDeleteResourceLite_Impl'', wrapper_result = VOID, named = [(PERESOURCE, ''Resource'')],
       returns = False, target = ''ExDeleteResourceLite'', passed = [''Resource'']\<rparr>,
    \<lparr>wrapper = ''KeDelayExecutionThread_Impl'', wrapper_result = NTSTATUS, named = [(KPROCESSOR_MODE,
       ''WaitMode''), (BOOLEAN, ''Alertable''), (PLARGE_INTEGER, ''Interval'')], returns = True,
       target = ''KeDelayExecutionThread'', passed = [''WaitMode'', ''Alertable'', ''Interval'']\<rparr>,
    \<lparr>wrapper = ''KeSetSystemGroupAffinityThread_Impl'', wrapper_result = VOID, named = [(PGROUP_AFFINITY,
       ''Affinity''), (PGROUP_AFFINITY, ''PreviousAffinity'')], returns = False,
       target = ''KeSetSystemGroupAffinityThread'', passed = [''Affinity'', ''PreviousAffinity'']\<rparr>,
    \<lparr>wrapper = ''KeRevertToUserGroupAffinityThread_Impl'', wrapper_result = VOID,
       named = [(PGROUP_AFFINITY, ''PreviousAffinity'')], returns = False,
       target = ''KeRevertToUserGroupAffinityThread'', passed = [''PreviousAffinity'']\<rparr>,
    \<lparr>wrapper = ''KeQueryActiveProcessorCountEx_Impl'', wrapper_result = ULONG, named = [(USHORT,
       ''GroupNumber'')], returns = True, target = ''KeQueryActiveProcessorCountEx'',
       passed = [''GroupNumber'']\<rparr>,
    \<lparr>wrapper = ''KeGetProcessorNumberFromIndex_Impl'', wrapper_result = NTSTATUS, named = [(ULONG,
       ''ProcIndex''), (PPROCESSOR_NUMBER, ''ProcNumber'')], returns = True,
       target = ''KeGetProcessorNumberFromIndex'', passed = [''ProcIndex'', ''ProcNumber'']\<rparr>,
    \<lparr>wrapper = ''MmMapIoSpace_Impl'', wrapper_result = PVOID, named = [(PHYSICAL_ADDRESS,
       ''PhysicalAddress''), (SIZE_T, ''NumberOfBytes''), (MEMORY_CACHING_TYPE, ''CacheType'')], returns = True,
       target = ''MmMapIoSpace'', passed = [''PhysicalAddress'', ''NumberOfBytes'', ''CacheType'']\<rparr>,
    \<lparr>wrapper = ''MmUnmapIoSpace_Impl'', wrapper_result = VOID, named = [(PVOID, ''BaseAddress''), (SIZE_T,
       ''NumberOfBytes'')], returns = False, target = ''MmUnmapIoSpace'', passed = [''BaseAddress'',
       ''NumberOfBytes'']\<rparr>,
    \<lparr>wrapper = ''KeQueryPerformanceCounter_Impl'', wrapper_result = LARGE_INTEGER,
       named = [(PLARGE_INTEGER, ''PerformanceFrequency'')], returns = True,
       target = ''KeQueryPerformanceCounter'', passed = [''PerformanceFrequency'']\<rparr>,
    \<lparr>wrapper = ''KeStallExecutionProcessor_Impl'', wrapper_result = VOID, named = [(ULONG,
       ''MicroSeconds'')], returns = False, target = ''KeStallExecutionProcessor'',
       passed = [''MicroSeconds'']\<rparr>,
    \<lparr>wrapper = ''MmGetVirtualForPhysical_Impl'', wrapper_result = PVOID, named = [(PHYSICAL_ADDRESS,
       ''PhysicalAddress'')], returns = True, target = ''MmGetVirtualForPhysical'',
       passed = [''PhysicalAddress'']\<rparr>,
    \<lparr>wrapper = ''HalSetBusDataByOffset_Impl'', wrapper_result = ULONG, named = [(BUS_DATA_TYPE,
       ''BusDataType''), (ULONG, ''BusNumber''), (ULONG, ''SlotNumber''), (PVOID, ''Buffer''), (ULONG,
       ''Offset''), (ULONG, ''Length'')], returns = True, target = ''HalSetBusDataByOffset'',
       passed = [''BusDataType'', ''BusNumber'', ''SlotNumber'', ''Buffer'', ''Offset'', ''Length'']\<rparr>,
    \<lparr>wrapper = ''HalGetBusDataByOffset_Impl'', wrapper_result = ULONG, named = [(BUS_DATA_TYPE,
       ''BusDataType''), (ULONG, ''BusNumber''), (ULONG, ''SlotNumber''), (PVOID, ''Buffer''), (ULONG,
       ''Offset''), (ULONG, ''Length'')], returns = True, target = ''HalGetBusDataByOffset'',
       passed = [''BusDataType'', ''BusNumber'', ''SlotNumber'', ''Buffer'', ''Offset'', ''Length'']\<rparr>]"

text \<open>A call of a wrapper, where \<open>call f args\<close> calls the routine \<open>f\<close>; the value, if it returns one.\<close>

definition run_wrapper :: "(string \<Rightarrow> 'a option list \<Rightarrow> 's \<Rightarrow> 'a \<times> 's) \<Rightarrow> forwarder \<Rightarrow> 'a list \<Rightarrow> 's \<Rightarrow> 'a option \<times> 's" where
  "run_wrapper call w args s =
    (let (r, s') = call (target w) (map (map_of (zip (map snd (named w)) args)) (passed w)) s
     in (if returns w then Some r else None, s'))"

lemma lookup_all:
  assumes "length xs = length ys" and "distinct xs"
  shows "map (map_of (zip xs ys)) xs = map Some ys"
  by (rule nth_equalityI) (use assms in \<open>simp_all add: map_of_zip_nth\<close>)

lemma wrappers_check:
  "list_all (\<lambda>w. passed w = map snd (named w) \<and> distinct (map snd (named w)) \<and> (returns w \<longleftrightarrow> wrapper_result w \<noteq> VOID)
     \<and> wrapper w = target w @ ''_Impl''
     \<and> \<lparr>routine = target w, result = wrapper_result w, params = map fst (named w)\<rparr> \<in> set kernel_api)
   kernel_api_wrappers"
  by code_simp

text \<open>
  each forwarding function calls the routine it is named after once, with its own arguments
  in their order, declares the types the routine has, and returns its value unless it has none.
\<close>

theorem wrappers_forward:
  assumes "w \<in> set kernel_api_wrappers" and "length args = length (named w)"
  shows "run_wrapper call w args s
      = (let (r, s') = call (target w) (map Some args) s in (if wrapper_result w = VOID then None else Some r, s'))
    \<and> wrapper w = target w @ ''_Impl''
    \<and> \<lparr>routine = target w, result = wrapper_result w, params = map fst (named w)\<rparr> \<in> set kernel_api"
proof -
  have w: "passed w = map snd (named w)" "distinct (map snd (named w))" "returns w \<longleftrightarrow> wrapper_result w \<noteq> VOID"
      "wrapper w = target w @ ''_Impl''"
      "\<lparr>routine = target w, result = wrapper_result w, params = map fst (named w)\<rparr> \<in> set kernel_api"
    using wrappers_check assms(1) by (simp_all add: list_all_iff)
  have "map (map_of (zip (map snd (named w)) args)) (map snd (named w)) = map Some args"
    by (rule lookup_all) (use assms(2) w(2) in simp_all)
  then show ?thesis using w by (simp add: run_wrapper_def split: prod.split)
qed

section \<open>Codes and constants\<close>

definition fast_fail_codes :: "(string \<times> int) list" where
  "fast_fail_codes = [
    (''LEGACY_GS_VIOLATION'', 0), (''VTGUARD_CHECK_FAILURE'', 1), (''STACK_COOKIE_CHECK_FAILURE'', 2),
    (''CORRUPT_LIST_ENTRY'', 3), (''INCORRECT_STACK'', 4), (''INVALID_ARG'', 5), (''GS_COOKIE_INIT'', 6),
    (''FATAL_APP_EXIT'', 7), (''RANGE_CHECK_FAILURE'', 8), (''UNSAFE_REGISTRY_ACCESS'', 9),
    (''GUARD_ICALL_CHECK_FAILURE'', 10), (''GUARD_WRITE_CHECK_FAILURE'', 11), (''INVALID_FIBER_SWITCH'', 12),
    (''INVALID_SET_OF_CONTEXT'', 13), (''INVALID_REFERENCE_COUNT'', 14), (''INVALID_JUMP_BUFFER'', 18),
    (''MRDATA_MODIFIED'', 19), (''CERTIFICATION_FAILURE'', 20), (''INVALID_EXCEPTION_CHAIN'', 21),
    (''CRYPTO_LIBRARY'', 22), (''INVALID_CALL_IN_DLL_CALLOUT'', 23), (''INVALID_IMAGE_BASE'', 24),
    (''DLOAD_PROTECTION_FAILURE'', 25), (''UNSAFE_EXTENSION_CALL'', 26), (''DEPRECATED_SERVICE_INVOKED'', 27),
    (''INVALID_BUFFER_ACCESS'', 28), (''INVALID_BALANCED_TREE'', 29), (''INVALID_NEXT_THREAD'', 30),
    (''GUARD_ICALL_CHECK_SUPPRESSED'', 31), (''APCS_DISABLED'', 32), (''INVALID_IDLE_STATE'', 33),
    (''MRDATA_PROTECTION_FAILURE'', 34), (''UNEXPECTED_HEAP_EXCEPTION'', 35), (''INVALID_LOCK_STATE'', 36),
    (''GUARD_JUMPTABLE'', 37), (''INVALID_LONGJUMP_TARGET'', 38), (''INVALID_DISPATCH_CONTEXT'', 39),
    (''INVALID_THREAD'', 40), (''INVALID_SYSCALL_NUMBER'', 41), (''INVALID_FILE_OPERATION'', 42),
    (''LPAC_ACCESS_DENIED'', 43), (''GUARD_SS_FAILURE'', 44), (''LOADER_CONTINUITY_FAILURE'', 45),
    (''GUARD_EXPORT_SUPPRESSION_FAILURE'', 46), (''INVALID_CONTROL_STACK'', 47), (''SET_CONTEXT_DENIED'', 48),
    (''INVALID_IAT'', 49), (''HEAP_METADATA_CORRUPTION'', 50), (''PAYLOAD_RESTRICTION_VIOLATION'', 51),
    (''LOW_LABEL_ACCESS_DENIED'', 52), (''ENCLAVE_CALL_FAILURE'', 53), (''UNHANDLED_LSS_EXCEPTON'', 54),
    (''ADMINLESS_ACCESS_DENIED'', 55), (''UNEXPECTED_CALL'', 56), (''CONTROL_INVALID_RETURN_ADDRESS'', 57),
    (''UNEXPECTED_HOST_BEHAVIOR'', 58), (''FLAGS_CORRUPTION'', 59), (''VEH_CORRUPTION'', 60),
    (''ETW_CORRUPTION'', 61), (''RIO_ABORT'', 62), (''INVALID_PFN'', 63),
    (''GUARD_ICALL_CHECK_FAILURE_XFG'', 64), (''CAST_GUARD'', 65), (''HOST_VISIBILITY_CHANGE'', 66),
    (''KERNEL_CET_SHADOW_STACK_ASSIST'', 67), (''PATCH_CALLBACK_FAILED'', 68), (''NTDLL_PATCH_FAILED'', 69),
    (''INVALID_FLS_DATA'', 70), (''INVALID_THREAD_STATE'', 71), (''ASAN_ERROR'', 72),
    (''INVALID_FAST_FAIL_CODE'', 4294967295)]"

text \<open>The codes with which the driver stops the system.\<close>

fun fast_fail_name :: "fast_fail \<Rightarrow> string" where
  "fast_fail_name FAST_FAIL_INVALID_JUMP_BUFFER = ''INVALID_JUMP_BUFFER''"
| "fast_fail_name FAST_FAIL_GUARD_ICALL_CHECK_FAILURE = ''GUARD_ICALL_CHECK_FAILURE''"
| "fast_fail_name FAST_FAIL_INVALID_THREAD_STATE = ''INVALID_THREAD_STATE''"
| "fast_fail_name FAST_FAIL_ASAN_ERROR = ''ASAN_ERROR''"

lemma fast_fails_apart:
  "distinct (map snd fast_fail_codes) \<and> (\<forall>f. \<exists>c. map_of fast_fail_codes (fast_fail_name f) = Some c)"
proof (intro conjI allI)
  show "distinct (map snd fast_fail_codes)" by code_simp
  have "list_all (\<lambda>f. map_of fast_fail_codes (fast_fail_name f) \<noteq> None)
      [FAST_FAIL_INVALID_JUMP_BUFFER, FAST_FAIL_GUARD_ICALL_CHECK_FAILURE, FAST_FAIL_INVALID_THREAD_STATE,
       FAST_FAIL_ASAN_ERROR]"
    by code_simp
  then show "\<exists>c. map_of fast_fail_codes (fast_fail_name f) = Some c" for f
    by (cases f) (simp_all only: list.pred_inject, auto)
qed

text \<open>
  \<open>RTL_CONSTANT_STRING\<close>: the \<open>UNICODE_STRING\<close> of a literal, whose terminator is in the buffer and in
  the maximum length, but not in the length.
\<close>

record unicode_string =
  us_length :: "16 word"
  us_maximum_length :: "16 word"
  us_buffer :: "16 word list"

definition RTL_CONSTANT_STRING :: "16 word list \<Rightarrow> unicode_string" where
  "RTL_CONSTANT_STRING cs =
    (let buffer = cs @ [0]; size_of = 2 * length buffer
     in \<lparr>us_length = of_nat (size_of - 2), us_maximum_length = of_nat size_of, us_buffer = buffer\<rparr>)"

text \<open>The characters a kernel routine reads from the string.\<close>

definition us_chars :: "unicode_string \<Rightarrow> 16 word list" where
  "us_chars u = take (unat (us_length u) div 2) (us_buffer u)"

lemma constant_string_chars:
  assumes "length cs < 2 ^ 15 - 1"
  shows "us_chars (RTL_CONSTANT_STRING cs) = cs"
    and "unat (us_maximum_length (RTL_CONSTANT_STRING cs)) = 2 * length (us_buffer (RTL_CONSTANT_STRING cs))"
proof -
  have "unat (of_nat (2 * length cs) :: 16 word) = 2 * length cs"
    by (rule unat_of_nat_small) (use assms in simp)
  then show "us_chars (RTL_CONSTANT_STRING cs) = cs" by (simp add: us_chars_def RTL_CONSTANT_STRING_def Let_def)
  have "unat (of_nat (2 * (length cs + 1)) :: 16 word) = 2 * (length cs + 1)"
    by (rule unat_of_nat_small) (use assms in simp)
  then show "unat (us_maximum_length (RTL_CONSTANT_STRING cs)) = 2 * length (us_buffer (RTL_CONSTANT_STRING cs))"
    by (simp add: RTL_CONSTANT_STRING_def Let_def)
qed

section \<open>Examples\<close>

theorem wrappers_forward_witness:
  "\<exists>w \<in> set kernel_api_wrappers. run_wrapper (\<lambda>f args s. (5, (f, args) # s)) w [1, 2 :: nat] []
     = (None, [(''ExFreePoolWithTag'', [Some 1, Some 2])])"
proof -
  let ?w = "hd kernel_api_wrappers"
  have w: "?w \<in> set kernel_api_wrappers" "length [1, 2 :: nat] = length (named ?w)"
    "target ?w = ''ExFreePoolWithTag''" "wrapper_result ?w = VOID"
    by (simp_all add: kernel_api_wrappers_def)
  from wrappers_forward [OF w(1,2), of "\<lambda>f args s. (5, (f, args) # s)" "[]"] w show ?thesis by force
qed

end
