(* ===== verification/Spec2Isabelle.thy ===== *)
theory Spec2Isabelle
  imports Files Module_Calls Callback_Threads Vm_Threads Smm Natives_Declared Trusted_Keys Runtime Storage Linkage
begin

text \<open>
  A verification library for PawnIO (\<open>src/PawnIO\<close>), a Windows kernel driver that loads signed
  Pawn modules and runs them in an abstract machine with access to the hardware.

  \<^bold>\<open>The program.\<close>  User mode opens the device and sends requests to \<open>dispatch_irp\<close>
  (\<open>driver.cpp\<close>).  A load request hands a file to \<open>vm_load_binary\<close> (\<open>vm.cpp\<close>): the signature
  at its start is checked against the trusted keys (\<open>signature.cpp\<close>), the rest is parsed and
  copied by the AMX loader (\<open>amx_loader.h\<close>), the registered callbacks are told
  (\<open>callbacks.cpp\<close>, on the list of \<open>klist.h\<close>), and the \<open>main\<close> of the module runs.  An execute
  request runs an exported function on the buffers of the request.  A module acts through
  natives: the loader resolves their names in the table \<open>NATIVES\<close>, a template converts their
  arguments (\<open>vm.cpp\<close>), and \<open>natives_impl_windows.cpp\<close> implements them.  A module can also
  give the system a function pointer that leads back into it (the callback slots of
  \<open>vm.cpp\<close>).  The abstract machine itself is \<open>PawnPP\<close>, a submodule that is not part of the
  repository.

  \<^bold>\<open>Conventions\<close> (\<open>Prelude\<close>).  A cell, a pointer and a \<open>size_t\<close> are one type \<open>'w word\<close>, where
  \<open>'w\<close> is 32 (x86) or 64 (x64, ARM64); arithmetic wraps as in the code.  Memory is a list of
  bytes with a base address, or a function from addresses.  A computation of type
  \<open>'a option\<close> is \<open>None\<close> where the code has no defined result: an access outside an object, a
  null dereference, a fast fail, or a loop that does not end.  Errors the code reports are
  values.  Everything outside the repository is a parameter: the pool, the Windows list
  primitives, the cryptography API, the machine of \<open>PawnPP\<close>, and the answers of the hardware
  and the kernel; what the code relies on there is a named predicate (\<open>prims_ok\<close>,
  \<open>env_ok\<close>, \<open>loader_ok\<close>, \<open>ctl_ok\<close>, \<open>bus_ok\<close>, \<open>slot_ok\<close>, \<open>pool_sane\<close>, \<open>lock_api_ok\<close>,
  \<open>hw_arrays_ok\<close>, ...).

  \<^bold>\<open>Theories.\<close>
  \<^item> \<open>Cbytes\<close>, \<open>Valarray\<close>: byte access, C strings and the table walks of \<open>amx_loader.h\<close>.  A
    little-endian read gives the same value on both byte orders; a walk is exactly the walk
    over a table inside the buffer, although its address checks can wrap.
  \<^item> \<open>Loader\<close>: \<open>loader::init\<close>, lookups, destructor.  \<open>Loader_Parse\<close> states what a file says
    (\<open>parse_image\<close>) and that the counting stage finds exactly that, every error included;
    \<open>Loader_Layout\<close> that the regions of the allocation are disjoint and inside it on a 64-bit
    build; \<open>Loader_Fill\<close> and \<open>Loader_Correct\<close> that the copies and tables of an accepted file
    represent it.  There are theorems on the files where the code goes wrong.  \<open>Loader_Total\<close>
    turns this around: with a pool that hands out whole blocks, \<open>init\<close> has a result on every
    file without the faults those theorems are about, and its success means all of the above.
  \<^item> \<open>Native_Args\<close>: \<open>amx_callback\<close>, the argument wrappers, \<open>native_callback_wrapper2\<close>: a native
    gets the values of its arguments and its references are written back, or the call fails.
    \<open>Amx_Text\<close>: the natives with strings (\<open>debug_print\<close>, \<open>amx_strcpy\<close>, \<open>get_proc_address\<close>,
    \<open>get_public\<close>); the bound is the buffer of 1024 bytes, and the measure of the format loop
    is the room left in it.
  \<^item> \<open>Signature\<close>: hashing, verification, key selection; which modules are accepted, and that
    handles are closed on every path.  \<open>Trusted_Keys\<close>: the array of keys and the key itself.
  \<^item> \<open>Klist\<close>, \<open>Callbacks\<close>: the kernel list on a heap of links, and the four notification lists
    on it, as an abstract list of values and a table of cookies.  \<open>Klist_Iter\<close>: the iterators,
    forwards and backwards, as two interpretations of one contract of loops.
    \<open>Storage\<close>: the allocator of the nodes on a pool of tagged blocks, the list operations on
    that memory as a refinement, and the storage template with the life of the static lists.
    \<open>Callback_Threads\<close>: the operations of several threads on one list under its lock, with the
    steps of a notification interleaved with writers whose intermediate states are arbitrary.
  \<^item> \<open>Vm_Env\<close>, \<open>Callback_Slots\<close>: notifications of one machine and the discipline of its mutex;
    the table of 256 slots, with every access as a step, so that all interleavings of machines
    are covered by an invariant.
  \<^item> \<open>Vm\<close>, \<open>Vm_Run\<close>: load, execute, destroy.  A handler returns its result and its trace of
    events (locks, notifications, runs, mappings, pool blocks); the theorems say that a trace
    is in order and which blocks are left.  \<open>Vm_Threads\<close>: threads that load, execute and close
    machines and are called back into them, as a step relation over the stacks of calls and the
    mutex of each machine: who runs where, which circles of waiting never end, and which rules
    of the modules keep a freed machine from being used.
  \<^item> \<open>Driver\<close>: \<open>DriverEntry\<close>, \<open>driver_unload\<close>, \<open>dispatch_irp\<close>; sessions of a file object, and
    the race of load requests as a step relation.  \<open>Protocol\<close>: a file object implements an
    automaton whose state is the loaded file; a simulation, stated once in a locale, carries it
    to every sequence of requests.  This is where loader, signatures, machines and requests
    are put together, and where what is asked of a load request is one predicate
    (\<open>request_ok\<close>).  \<open>Files\<close>: requests of any number of file objects on one system, in any
    order, with files closed and opened again; each follows its own automaton.
  \<^item> \<open>Machine\<close>: what natives act on: memory, and a log of hardware events.
    \<open>Natives_Memory\<close>, \<open>Natives_Bus\<close>, \<open>Natives_Cpu\<close>, \<open>Registers\<close>: the natives, and the stubs of
    \<open>x64.asm\<close>, \<open>x86.asm\<close> and \<open>msrmrs.cpp\<close>.  \<open>Natives_Table\<close>: the table of each build, and a
    call from the name to the effect.  \<open>Natives_Declared\<close>: the declarations of
    \<open>natives_impl.h\<close>, which the table agrees with.  \<open>Natives_Types\<close>: every native keeps the
    types of its arguments, and so what its call can change.  \<open>Module_Calls\<close>: a call by a
    loaded module, from the import in its file to the native.  \<open>Smm\<close>: the assembly of the
    SMM calls, instruction by instruction, below \<open>query_dell_smm\<close>.
  \<^item> \<open>Kernel_Stubs\<close>: the C runtime routines of \<open>kernel_stubs.c\<close> on a flat memory.  \<open>Runtime\<close>:
    its \<open>ceil\<close> and \<open>floor\<close> on the rational values of doubles, \<open>malloc\<close> and \<open>free\<close> as calls
    of the pool, and the remaining hooks.  \<open>Linkage\<close>: the names by which the 32-bit build is
    linked, against the stdcall names of the declared routines, the forwarding wrappers of
    \<open>kernel_api_wrappers.c\<close>, and the codes and constants of \<open>wdk_compat.h\<close>.

  \<^bold>\<open>Bounds.\<close>  No definition runs on fuel: loops over buffers recurse on what is left of them,
  string loops that need not end are partial functions, and where it matters that they end
  that is proved.  Theorems about files assume at most that the buffer is an object of the
  host (it does not wrap around the address space) and that it has less than 4 GiB.

  \<^bold>\<open>Not modelled.\<close>  \<open>PawnPP\<close> (a parameter); the contents and the zeroing of fresh pool memory
  beyond what the loader writes; the declarations of compiler intrinsics in \<open>wdk_compat.h\<close>,
  \<open>arch_detect.h\<close> and \<open>arch_types.h\<close>, which choose the widths of the model; the prototypes of
  \<open>public.h\<close> and of the other headers; the type aliases of \<open>kallocator.h\<close> and \<open>klist.h\<close>;
  floating point beyond \<open>ceil\<close> and \<open>floor\<close>, infinities and NaN; the empty stack probes of
  x86; which routine of the kernel calls a trampoline, and when, beyond that it is one the
  module has handed out (\<open>armed\<close>); the fairness of the mutexes;
  instructions that fault outside a \<open>__try\<close>, which stop the system; what a port write that
  enters SMM does, beyond that it keeps the stack pointer and the pointer to its array.
\<close>

end
